(* ===== verification/Prelude.thy ===== *)
theory Prelude
  imports Main "HOL-Library.Word"
begin

text \<open>
  Shared vocabulary of the development: the machine types of the Rust sources, results as
  sums, big-endian byte codecs, the fragments of Rust's string library the sources use
  (trimming, splitting, decimal printing and parsing) and a locale for self-delimiting
  frame codecs.

  A Rust \<open>String\<close> is modelled as a HOL \<open>string\<close> whose characters are the bytes of its
  UTF-8 form; every routine below that looks inside a string only tests ASCII characters,
  and \<open>trim\<close> removes ASCII white space.
\<close>

named_theorems codec_simps \<open>rewrite rules of byte and text codecs\<close>
named_theorems string_simps \<open>rewrite rules of the string library\<close>

section \<open>Machine types and results\<close>

type_synonym u8 = "8 word"
type_synonym u16 = "16 word"
type_synonym u32 = "32 word"
type_synonym u64 = "64 word"
type_synonym bytes = "8 word list"

abbreviation Err :: "'e \<Rightarrow> 'e + 'a" where "Err \<equiv> Inl"
abbreviation Ok :: "'a \<Rightarrow> 'e + 'a" where "Ok \<equiv> Inr"

fun bind_result :: "'e + 'a \<Rightarrow> ('a \<Rightarrow> 'e + 'b) \<Rightarrow> 'e + 'b" where
  "bind_result (Inl e) f = Inl e"
| "bind_result (Inr x) f = f x"

fun is_ok :: "'e + 'a \<Rightarrow> bool" where
  "is_ok (Inl e) = False"
| "is_ok (Inr x) = True"

lemma bind_result_ok_iff: "bind_result r f = Inr y \<longleftrightarrow> (\<exists>x. r = Inr x \<and> f x = Inr y)"
  by (cases r) auto

definition bytes_of :: "string \<Rightarrow> bytes" where
  "bytes_of s = map of_char s"

definition string_of :: "bytes \<Rightarrow> string" where
  "string_of bs = map (\<lambda>b. char_of (unat b)) bs"

lemma string_of_bytes_of [simp]: "string_of (bytes_of s) = s"
proof -
  have "char_of (unat (of_char c :: 8 word)) = c" for c :: char
  proof -
    have "unat (of_nat (of_char c) :: 8 word) = of_char c"
      by (simp add: unat_of_nat)
    then show ?thesis by (metis char_of_char of_nat_of_char)
  qed
  then show ?thesis by (simp add: string_of_def bytes_of_def comp_def)
qed

lemma bytes_of_inj [simp]: "bytes_of s = bytes_of t \<longleftrightarrow> s = t"
  by (metis string_of_bytes_of)

lemma bytes_of_append [simp]: "bytes_of (s @ t) = bytes_of s @ bytes_of t"
  by (simp add: bytes_of_def)

lemma length_bytes_of [simp]: "length (bytes_of s) = length s"
  by (simp add: bytes_of_def)

section \<open>Big-endian integers\<close>

primrec be_encode :: "nat \<Rightarrow> nat \<Rightarrow> bytes" where
  "be_encode 0 n = []"
| "be_encode (Suc k) n = be_encode k (n div 256) @ [of_nat (n mod 256)]"

definition be_decode :: "bytes \<Rightarrow> nat" where
  "be_decode bs = foldl (\<lambda>a b. a * 256 + unat b) 0 bs"

lemma byte_bound: "unat (b :: 8 word) < 256"
  using unsigned_less [of b, where 'a = nat] by simp

lemma bytes_of_string_of [simp]: "bytes_of (string_of bs) = bs"
proof -
  have "(of_char (char_of (unat b)) :: 8 word) = b" for b :: "8 word"
  proof -
    have "(of_char (char_of (unat b)) :: 8 word) = of_nat (of_char (char_of (unat b)))"
      by (simp only: of_nat_of_char)
    also have "\<dots> = b" using byte_bound [of b] by simp
    finally show ?thesis .
  qed
  then show ?thesis by (simp add: bytes_of_def string_of_def comp_def)
qed

lemma be_encode_numeral:
  "be_encode (numeral k) n = be_encode (pred_numeral k) (n div 256) @ [of_nat (n mod 256)]"
  using be_encode.simps(2) [of "pred_numeral k" n] by (simp only: numeral_eq_Suc [of k, symmetric])

lemma length_be_encode [simp]: "length (be_encode k n) = k"
  by (induction k arbitrary: n) auto

lemma be_decode_snoc [simp]: "be_decode (bs @ [b]) = be_decode bs * 256 + unat b"
  by (simp add: be_decode_def)

lemma be_decode_Nil [simp]: "be_decode [] = 0"
  by (simp add: be_decode_def)

lemma unat_byte_of_nat: "unat (of_nat (n mod 256) :: 8 word) = n mod 256"
  by (simp add: unat_of_nat)

lemma be_decode_encode [codec_simps]: "be_decode (be_encode k n) = n mod 256 ^ k"
proof (induction k arbitrary: n)
  case 0
  then show ?case by simp
next
  case (Suc k)
  have "be_decode (be_encode (Suc k) n) = (n div 256) mod 256 ^ k * 256 + n mod 256"
    by (simp add: Suc.IH unat_byte_of_nat)
  also have "\<dots> = n mod (256 * 256 ^ k)"
    by (simp add: mod_mult2_eq)
  finally show ?case by simp
qed

lemma be_decode_bound: "be_decode bs < 256 ^ length bs"
proof (induction bs rule: rev_induct)
  case Nil
  then show ?case by simp
next
  case (snoc b bs)
  have "unat b < 256" by (rule byte_bound)
  with snoc show ?case by simp
qed

lemma be_encode_decode [codec_simps]: "be_encode (length bs) (be_decode bs) = bs"
proof (induction bs rule: rev_induct)
  case Nil
  then show ?case by simp
next
  case (snoc b bs)
  have "unat b < 256" by (rule byte_bound)
  then have "(be_decode bs * 256 + unat b) div 256 = be_decode bs"
    and "(be_decode bs * 256 + unat b) mod 256 = unat b"
    by simp_all
  with snoc show ?case by simp
qed

section \<open>Rust strings\<close>

definition is_ws :: "char \<Rightarrow> bool" where
  "is_ws c \<longleftrightarrow> c \<in> {CHR '' '', CHR 0x09, CHR 0x0A, CHR 0x0B, CHR 0x0C, CHR 0x0D}"

definition trim_start :: "string \<Rightarrow> string" where
  "trim_start s = dropWhile is_ws s"

definition trim_end :: "string \<Rightarrow> string" where
  "trim_end s = rev (dropWhile is_ws (rev s))"

definition trim :: "string \<Rightarrow> string" where
  "trim s = trim_end (trim_start s)"

text \<open>\<open>str::split\<close> on a character: always at least one part.\<close>

fun split_on :: "char \<Rightarrow> string \<Rightarrow> string list" where
  "split_on d [] = [[]]"
| "split_on d (c # cs) =
     (if c = d then [] # split_on d cs
      else (case split_on d cs of [] \<Rightarrow> [[c]] | p # ps \<Rightarrow> (c # p) # ps))"

text \<open>\<open>str::split_once\<close> on a character.\<close>

fun split_once :: "char \<Rightarrow> string \<Rightarrow> (string \<times> string) option" where
  "split_once d [] = None"
| "split_once d (c # cs) =
     (if c = d then Some ([], cs)
      else map_option (\<lambda>(a, b). (c # a, b)) (split_once d cs))"

text \<open>\<open>str::rsplit_once\<close> on a character.\<close>

definition rsplit_once :: "char \<Rightarrow> string \<Rightarrow> (string \<times> string) option" where
  "rsplit_once d s = map_option (\<lambda>(a, b). (rev b, rev a)) (split_once d (rev s))"

definition strip_prefix :: "string \<Rightarrow> string \<Rightarrow> string option" where
  "strip_prefix p s = (if take (length p) s = p then Some (drop (length p) s) else None)"

definition starts_with :: "string \<Rightarrow> string \<Rightarrow> bool" where
  "starts_with p s \<longleftrightarrow> take (length p) s = p"

fun str_contains :: "string \<Rightarrow> string \<Rightarrow> bool" where
  "str_contains p [] \<longleftrightarrow> p = []"
| "str_contains p (c # cs) \<longleftrightarrow> starts_with p (c # cs) \<or> str_contains p cs"

fun join :: "string \<Rightarrow> string list \<Rightarrow> string" where
  "join d [] = []"
| "join d [p] = p"
| "join d (p # q # ps) = p @ d @ join d (q # ps)"

lemma split_on_not_Nil [simp]: "split_on d s \<noteq> []"
  by (induction s) (auto split: list.splits)

lemma split_on_no_delim [string_simps]: "d \<notin> set s \<Longrightarrow> split_on d s = [s]"
  by (induction s) auto

lemma split_on_append [string_simps]:
  "d \<notin> set p \<Longrightarrow> split_on d (p @ d # s) = p # split_on d s"
  by (induction p) auto

lemma split_on_join [string_simps]:
  "ps \<noteq> [] \<Longrightarrow> (\<And>p. p \<in> set ps \<Longrightarrow> d \<notin> set p) \<Longrightarrow> split_on d (join [d] ps) = ps"
  by (induction "[d]" ps rule: join.induct) (auto simp: string_simps)

lemma split_on_parts: "p \<in> set (split_on d s) \<Longrightarrow> d \<notin> set p"
proof (induction s arbitrary: p)
  case (Cons c s)
  then show ?case by (cases "split_on d s") (auto split: if_splits)
qed simp

lemma join_split_on [string_simps]: "join [d] (split_on d s) = s"
proof (induction s)
  case (Cons c s)
  then show ?case by (cases "split_on d s" rule: remdups_adj.cases) auto
qed simp

lemma set_join: "c \<in> set (join d ps) \<Longrightarrow> c \<in> set d \<or> (\<exists>p \<in> set ps. c \<in> set p)"
  by (induction d ps rule: join.induct) auto

lemma join_not_Nil: "p \<in> set ps \<Longrightarrow> p \<noteq> [] \<Longrightarrow> join d ps \<noteq> []"
  by (induction d ps rule: join.induct) auto

lemma split_once_append [string_simps]:
  "d \<notin> set p \<Longrightarrow> split_once d (p @ d # s) = Some (p, s)"
  by (induction p) auto

lemma split_once_None_iff: "split_once d s = None \<longleftrightarrow> d \<notin> set s"
  by (induction s) auto

lemma split_once_SomeD: "split_once d s = Some (a, b) \<Longrightarrow> s = a @ d # b \<and> d \<notin> set a"
  by (induction s arbitrary: a) (auto split: if_splits)

lemma rsplit_once_append [string_simps]:
  "d \<notin> set s \<Longrightarrow> rsplit_once d (p @ d # s) = Some (p, s)"
  using split_once_append [of d "rev s" "rev p"] by (simp add: rsplit_once_def)

lemma trim_id: "(\<And>c. c \<in> set s \<Longrightarrow> \<not> is_ws c) \<Longrightarrow> trim s = s"
  unfolding trim_def trim_start_def trim_end_def
  by (metis dropWhile_eq_self_iff hd_in_set rev_rev_ident set_rev)

lemma trim_Nil [simp]: "trim [] = []"
  by (simp add: trim_def trim_start_def trim_end_def)

lemma strip_prefix_append [simp]: "strip_prefix p (p @ s) = Some s"
  by (simp add: strip_prefix_def)

lemma strip_prefix_SomeD: "strip_prefix p s = Some r \<Longrightarrow> s = p @ r"
  by (auto simp: strip_prefix_def split: if_splits) (metis append_take_drop_id)

text \<open>\<open>str::lines\<close>: split at line feeds, without the empty part after a final one and without
  a carriage return at the end of a line.\<close>

definition strip_cr :: "string \<Rightarrow> string" where
  "strip_cr l = (if l \<noteq> [] \<and> last l = CHR 0x0D then butlast l else l)"

definition rust_lines :: "string \<Rightarrow> string list" where
  "rust_lines s = (let ps = split_on (CHR 0x0A) s
                   in map strip_cr (if last ps = [] then butlast ps else ps))"

lemma rust_lines_Nil [simp]: "rust_lines [] = []"
  by (simp add: rust_lines_def)

lemma rust_lines_line:
  assumes "CHR 0x0A \<notin> set l" "CHR 0x0D \<notin> set l"
  shows "rust_lines (l @ CHR 0x0A # s) = l # rust_lines s"
proof -
  have "strip_cr l = l" using assms(2) by (auto simp: strip_cr_def) (metis last_in_set)
  then show ?thesis using assms(1) by (simp add: rust_lines_def split_on_append Let_def)
qed

lemma rust_lines_last:
  assumes "CHR 0x0A \<notin> set l" "CHR 0x0D \<notin> set l" "l \<noteq> []"
  shows "rust_lines l = [l]"
proof -
  have "strip_cr l = l" using assms(2) by (auto simp: strip_cr_def) (metis last_in_set)
  then show ?thesis using assms by (simp add: rust_lines_def split_on_no_delim)
qed

section \<open>Decimal numbers\<close>

definition is_digit :: "char \<Rightarrow> bool" where
  "is_digit c \<longleftrightarrow> 48 \<le> (of_char c :: nat) \<and> (of_char c :: nat) \<le> 57"

definition digit_val :: "char \<Rightarrow> nat" where
  "digit_val c = of_char c - 48"

definition digit_char :: "nat \<Rightarrow> char" where
  "digit_char d = char_of (48 + d)"

definition dec_value :: "string \<Rightarrow> nat" where
  "dec_value s = foldl (\<lambda>a c. a * 10 + digit_val c) 0 s"

fun dec_string :: "nat \<Rightarrow> string" where
  "dec_string n = (if n < 10 then [digit_char n] else dec_string (n div 10) @ [digit_char (n mod 10)])"

declare dec_string.simps [simp del]

definition dec_string_int :: "int \<Rightarrow> string" where
  "dec_string_int i = (if i < 0 then CHR ''-'' # dec_string (nat (- i)) else dec_string (nat i))"

text \<open>\<open>str::parse\<close> into an unsigned type of the given width: one optional plus sign, at
  least one digit, and the value in range.\<close>

definition parse_unsigned :: "nat \<Rightarrow> string \<Rightarrow> nat option" where
  "parse_unsigned w s =
     (let ds = (case s of c # cs \<Rightarrow> if c = CHR ''+'' then cs else s | [] \<Rightarrow> [])
      in if ds \<noteq> [] \<and> list_all is_digit ds \<and> dec_value ds < 2 ^ w then Some (dec_value ds) else None)"

text \<open>\<open>str::parse\<close> into a signed type of the given width.\<close>

definition parse_signed :: "nat \<Rightarrow> string \<Rightarrow> int option" where
  "parse_signed w s =
     (let (neg, ds) = (case s of
            c # cs \<Rightarrow> if c = CHR ''-'' then (True, cs) else if c = CHR ''+'' then (False, cs) else (False, s)
          | [] \<Rightarrow> (False, []));
          v = (if neg then - int (dec_value ds) else int (dec_value ds))
      in if ds \<noteq> [] \<and> list_all is_digit ds \<and> - (2 ^ (w - 1)) \<le> v \<and> v < 2 ^ (w - 1) then Some v else None)"

lemma of_char_digit_char: "d < 10 \<Longrightarrow> of_char (digit_char d) = 48 + d"
  by (simp add: digit_char_def)

lemma is_digit_digit_char [simp]: "d < 10 \<Longrightarrow> is_digit (digit_char d)"
  by (simp add: is_digit_def of_char_digit_char)

lemma digit_val_digit_char [simp]: "d < 10 \<Longrightarrow> digit_val (digit_char d) = d"
  by (simp add: digit_val_def of_char_digit_char)

lemma dec_value_snoc [simp]: "dec_value (s @ [c]) = dec_value s * 10 + digit_val c"
  by (simp add: dec_value_def)

lemma dec_value_dec_string [simp]: "dec_value (dec_string n) = n"
proof (induction n rule: dec_string.induct)
  case (1 n)
  show ?case
  proof (cases "n < 10")
    case True
    then show ?thesis by (simp add: dec_string.simps [of n] dec_value_def)
  next
    case False
    then show ?thesis using 1 by (subst dec_string.simps) simp
  qed
qed

lemma dec_string_digits [simp]: "list_all is_digit (dec_string n)"
proof (induction n rule: dec_string.induct)
  case (1 n)
  then show ?case by (subst dec_string.simps) simp
qed

lemma dec_string_not_Nil [simp]: "dec_string n \<noteq> []"
  by (subst dec_string.simps) simp

lemma is_digit_neq:
  "is_digit c \<Longrightarrow> c \<noteq> CHR ''+''" "is_digit c \<Longrightarrow> c \<noteq> CHR ''-''" "is_digit c \<Longrightarrow> c \<noteq> CHR '',''"
  "is_digit c \<Longrightarrow> c \<noteq> CHR '':''" "is_digit c \<Longrightarrow> c \<noteq> CHR '' ''" "is_digit c \<Longrightarrow> c \<noteq> CHR ''.''"
  "is_digit c \<Longrightarrow> \<not> is_ws c"
  by (auto simp: is_digit_def is_ws_def)

lemma dec_string_digit: "c \<in> set (dec_string n) \<Longrightarrow> is_digit c"
  using dec_string_digits [of n] by (auto simp: list_all_iff)

lemma dec_string_hd: "dec_string n = c # cs \<Longrightarrow> is_digit c"
  using dec_string_digits [of n] by simp

lemma parse_unsigned_dec_string [simp]:
  assumes "n < 2 ^ w"
  shows "parse_unsigned w (dec_string n) = Some n"
proof -
  obtain c cs where "dec_string n = c # cs" by (cases "dec_string n") auto
  with assms show ?thesis
    using dec_string_hd dec_string_digits [of n] dec_value_dec_string [of n]
    by (auto simp: parse_unsigned_def Let_def is_digit_neq)
qed

lemma parse_unsigned_bound: "parse_unsigned w s = Some n \<Longrightarrow> n < 2 ^ w"
  by (auto simp: parse_unsigned_def Let_def split: if_splits)

lemma parse_signed_dec_string_int [simp]:
  assumes "- (2 ^ (w - 1)) \<le> i" "i < 2 ^ (w - 1)"
  shows "parse_signed w (dec_string_int i) = Some i"
proof (cases "i < 0")
  case True
  with assms show ?thesis by (simp add: parse_signed_def dec_string_int_def)
next
  case False
  obtain c cs where "dec_string (nat i) = c # cs" by (cases "dec_string (nat i)") auto
  with assms False show ?thesis
    using dec_string_hd dec_string_digits [of "nat i"] dec_value_dec_string [of "nat i"]
    by (auto simp: parse_signed_def dec_string_int_def Let_def is_digit_neq)
qed

section \<open>Self-delimiting frames\<close>

text \<open>
  Every wire format of the program is a sequence of self-delimiting frames read off a byte
  stream: frp messages, TURN messages over TLS, the records of the signal self-pipe. An
  encoder and a decoder that agree on one frame followed by arbitrary bytes agree on any
  sequence of frames, and the encoding of a sequence determines it.
\<close>

locale frame_codec =
  fixes ok :: "'f \<Rightarrow> bool"
    and enc :: "'f \<Rightarrow> 'b list"
    and dec :: "'b list \<Rightarrow> ('f \<times> 'b list) option"
  assumes dec_enc: "ok f \<Longrightarrow> dec (enc f @ rest) = Some (f, rest)"
    and dec_Nil: "dec [] = None"
begin

primrec dec_n :: "nat \<Rightarrow> 'b list \<Rightarrow> ('f list \<times> 'b list) option" where
  "dec_n 0 bs = Some ([], bs)"
| "dec_n (Suc n) bs = (case dec bs of None \<Rightarrow> None
     | Some (f, r) \<Rightarrow> map_option (\<lambda>(fs, r'). (f # fs, r')) (dec_n n r))"

lemma enc_not_Nil: "ok f \<Longrightarrow> enc f \<noteq> []"
  using dec_enc [of f "[]"] dec_Nil by auto

lemma dec_n_stream:
  "list_all ok fs \<Longrightarrow> dec_n (length fs) (concat (map enc fs) @ rest) = Some (fs, rest)"
  by (induction fs) (auto simp: dec_enc)

lemma prefix_free:
  "ok f \<Longrightarrow> ok g \<Longrightarrow> enc f @ r = enc g @ s \<Longrightarrow> f = g \<and> r = s"
  by (metis dec_enc option.inject prod.inject)

lemma stream_inj:
  "list_all ok fs \<Longrightarrow> list_all ok gs \<Longrightarrow> concat (map enc fs) = concat (map enc gs) \<Longrightarrow> fs = gs"
proof (induction fs arbitrary: gs)
  case Nil
  then show ?case by (cases gs) (auto simp: enc_not_Nil)
next
  case (Cons f fs)
  then obtain g gs' where gs: "gs = g # gs'" by (cases gs) (auto simp: enc_not_Nil)
  have "f = g \<and> concat (map enc fs) = concat (map enc gs')"
    by (rule prefix_free) (use Cons.prems gs in simp_all)
  with Cons gs show ?case by simp
qed

end

section \<open>Interleavings\<close>

text \<open>
  The concurrent parts of the program are relations of atomic steps. What every step keeps is
  kept by every run, and what also holds at the start holds of everything that can be reached.
\<close>

locale step_invariant =
  fixes step :: "'s \<Rightarrow> 's \<Rightarrow> bool"
    and inv :: "'s \<Rightarrow> bool"
  assumes step_inv: "inv s \<Longrightarrow> step s s' \<Longrightarrow> inv s'"
begin

lemma steps_inv: "step\<^sup>*\<^sup>* s s' \<Longrightarrow> inv s \<Longrightarrow> inv s'"
  by (induction rule: rtranclp_induct) (auto intro: step_inv)

end

locale safe_system = step_invariant step inv
  for step :: "'s \<Rightarrow> 's \<Rightarrow> bool" and inv :: "'s \<Rightarrow> bool" +
  fixes init :: "'s \<Rightarrow> bool"
  assumes init_inv: "init s \<Longrightarrow> inv s"
begin

lemma reachable_inv: "init s0 \<Longrightarrow> step\<^sup>*\<^sup>* s0 s \<Longrightarrow> inv s"
  by (rule steps_inv) (auto intro: init_inv)

end

end
