(* ===== verification/Serde.thy ===== *)
theory Serde
  imports Prelude "HOL-Library.Monad_Syntax" "HOL-Library.AList"
begin

text \<open>
  The structured values between the program's records and their JSON or TOML text, and the
  documented meaning of the serde attributes the sources put on their fields
  (\<open>default\<close>, \<open>skip_serializing_if\<close>, \<open>rename\<close>, \<open>alias\<close>). A record is written as a list of
  key/value pairs and read back field by field: an absent key takes its default, an unknown
  key is ignored, a repeated key or a value of the wrong type fails the whole record. The
  text codecs themselves (serde_json, toml) are not part of the sources and are parameters
  of the definitions that call them.
\<close>

named_theorems serde_simps \<open>rewrite rules that read back a written record\<close>

datatype json =
    JNull
  | JBool bool
  | JInt int
  | JFloat string
  | JStr string
  | JArr "json list"
  | JObj "(string \<times> json) list"

section \<open>Writing records\<close>

definition ser_if :: "bool \<Rightarrow> string \<Rightarrow> json \<Rightarrow> (string \<times> json) list" where
  "ser_if skip k v = (if skip then [] else [(k, v)])"

definition ser_str :: "string \<Rightarrow> string \<Rightarrow> (string \<times> json) list" where
  "ser_str k s = ser_if (s = []) k (JStr s)"

definition ser_bool :: "string \<Rightarrow> bool \<Rightarrow> (string \<times> json) list" where
  "ser_bool k b = ser_if (\<not> b) k (JBool b)"

definition ser_int :: "string \<Rightarrow> int \<Rightarrow> (string \<times> json) list" where
  "ser_int k i = ser_if (i = 0) k (JInt i)"

fun ser_opt :: "string \<Rightarrow> ('a \<Rightarrow> json) \<Rightarrow> 'a option \<Rightarrow> (string \<times> json) list" where
  "ser_opt k f None = ser_if True k JNull"
| "ser_opt k f (Some x) = ser_if False k (f x)"

definition json_of_map :: "(string \<times> string) list \<Rightarrow> json" where
  "json_of_map m = JObj (map (\<lambda>(k, v). (k, JStr v)) m)"

definition json_of_strs :: "string list \<Rightarrow> json" where
  "json_of_strs xs = JArr (map JStr xs)"

text \<open>TOML has no null: its writer leaves out a field whose value is \<open>None\<close>.\<close>

definition prune_nulls :: "(string \<times> json) list \<Rightarrow> (string \<times> json) list" where
  "prune_nulls kvs = filter (\<lambda>(k, v). v \<noteq> JNull) kvs"

section \<open>Reading records\<close>

text \<open>A struct is accepted as an object, or as an array of its leading fields in order.\<close>

fun struct_fields :: "string list \<Rightarrow> json \<Rightarrow> (string \<times> json) list option" where
  "struct_fields keys (JObj kvs) = Some kvs"
| "struct_fields keys (JArr xs) = (if length xs \<le> length keys then Some (zip keys xs) else None)"
| "struct_fields keys _ = None"

fun one_of :: "('a \<Rightarrow> 'b option) \<Rightarrow> 'b \<Rightarrow> (string \<times> 'a) list \<Rightarrow> 'b option" where
  "one_of rd d [] = Some d"
| "one_of rd d [(k, v)] = rd v"
| "one_of rd d (_ # _ # _) = None"

definition de_field :: "string list \<Rightarrow> (json \<Rightarrow> 'b option) \<Rightarrow> 'b \<Rightarrow> (string \<times> json) list \<Rightarrow> 'b option" where
  "de_field names rd d kvs = one_of rd d (filter (\<lambda>(k, v). k \<in> set names) kvs)"

fun de_str :: "json \<Rightarrow> string option" where
  "de_str (JStr s) = Some s"
| "de_str _ = None"

fun de_bool :: "json \<Rightarrow> bool option" where
  "de_bool (JBool b) = Some b"
| "de_bool _ = None"

fun de_signed :: "nat \<Rightarrow> json \<Rightarrow> int option" where
  "de_signed w (JInt i) = (if - (2 ^ (w - 1)) \<le> i \<and> i < 2 ^ (w - 1) then Some i else None)"
| "de_signed w _ = None"

fun de_unsigned :: "nat \<Rightarrow> json \<Rightarrow> nat option" where
  "de_unsigned w (JInt i) = (if 0 \<le> i \<and> i < 2 ^ w then Some (nat i) else None)"
| "de_unsigned w _ = None"

fun de_opt :: "(json \<Rightarrow> 'a option) \<Rightarrow> json \<Rightarrow> 'a option option" where
  "de_opt rd JNull = Some None"
| "de_opt rd j = map_option Some (rd j)"

fun traverse :: "('a \<Rightarrow> 'b option) \<Rightarrow> 'a list \<Rightarrow> 'b list option" where
  "traverse f [] = Some []"
| "traverse f (x # xs) = (case f x of None \<Rightarrow> None | Some y \<Rightarrow> map_option ((#) y) (traverse f xs))"

fun de_strs :: "json \<Rightarrow> string list option" where
  "de_strs (JArr xs) = traverse de_str xs"
| "de_strs _ = None"

text \<open>A \<open>HashMap\<close> is an association list with distinct keys (its order stands for the
  unspecified iteration order); a later entry replaces an earlier one of the same key.\<close>

fun de_map :: "json \<Rightarrow> (string \<times> string) list option" where
  "de_map (JObj kvs) =
     map_option (foldl (\<lambda>m (k, v). AList.update k v m) [])
       (traverse (\<lambda>(k, v). map_option (Pair k) (de_str v)) kvs)"
| "de_map _ = None"

section \<open>Reading back what was written\<close>

lemma filter_ser_if [serde_simps]:
  "filter P (ser_if s k v) = (if P (k, v) then ser_if s k v else [])"
  by (simp add: ser_if_def)

lemma one_of_ser_if [serde_simps]:
  "one_of rd d (ser_if s k v) = (if s then Some d else rd v)"
  by (simp add: ser_if_def)

lemma traverse_map: "(\<And>x. x \<in> set xs \<Longrightarrow> f (g x) = Some x) \<Longrightarrow> traverse f (map g xs) = Some xs"
  by (induction xs) auto

lemma de_strs_json_of_strs [serde_simps]: "de_strs (json_of_strs xs) = Some xs"
  by (simp add: json_of_strs_def traverse_map)

lemma update_fresh: "k \<notin> fst ` set m \<Longrightarrow> AList.update k v m = m @ [(k, v)]"
  by (induction m) auto

lemma foldl_update_distinct:
  "distinct (map fst (m @ kvs)) \<Longrightarrow> foldl (\<lambda>m (k, v). AList.update k v m) m kvs = m @ kvs"
proof (induction kvs arbitrary: m)
  case (Cons kv kvs)
  obtain k v where kv: "kv = (k, v)" by (cases kv)
  have "AList.update k v m = m @ [(k, v)]"
    using Cons.prems kv by (intro update_fresh) auto
  then show ?case using Cons.IH [of "m @ [(k, v)]"] Cons.prems kv by simp
qed simp

lemma de_map_json_of_map [serde_simps]:
  assumes "distinct (map fst m)"
  shows "de_map (json_of_map m) = Some m"
proof -
  have "traverse (\<lambda>(k, v). map_option (Pair k) (de_str v)) (map (\<lambda>(k, v). (k, JStr v)) m) = Some m"
    by (rule traverse_map) auto
  then show ?thesis
    using assms foldl_update_distinct [of "[]" m] by (simp add: json_of_map_def)
qed

lemma de_opt_some [serde_simps]: "v \<noteq> JNull \<Longrightarrow> de_opt rd v = map_option Some (rd v)"
  by (cases v) auto

lemma json_of_not_null [simp]: "json_of_map m \<noteq> JNull" "json_of_strs xs \<noteq> JNull"
  by (simp_all add: json_of_map_def json_of_strs_def)

lemma filter_ser_opt [serde_simps]:
  "filter (\<lambda>(k, v). Q k) (ser_opt k0 f x) = (if Q k0 then ser_opt k0 f x else [])"
  by (cases x) (simp_all add: ser_if_def)

lemma one_of_ser_opt [serde_simps]:
  assumes "\<And>y. x = Some y \<Longrightarrow> rd (f y) = Some y" "\<And>y. f y \<noteq> JNull"
  shows "one_of (de_opt rd) None (ser_opt k f x) = Some x"
  using assms by (cases x) (simp_all add: serde_simps)

lemma filter_ser_basic [serde_simps]:
  "filter (\<lambda>(k, v). Q k) (ser_str k0 s) = (if Q k0 then ser_str k0 s else [])"
  "filter (\<lambda>(k, v). Q k) (ser_bool k0 b) = (if Q k0 then ser_bool k0 b else [])"
  "filter (\<lambda>(k, v). Q k) (ser_int k0 i) = (if Q k0 then ser_int k0 i else [])"
  by (simp_all add: ser_str_def ser_bool_def ser_int_def ser_if_def)

lemma one_of_ser_basic [serde_simps]:
  "one_of de_str [] (ser_str k s) = Some s"
  "one_of de_bool False (ser_bool k b) = Some b"
  "- (2 ^ (w - 1)) \<le> i \<Longrightarrow> i < 2 ^ (w - 1) \<Longrightarrow> one_of (de_signed w) 0 (ser_int k i) = Some i"
  "n < 2 ^ w \<Longrightarrow> one_of (de_unsigned w) 0 (ser_int k (int n)) = Some n"
  by (auto simp: ser_str_def ser_bool_def ser_int_def ser_if_def)

end
