(* ===== verification/FrpsConfig.thy ===== *)
theory FrpsConfig
  imports Serde
begin

text \<open>
  Configuration of the embedded frp server (\<open>remgr-frps/src/config.rs\<close>): its record with
  the serde defaults, the codec of the optional certificate paths, and the allow list of
  remote ports.
\<close>

section \<open>Data\<close>

record frps_config =
  enabled :: bool
  bind_addr :: string
  server_port :: nat
  token :: string
  tcp_mux :: bool
  tls_cert_path :: "string option"
  tls_key_path :: "string option"
  max_pool_count :: nat
  heartbeat_timeout :: nat
  allow_ports :: "string option"
  crypto_salt :: string

definition d_enabled :: bool where "d_enabled = True"
definition d_bind_addr :: string where "d_bind_addr = ''0.0.0.0''"
definition d_server_port :: nat where "d_server_port = 7000"
definition d_token :: string where "d_token = []"
definition d_true :: bool where "d_true = True"
definition d_max_pool :: nat where "d_max_pool = 50"
definition d_heartbeat :: nat where "d_heartbeat = 90"
definition d_tls_cert :: "string option" where "d_tls_cert = Some ''/etc/remgr/ssl/frps_cert.pem''"
definition d_tls_key :: "string option" where "d_tls_key = Some ''/etc/remgr/ssl/frps_key.pem''"
definition d_crypto_salt :: string where "d_crypto_salt = ''frp''"

lemmas frps_defaults = d_enabled_def d_bind_addr_def d_server_port_def d_token_def d_true_def
  d_max_pool_def d_heartbeat_def d_tls_cert_def d_tls_key_def d_crypto_salt_def

definition default_frps_config :: frps_config where
  "default_frps_config = \<lparr>
     enabled = True, bind_addr = d_bind_addr, server_port = d_server_port, token = [],
     tcp_mux = True, tls_cert_path = d_tls_cert, tls_key_path = d_tls_key,
     max_pool_count = 50, heartbeat_timeout = 90, allow_ports = None,
     crypto_salt = d_crypto_salt \<rparr>"

text \<open>The ranges the field types of the Rust struct impose.\<close>

definition wf_frps_config :: "frps_config \<Rightarrow> bool" where
  "wf_frps_config c \<longleftrightarrow> server_port c < 2 ^ 16 \<and> max_pool_count c < 2 ^ 32 \<and> heartbeat_timeout c < 2 ^ 64"

section \<open>Saving and loading\<close>

definition opt_path_serialize :: "string option \<Rightarrow> json" where
  "opt_path_serialize p = JStr (case p of Some s \<Rightarrow> s | None \<Rightarrow> [])"

definition opt_path_deserialize :: "json \<Rightarrow> string option option" where
  "opt_path_deserialize j =
     map_option (\<lambda>p. case p of Some s \<Rightarrow> if s = [] then None else Some s | None \<Rightarrow> None) (de_opt de_str j)"

definition frps_keys :: "string list" where
  "frps_keys = [''enabled'', ''bind_addr'', ''server_port'', ''token'', ''tcp_mux'', ''tls_cert_path'',
     ''tls_key_path'', ''max_pool_count'', ''heartbeat_timeout'', ''allow_ports'', ''crypto_salt'']"

definition ser_frps_config :: "frps_config \<Rightarrow> (string \<times> json) list" where
  "ser_frps_config c =
     [(''enabled'', JBool (enabled c)),
      (''bind_addr'', JStr (bind_addr c)),
      (''server_port'', JInt (int (server_port c))),
      (''token'', JStr (token c)),
      (''tcp_mux'', JBool (tcp_mux c)),
      (''tls_cert_path'', opt_path_serialize (tls_cert_path c)),
      (''tls_key_path'', opt_path_serialize (tls_key_path c)),
      (''max_pool_count'', JInt (int (max_pool_count c))),
      (''heartbeat_timeout'', JInt (int (heartbeat_timeout c))),
      (''allow_ports'', (case allow_ports c of None \<Rightarrow> JNull | Some s \<Rightarrow> JStr s)),
      (''crypto_salt'', JStr (crypto_salt c))]"

definition de_frps_config :: "json \<Rightarrow> frps_config option" where
  "de_frps_config j = do {
     kvs \<leftarrow> struct_fields frps_keys j;
     en \<leftarrow> de_field [''enabled''] de_bool d_enabled kvs;
     ba \<leftarrow> de_field [''bind_addr''] de_str d_bind_addr kvs;
     sp \<leftarrow> de_field [''server_port''] (de_unsigned 16) d_server_port kvs;
     tk \<leftarrow> de_field [''token''] de_str d_token kvs;
     mx \<leftarrow> de_field [''tcp_mux''] de_bool d_true kvs;
     tc \<leftarrow> de_field [''tls_cert_path''] opt_path_deserialize d_tls_cert kvs;
     tke \<leftarrow> de_field [''tls_key_path''] opt_path_deserialize d_tls_key kvs;
     mp \<leftarrow> de_field [''max_pool_count''] (de_unsigned 32) d_max_pool kvs;
     hb \<leftarrow> de_field [''heartbeat_timeout''] (de_unsigned 64) d_heartbeat kvs;
     ap \<leftarrow> de_field [''allow_ports''] (de_opt de_str) None kvs;
     cs \<leftarrow> de_field [''crypto_salt''] de_str d_crypto_salt kvs;
     Some \<lparr> enabled = en, bind_addr = ba, server_port = sp, token = tk, tcp_mux = mx,
       tls_cert_path = tc, tls_key_path = tke, max_pool_count = mp, heartbeat_timeout = hb,
       allow_ports = ap, crypto_salt = cs \<rparr> }"

text \<open>A stored path is never the empty string: \<open>Some ""\<close> reads back as unconfigured.\<close>

definition paths_set :: "frps_config \<Rightarrow> bool" where
  "paths_set c \<longleftrightarrow> tls_cert_path c \<noteq> Some [] \<and> tls_key_path c \<noteq> Some []"

lemma opt_path_roundtrip [serde_simps]:
  "p \<noteq> Some [] \<Longrightarrow> opt_path_deserialize (opt_path_serialize p) = Some p"
  by (cases p) (auto simp: opt_path_serialize_def opt_path_deserialize_def)

lemma opt_path_serialize_not_null [simp]: "opt_path_serialize p \<noteq> JNull"
  by (simp add: opt_path_serialize_def)

text \<open>The only value a save and a load do not keep is a path set to the empty string.\<close>

lemma frps_roundtrip:
  "wf_frps_config c \<Longrightarrow> paths_set c \<Longrightarrow> de_frps_config (JObj (prune_nulls (ser_frps_config c))) = Some c"
  by (cases "allow_ports c")
     (simp_all add: de_frps_config_def ser_frps_config_def prune_nulls_def de_field_def
        wf_frps_config_def paths_set_def serde_simps)

section \<open>The allow list\<close>

definition part_allows :: "string \<Rightarrow> nat \<Rightarrow> bool" where
  "part_allows part0 port =
     (let part = trim part0 in
      case split_once CHR ''-'' part of
        Some (lo, hi) \<Rightarrow>
          (case (parse_unsigned 16 (trim lo), parse_unsigned 16 (trim hi)) of
             (Some l, Some h) \<Rightarrow> l \<le> port \<and> port \<le> h
           | _ \<Rightarrow> False)
      | None \<Rightarrow> (case parse_unsigned 16 part of Some p \<Rightarrow> p = port | None \<Rightarrow> False))"

fun any_part :: "string list \<Rightarrow> nat \<Rightarrow> bool" where
  "any_part [] port = False"
| "any_part (part # parts) port = (if part_allows part port then True else any_part parts port)"

definition port_allowed :: "frps_config \<Rightarrow> nat \<Rightarrow> bool" where
  "port_allowed c port =
     (case allow_ports c of
        None \<Rightarrow> True
      | Some spec \<Rightarrow> if trim spec = [] then True else any_part (split_on CHR '','' spec) port)"

text \<open>An allow list as a list of ranges, and its textual form.\<close>

datatype port_item = Port nat | Span nat nat

fun item_text :: "port_item \<Rightarrow> string" where
  "item_text (Port p) = dec_string p"
| "item_text (Span l h) = dec_string l @ CHR ''-'' # dec_string h"

fun item_has :: "port_item \<Rightarrow> nat \<Rightarrow> bool" where
  "item_has (Port p) port = (p = port)"
| "item_has (Span l h) port = (l \<le> port \<and> port \<le> h)"

fun item_u16 :: "port_item \<Rightarrow> bool" where
  "item_u16 (Port p) = (p < 2 ^ 16)"
| "item_u16 (Span l h) = (l < 2 ^ 16 \<and> h < 2 ^ 16)"

lemma any_part_iff: "any_part ps port \<longleftrightarrow> (\<exists>p \<in> set ps. part_allows p port)"
  by (induction ps) auto

lemma trim_dec_string [simp]: "trim (dec_string n) = dec_string n"
  by (rule trim_id) (auto dest: dec_string_digit is_digit_neq)

lemma dec_string_no [simp]:
  "CHR ''-'' \<notin> set (dec_string n)" "CHR '','' \<notin> set (dec_string n)"
  by (auto dest: dec_string_digit is_digit_neq)

lemma item_text_no_comma: "CHR '','' \<notin> set (item_text i)"
  by (cases i) auto

lemma item_text_no_ws: "c \<in> set (item_text i) \<Longrightarrow> \<not> is_ws c"
proof (cases i)
  case (Span l h)
  moreover have "\<not> is_ws CHR ''-''" by (simp add: is_ws_def)
  ultimately show "c \<in> set (item_text i) \<Longrightarrow> ?thesis"
    by (auto dest: dec_string_digit is_digit_neq(7))
qed (auto dest: dec_string_digit is_digit_neq(7))

lemma trim_item_text [simp]: "trim (item_text i) = item_text i"
  by (rule trim_id) (rule item_text_no_ws)

lemma part_allows_item: "item_u16 i \<Longrightarrow> part_allows (item_text i) port = item_has i port"
proof (cases i)
  case (Port p)
  moreover have "split_once CHR ''-'' (dec_string p) = None" by (simp add: split_once_None_iff)
  ultimately show "item_u16 i \<Longrightarrow> ?thesis"
    using trim_item_text [of i] by (simp add: part_allows_def)
next
  case (Span l h)
  then show "item_u16 i \<Longrightarrow> ?thesis"
    using trim_item_text [of i] by (simp add: part_allows_def string_simps)
qed

lemma items_text_not_blank:
  assumes "is \<noteq> []"
  shows "trim (join '','' (map item_text is)) \<noteq> []"
proof -
  have "\<not> is_ws c" if "c \<in> set (join '','' (map item_text is))" for c
    using set_join [OF that] by (auto dest: item_text_no_ws simp: is_ws_def)
  then have "trim (join '','' (map item_text is)) = join '','' (map item_text is)"
    by (rule trim_id)
  moreover have "item_text (hd is) \<noteq> []" by (cases "hd is") auto
  ultimately show ?thesis
    using assms join_not_Nil [of "item_text (hd is)" "map item_text is" "'',''"] by simp
qed

section \<open>Properties\<close>

text \<open>An allow list written as comma-separated ports and port ranges admits exactly the
  ports its items contain. No configured list, or a blank one, admits every port.\<close>

lemma port_allowed_items:
  assumes "is \<noteq> []" "list_all item_u16 is"
  shows "port_allowed (c\<lparr>allow_ports := Some (join '','' (map item_text is))\<rparr>) port
           \<longleftrightarrow> (\<exists>i \<in> set is. item_has i port)"
proof -
  have "split_on CHR '','' (join '','' (map item_text is)) = map item_text is"
    using assms(1) by (intro split_on_join) (auto simp: item_text_no_comma)
  then show ?thesis
    using assms items_text_not_blank [OF assms(1)]
    by (auto simp: port_allowed_def any_part_iff part_allows_item list_all_iff)
qed

lemma port_allowed_items_example:
  "port_allowed (default_frps_config\<lparr>allow_ports :=
      Some (join '','' (map item_text [Span 6000 6100, Port 7000]))\<rparr>) 6050
     \<longleftrightarrow> (\<exists>i \<in> set [Span 6000 6100, Port 7000]. item_has i 6050)"
  by (rule port_allowed_items) simp_all

end
