(* ===== verification/Net.thy ===== *)
theory Net
  imports Prelude
begin

text \<open>
  IP addresses as the sources use them from the Rust standard library: reading an address
  with \<open>str::parse::<IpAddr>\<close>, printing it, and the tests \<open>is_ipv4\<close>, \<open>is_loopback\<close> and
  \<open>is_unspecified\<close>. The reader follows the library's recursive descent over the text,
  embedded IPv4 tails and the double colon included.
\<close>

section \<open>Addresses\<close>

datatype ip_addr = V4 bytes | V6 bytes

fun ip_octets :: "ip_addr \<Rightarrow> bytes" where
  "ip_octets (V4 os) = os"
| "ip_octets (V6 os) = os"

fun ip_ok :: "ip_addr \<Rightarrow> bool" where
  "ip_ok (V4 os) = (length os = 4)"
| "ip_ok (V6 os) = (length os = 16)"

fun is_ipv4 :: "ip_addr \<Rightarrow> bool" where
  "is_ipv4 (V4 _) = True"
| "is_ipv4 (V6 _) = False"

fun is_loopback :: "ip_addr \<Rightarrow> bool" where
  "is_loopback (V4 os) = (take 1 os = [127])"
| "is_loopback (V6 os) = (os = replicate 15 0 @ [1])"

definition is_unspecified :: "ip_addr \<Rightarrow> bool" where
  "is_unspecified ip = list_all (\<lambda>b. b = 0) (ip_octets ip)"

section \<open>Reading\<close>

definition hex_value :: "char \<Rightarrow> nat option" where
  "hex_value c =
     (let n = (of_char c :: nat) in
      if 48 \<le> n \<and> n \<le> 57 then Some (n - 48)
      else if 97 \<le> n \<and> n \<le> 102 then Some (n - 87)
      else if 65 \<le> n \<and> n \<le> 70 then Some (n - 55)
      else None)"

definition to_digit :: "nat \<Rightarrow> char \<Rightarrow> nat option" where
  "to_digit radix c = (case hex_value c of Some d \<Rightarrow> if d < radix then Some d else None | None \<Rightarrow> None)"

definition read_number :: "nat \<Rightarrow> nat \<Rightarrow> bool \<Rightarrow> string \<Rightarrow> (nat \<times> string) option" where
  "read_number radix max_digits allow_zero_prefix s =
     (let ds = takeWhile (\<lambda>c. to_digit radix c \<noteq> None) s;
          v = foldl (\<lambda>a c. a * radix + the (to_digit radix c)) 0 ds
      in if ds = [] \<or> length ds > max_digits then None
         else if \<not> allow_zero_prefix \<and> hd ds = CHR ''0'' \<and> length ds > 1 then None
         else Some (v, drop (length ds) s))"

definition read_separator ::
  "char \<Rightarrow> nat \<Rightarrow> (string \<Rightarrow> ('a \<times> string) option) \<Rightarrow> string \<Rightarrow> ('a \<times> string) option" where
  "read_separator sep i inner s =
     (if i > 0 then (case s of c # cs \<Rightarrow> if c = sep then inner cs else None | [] \<Rightarrow> None) else inner s)"

definition read_octet :: "string \<Rightarrow> (nat \<times> string) option" where
  "read_octet s =
     (case read_number 10 3 False s of Some (v, r) \<Rightarrow> if v < 256 then Some (v, r) else None | None \<Rightarrow> None)"

text \<open>The next \<open>n\<close> octets, the first of them at position \<open>i\<close> of the address.\<close>

fun read_octets :: "nat \<Rightarrow> nat \<Rightarrow> string \<Rightarrow> (bytes \<times> string) option" where
  "read_octets 0 i s = Some ([], s)"
| "read_octets (Suc n) i s =
     (case read_separator CHR ''.'' i read_octet s of
        None \<Rightarrow> None
      | Some (v, r) \<Rightarrow>
          (case read_octets n (Suc i) r of None \<Rightarrow> None | Some (vs, r') \<Rightarrow> Some (of_nat v # vs, r')))"

definition read_ipv4_addr :: "string \<Rightarrow> (bytes \<times> string) option" where
  "read_ipv4_addr s = read_octets 4 0 s"

text \<open>Up to \<open>n\<close> groups of an IPv6 address, as their bytes, and whether the last two of them
  were written as an IPv4 address.\<close>

fun read_groups :: "nat \<Rightarrow> nat \<Rightarrow> string \<Rightarrow> bytes \<times> bool \<times> string" where
  "read_groups 0 i s = ([], False, s)"
| "read_groups (Suc n) i s =
     (case (if n > 0 then read_separator CHR '':'' i read_ipv4_addr s else None) of
        Some (v4, r) \<Rightarrow> (v4, True, r)
      | None \<Rightarrow>
          (case read_separator CHR '':'' i (read_number 16 4 True) s of
             None \<Rightarrow> ([], False, s)
           | Some (g, r) \<Rightarrow>
               (case read_groups n (Suc i) r of
                  (gs, is_v4, r') \<Rightarrow> (be_encode 2 g @ gs, is_v4, r'))))"

definition read_ipv6_addr :: "string \<Rightarrow> (bytes \<times> string) option" where
  "read_ipv6_addr s =
     (case read_groups 8 0 s of
        (head, head_v4, r) \<Rightarrow>
          if length head = 16 then Some (head, r)
          else if head_v4 then None
          else
            (case strip_prefix ''::'' r of
               None \<Rightarrow> None
             | Some r' \<Rightarrow>
                 (case read_groups (7 - length head div 2) 0 r' of
                    (tail, _, r'') \<Rightarrow> Some (head @ replicate (16 - length head - length tail) 0 @ tail, r''))))"

definition parse_ip :: "string \<Rightarrow> ip_addr option" where
  "parse_ip s =
     (case read_ipv4_addr s of
        Some (os, r) \<Rightarrow> if r = [] then Some (V4 os) else None
      | None \<Rightarrow>
          (case read_ipv6_addr s of
             Some (os, r) \<Rightarrow> if r = [] then Some (V6 os) else None
           | None \<Rightarrow> None))"

text \<open>A socket address: an IPv4 address or an IPv6 address in brackets, with an optional scope
  number, and a port.\<close>

definition read_below :: "nat \<Rightarrow> string \<Rightarrow> (nat \<times> string) option" where
  "read_below limit s =
     (case read_number 10 (length s) True s of
        Some (v, r) \<Rightarrow> if v < limit then Some (v, r) else None
      | None \<Rightarrow> None)"

definition read_colon_port :: "string \<Rightarrow> nat option" where
  "read_colon_port s =
     (case s of
        c # r \<Rightarrow> if c = CHR '':'' then (case read_below (2 ^ 16) r of Some (p, []) \<Rightarrow> Some p | _ \<Rightarrow> None) else None
      | [] \<Rightarrow> None)"

definition read_scope :: "string \<Rightarrow> string option" where
  "read_scope s =
     (case s of
        c # r \<Rightarrow> if c = CHR ''%'' then map_option snd (read_below (2 ^ 32) r) else Some s
      | [] \<Rightarrow> Some s)"

definition parse_socket_addr :: "string \<Rightarrow> (ip_addr \<times> nat) option" where
  "parse_socket_addr s =
     (case read_ipv4_addr s of
        Some (os, r) \<Rightarrow> map_option (Pair (V4 os)) (read_colon_port r)
      | None \<Rightarrow>
          (case s of
             c # r0 \<Rightarrow>
               if c \<noteq> CHR ''['' then None
               else case read_ipv6_addr r0 of
                 None \<Rightarrow> None
               | Some (os, r1) \<Rightarrow>
                   (case read_scope r1 of
                      Some (d # r2) \<Rightarrow> if d = CHR '']'' then map_option (Pair (V6 os)) (read_colon_port r2) else None
                    | _ \<Rightarrow> None)
           | [] \<Rightarrow> None))"

section \<open>Printing\<close>

definition ipv4_text :: "bytes \<Rightarrow> string" where
  "ipv4_text os = join ''.'' (map (\<lambda>b. dec_string (unat b)) os)"

fun hex_string :: "nat \<Rightarrow> string" where
  "hex_string n =
     (let d = (\<lambda>k. if k < 10 then char_of (48 + k) else char_of (87 + k)) in
      if n < 16 then [d n] else hex_string (n div 16) @ [d (n mod 16)])"

declare hex_string.simps [simp del]

fun groups_of :: "bytes \<Rightarrow> nat list" where
  "groups_of (a # b # r) = be_decode [a, b] # groups_of r"
| "groups_of _ = []"

text \<open>The first of the longest runs of zero groups: where it starts and its length.\<close>

fun zero_run :: "nat list \<Rightarrow> nat \<Rightarrow> nat \<times> nat \<Rightarrow> nat \<times> nat \<Rightarrow> nat \<times> nat" where
  "zero_run [] i current longest = longest"
| "zero_run (g # gs) i (start, len) longest =
     (if g = 0 then
        (let cur = (if len = 0 then i else start, len + 1)
         in zero_run gs (i + 1) cur (if snd cur > snd longest then cur else longest))
      else zero_run gs (i + 1) (0, 0) longest)"

definition ipv6_text :: "bytes \<Rightarrow> string" where
  "ipv6_text os =
     (let gs = groups_of os; hex = (\<lambda>gs. join '':'' (map hex_string gs)) in
      if take 12 os = replicate 10 0 @ [255, 255] then ''::ffff:'' @ ipv4_text (drop 12 os)
      else
        (case zero_run gs 0 (0, 0) (0, 0) of
           (start, len) \<Rightarrow>
             if len > 1 then hex (take start gs) @ ''::'' @ hex (drop (start + len) gs)
             else hex gs))"

fun ip_text :: "ip_addr \<Rightarrow> string" where
  "ip_text (V4 os) = ipv4_text os"
| "ip_text (V6 os) = ipv6_text os"

section \<open>Printing and reading IPv4\<close>

lemma to_digit_dec: "to_digit 10 c = (if is_digit c then Some (digit_val c) else None)"
  by (auto simp: to_digit_def hex_value_def is_digit_def digit_val_def Let_def)

lemma dec_string_no_zero_prefix: "n > 0 \<Longrightarrow> hd (dec_string n) \<noteq> CHR ''0''"
proof (induction n rule: dec_string.induct)
  case (1 n)
  show ?case
  proof (cases "n < 10")
    case True
    have "of_char (digit_char n) = (48 + n :: nat)" using True by (simp add: of_char_digit_char)
    moreover have "of_char CHR ''0'' = (48 :: nat)" by simp
    ultimately have "digit_char n \<noteq> CHR ''0''" using "1.prems" by (metis add_cancel_left_right less_numeral_extra(3))
    with True show ?thesis by (simp add: dec_string.simps)
  next
    case False
    then show ?thesis using 1 by (subst dec_string.simps) (simp add: hd_append)
  qed
qed

lemma length_dec_string_le: "n < 1000 \<Longrightarrow> length (dec_string n) \<le> 3"
  by (subst dec_string.simps, subst dec_string.simps, subst dec_string.simps) auto

lemma takeWhile_dec_string:
  "rest = [] \<or> \<not> is_digit (hd rest) \<Longrightarrow> takeWhile is_digit (dec_string n @ rest) = dec_string n"
proof -
  assume "rest = [] \<or> \<not> is_digit (hd rest)"
  then have "takeWhile is_digit rest = []" by (cases rest) auto
  then show ?thesis by (subst takeWhile_append2) (auto dest: dec_string_digit)
qed

lemma foldl_dec_digits:
  "list_all is_digit s \<Longrightarrow> foldl (\<lambda>a c. a * 10 + the (to_digit 10 c)) a s = foldl (\<lambda>a c. a * 10 + digit_val c) a s"
  by (induction s arbitrary: a) (auto simp: to_digit_dec)

lemma read_octet_dec_string:
  assumes "n < 256" "rest = [] \<or> \<not> is_digit (hd rest)"
  shows "read_octet (dec_string n @ rest) = Some (n, rest)"
proof -
  have digits: "takeWhile (\<lambda>c. to_digit 10 c \<noteq> None) (dec_string n @ rest) = dec_string n"
    using assms(2) takeWhile_dec_string [of rest n] by (simp add: to_digit_dec)
  have val_n: "foldl (\<lambda>a c. a * 10 + the (to_digit 10 c)) 0 (dec_string n) = n"
    using foldl_dec_digits [of "dec_string n" 0] dec_value_dec_string [of n] by (simp add: dec_value_def)
  have "n = 0 \<Longrightarrow> length (dec_string n) = 1" by (simp add: dec_string.simps)
  moreover have "length (dec_string n) \<le> 3" using assms(1) by (intro length_dec_string_le) simp
  ultimately show ?thesis
    using assms dec_string_no_zero_prefix [of n] val_n
    unfolding read_octet_def read_number_def digits by (cases "n = 0") (simp_all add: Let_def)
qed

lemma parse_ip_v4_text: "parse_ip (ipv4_text [a, b, c, d]) = Some (V4 [a, b, c, d])"
proof -
  have dot: "\<not> is_digit CHR ''.''" by (simp add: is_digit_def)
  have "read_ipv4_addr (ipv4_text [a, b, c, d]) = Some ([a, b, c, d], [])"
    using read_octet_dec_string [OF byte_bound, of "[]" d]
    by (simp add: read_ipv4_addr_def ipv4_text_def numeral_eq_Suc read_separator_def
        read_octet_dec_string [OF byte_bound] dot)
  then show ?thesis by (simp add: parse_ip_def)
qed

end
