(* ===== verification/FrpcConfig.thy ===== *)
theory FrpcConfig
  imports Serde Net
begin

text \<open>
  Configuration of the frp client (\<open>remgr-frps/src/client.rs\<close>, its first part): the
  published proxies with their one-line syntax, the upstream settings with their serde
  defaults, and the validation the console and the client run before anything is dialled.
\<close>

section \<open>Text helpers\<close>

definition ascii_lower :: "char \<Rightarrow> char" where
  "ascii_lower c = (let n = (of_char c :: nat) in if 65 \<le> n \<and> n \<le> 90 then char_of (n + 32) else c)"

definition to_ascii_lowercase :: "string \<Rightarrow> string" where
  "to_ascii_lowercase s = map ascii_lower s"

definition eq_ignore_ascii_case :: "string \<Rightarrow> string \<Rightarrow> bool" where
  "eq_ignore_ascii_case a b \<longleftrightarrow> to_ascii_lowercase a = to_ascii_lowercase b"

text \<open>\<open>split\<close> on a predicate with the empty parts filtered out.\<close>

function tokens :: "(char \<Rightarrow> bool) \<Rightarrow> string \<Rightarrow> string list" where
  "tokens sep s =
     (let r = dropWhile sep s in
      if r = [] then [] else takeWhile (\<lambda>c. \<not> sep c) r # tokens sep (dropWhile (\<lambda>c. \<not> sep c) r))"
  by pat_completeness auto
termination
proof (relation "measure (\<lambda>(sep, s). length s)")
  fix sep :: "char \<Rightarrow> bool" and s r :: string
  assume r: "r = dropWhile sep s" and "r \<noteq> []"
  then have "\<not> sep (hd r)" using hd_dropWhile [of sep s] by metis
  with \<open>r \<noteq> []\<close> have "length (dropWhile (\<lambda>c. \<not> sep c) r) < length r"
    by (cases r) (auto simp: length_dropWhile_le less_Suc_eq_le)
  also have "length r \<le> length s" using r by (simp add: length_dropWhile_le)
  finally show "((sep, dropWhile (\<lambda>c. \<not> sep c) r), sep, s) \<in> measure (\<lambda>(sep, s). length s)" by simp
qed simp

declare tokens.simps [simp del]

definition host_port :: "string \<Rightarrow> nat \<Rightarrow> string" where
  "host_port host0 port =
     (let host = trim host0 in
      if CHR '':'' \<in> set host \<and> \<not> starts_with ''['' host
      then ''['' @ host @ '']:'' @ dec_string port
      else host @ '':'' @ dec_string port)"

section \<open>One published proxy\<close>

record frpc_proxy_config =
  pc_name :: string
  pc_type :: string
  pc_local_ip :: string
  pc_local_port :: nat
  pc_remote_port :: nat

definition d_proxy_type :: string where "d_proxy_type = ''tcp''"
definition d_local_ip :: string where "d_local_ip = ''127.0.0.1''"

definition local_addr :: "frpc_proxy_config \<Rightarrow> string" where
  "local_addr p = host_port (pc_local_ip p) (pc_local_port p)"

datatype line_error =
    EmptyDefinition
  | PortOutOfRange string int
  | UnexpectedField string string
  | TooManyPorts string nat
  | TooFewPorts string nat

definition line_sep :: "char \<Rightarrow> bool" where
  "line_sep c \<longleftrightarrow> is_ws c \<or> c = CHR '',''"

text \<open>The loop over the fields behind the name.\<close>

fun parse_fields ::
  "string list \<Rightarrow> frpc_proxy_config \<Rightarrow> nat list \<Rightarrow> bool \<Rightarrow> line_error + frpc_proxy_config \<times> nat list" where
  "parse_fields [] p ports ip_seen = Ok (p, ports)"
| "parse_fields (tok # toks) p ports ip_seen =
     (if eq_ignore_ascii_case tok ''tcp'' \<or> eq_ignore_ascii_case tok ''udp''
      then parse_fields toks (p\<lparr>pc_type := to_ascii_lowercase tok\<rparr>) ports ip_seen
      else case parse_unsigned 16 tok of
        Some n \<Rightarrow> parse_fields toks p (ports @ [n]) ip_seen
      | None \<Rightarrow>
          (case parse_signed 64 tok of
             Some n \<Rightarrow> Err (PortOutOfRange (pc_name p) n)
           | None \<Rightarrow>
               if \<not> ip_seen then parse_fields toks (p\<lparr>pc_local_ip := tok\<rparr>) ports True
               else Err (UnexpectedField (pc_name p) tok)))"

definition parse_line :: "string \<Rightarrow> line_error + frpc_proxy_config" where
  "parse_line s =
     (case tokens line_sep s of
        [] \<Rightarrow> Err EmptyDefinition
      | nm # rest \<Rightarrow>
          bind_result
            (parse_fields rest \<lparr> pc_name = nm, pc_type = d_proxy_type, pc_local_ip = d_local_ip,
               pc_local_port = 0, pc_remote_port = 0 \<rparr> [] False)
            (\<lambda>(p, ports).
               if length ports > 2 then Err (TooManyPorts (pc_name p) (length ports))
               else if length ports < 2 then Err (TooFewPorts (pc_name p) (length ports))
               else Ok (p\<lparr>pc_local_port := ports ! 0, pc_remote_port := ports ! 1\<rparr>)))"

text \<open>Serialisation as a table; reading accepts a table or a line.\<close>

definition proxy_keys :: "string list" where
  "proxy_keys = [''name'', ''type'', ''local_ip'', ''local_port'', ''remote_port'']"

definition ser_frpc_proxy :: "frpc_proxy_config \<Rightarrow> json" where
  "ser_frpc_proxy p = JObj
     [(''name'', JStr (pc_name p)), (''type'', JStr (pc_type p)), (''local_ip'', JStr (pc_local_ip p)),
      (''local_port'', JInt (int (pc_local_port p))), (''remote_port'', JInt (int (pc_remote_port p)))]"

definition de_proxy_fields :: "json \<Rightarrow> frpc_proxy_config option" where
  "de_proxy_fields j = do {
     kvs \<leftarrow> struct_fields proxy_keys j;
     nm \<leftarrow> de_field [''name''] de_str [] kvs;
     ty \<leftarrow> de_field [''type''] de_str d_proxy_type kvs;
     li \<leftarrow> de_field [''local_ip''] de_str d_local_ip kvs;
     lp \<leftarrow> de_field [''local_port''] (de_unsigned 16) 0 kvs;
     rp \<leftarrow> de_field [''remote_port''] (de_unsigned 16) 0 kvs;
     Some \<lparr> pc_name = nm, pc_type = ty, pc_local_ip = li, pc_local_port = lp, pc_remote_port = rp \<rparr> }"

definition de_frpc_proxy :: "json \<Rightarrow> frpc_proxy_config option" where
  "de_frpc_proxy j =
     (case j of
        JStr s \<Rightarrow> (case parse_line s of Inr p \<Rightarrow> Some p | Inl _ \<Rightarrow> None)
      | _ \<Rightarrow> de_proxy_fields j)"

section \<open>The client's settings\<close>

record frpc_config =
  fc_enabled :: bool
  fc_server_addr :: string
  fc_server_port :: nat
  fc_token :: string
  fc_tls :: bool
  fc_trusted_ca_file :: "string option"
  fc_server_name :: string
  fc_tcp_mux :: bool
  fc_connect_timeout :: nat
  fc_pool_count :: nat
  fc_proxies :: "frpc_proxy_config list"

definition MAX_POOL_COUNT :: nat where "MAX_POOL_COUNT = 1000"
definition d_server_port :: nat where "d_server_port = 7000"
definition d_true :: bool where "d_true = True"
definition d_connect_timeout :: nat where "d_connect_timeout = 10"
definition d_pool_count :: nat where "d_pool_count = 5"

lemmas frpc_defaults = d_proxy_type_def d_local_ip_def d_server_port_def d_true_def
  d_connect_timeout_def d_pool_count_def MAX_POOL_COUNT_def

definition default_frpc_config :: frpc_config where
  "default_frpc_config = \<lparr>
     fc_enabled = False, fc_server_addr = [], fc_server_port = d_server_port, fc_token = [],
     fc_tls = False, fc_trusted_ca_file = None, fc_server_name = [], fc_tcp_mux = True,
     fc_connect_timeout = d_connect_timeout, fc_pool_count = d_pool_count, fc_proxies = [] \<rparr>"

definition frpc_keys :: "string list" where
  "frpc_keys = [''enabled'', ''server_addr'', ''server_port'', ''token'', ''tls'', ''trusted_ca_file'',
     ''server_name'', ''tcp_mux'', ''connect_timeout'', ''pool_count'', ''proxies'']"

definition ser_frpc_config :: "frpc_config \<Rightarrow> (string \<times> json) list" where
  "ser_frpc_config c =
     [(''enabled'', JBool (fc_enabled c)),
      (''server_addr'', JStr (fc_server_addr c)),
      (''server_port'', JInt (int (fc_server_port c))),
      (''token'', JStr (fc_token c)),
      (''tls'', JBool (fc_tls c)),
      (''trusted_ca_file'', (case fc_trusted_ca_file c of None \<Rightarrow> JNull | Some s \<Rightarrow> JStr s)),
      (''server_name'', JStr (fc_server_name c)),
      (''tcp_mux'', JBool (fc_tcp_mux c)),
      (''connect_timeout'', JInt (int (fc_connect_timeout c))),
      (''pool_count'', JInt (int (fc_pool_count c))),
      (''proxies'', JArr (map ser_frpc_proxy (fc_proxies c)))]"

fun de_list :: "(json \<Rightarrow> 'a option) \<Rightarrow> json \<Rightarrow> 'a list option" where
  "de_list rd (JArr xs) = traverse rd xs"
| "de_list rd _ = None"

definition de_frpc_config :: "json \<Rightarrow> frpc_config option" where
  "de_frpc_config j = do {
     kvs \<leftarrow> struct_fields frpc_keys j;
     en \<leftarrow> de_field [''enabled''] de_bool False kvs;
     sa \<leftarrow> de_field [''server_addr''] de_str [] kvs;
     sp \<leftarrow> de_field [''server_port''] (de_unsigned 16) d_server_port kvs;
     tk \<leftarrow> de_field [''token''] de_str [] kvs;
     tl \<leftarrow> de_field [''tls''] de_bool False kvs;
     ca \<leftarrow> de_field [''trusted_ca_file''] (de_opt de_str) None kvs;
     sn \<leftarrow> de_field [''server_name''] de_str [] kvs;
     mx \<leftarrow> de_field [''tcp_mux''] de_bool d_true kvs;
     ct \<leftarrow> de_field [''connect_timeout''] (de_unsigned 64) d_connect_timeout kvs;
     pc \<leftarrow> de_field [''pool_count''] (de_unsigned 32) d_pool_count kvs;
     ps \<leftarrow> de_field [''proxies''] (de_list de_frpc_proxy) [] kvs;
     Some \<lparr> fc_enabled = en, fc_server_addr = sa, fc_server_port = sp, fc_token = tk, fc_tls = tl,
       fc_trusted_ca_file = ca, fc_server_name = sn, fc_tcp_mux = mx, fc_connect_timeout = ct,
       fc_pool_count = pc, fc_proxies = ps \<rparr> }"

definition wf_proxy :: "frpc_proxy_config \<Rightarrow> bool" where
  "wf_proxy p \<longleftrightarrow> pc_local_port p < 2 ^ 16 \<and> pc_remote_port p < 2 ^ 16"

definition wf_frpc_config :: "frpc_config \<Rightarrow> bool" where
  "wf_frpc_config c \<longleftrightarrow> fc_server_port c < 2 ^ 16 \<and> fc_connect_timeout c < 2 ^ 64 \<and>
     fc_pool_count c < 2 ^ 32 \<and> list_all wf_proxy (fc_proxies c)"

section \<open>Validation\<close>

definition trim_brackets :: "string \<Rightarrow> string" where
  "trim_brackets h = rev (dropWhile (\<lambda>c. c = CHR '']'') (rev (dropWhile (\<lambda>c. c = CHR ''['') h)))"

definition loopback :: "string \<Rightarrow> bool" where
  "loopback h \<longleftrightarrow> eq_ignore_ascii_case h ''localhost'' \<or>
     (case parse_ip (trim_brackets h) of Some ip \<Rightarrow> is_loopback ip | None \<Rightarrow> False)"

definition same_host :: "string \<Rightarrow> string \<Rightarrow> bool" where
  "same_host a0 b0 =
     (let a = trim a0; b = trim b0 in
      if eq_ignore_ascii_case a b then True else loopback a \<and> loopback b)"

datatype frpc_error =
    NoServerAddr
  | ZeroServerPort
  | ZeroConnectTimeout
  | PoolOutOfRange nat
  | NoName nat
  | DuplicateName string
  | BadType string string
  | NoLocalIp string
  | NoLocalPort string
  | NoRemotePort string
  | LoopsToControl string string
  | LoopsToItself string string

text \<open>The checks on one proxy, given the names before it.\<close>

definition check_proxy :: "frpc_config \<Rightarrow> nat \<Rightarrow> string list \<Rightarrow> frpc_proxy_config \<Rightarrow> frpc_error option" where
  "check_proxy c i seen p =
     (if trim (pc_name p) = [] then Some (NoName (i + 1))
      else if pc_name p \<in> set seen then Some (DuplicateName (pc_name p))
      else if pc_type p \<noteq> ''tcp'' \<and> pc_type p \<noteq> ''udp'' then Some (BadType (pc_name p) (pc_type p))
      else if trim (pc_local_ip p) = [] then Some (NoLocalIp (pc_name p))
      else if pc_local_port p = 0 then Some (NoLocalPort (pc_name p))
      else if pc_remote_port p = 0 then Some (NoRemotePort (pc_name p))
      else if same_host (pc_local_ip p) (fc_server_addr c) \<and> pc_local_port p = fc_server_port c
      then Some (LoopsToControl (pc_name p) (host_port (pc_local_ip p) (pc_local_port p)))
      else if same_host (pc_local_ip p) (fc_server_addr c) \<and> pc_local_port p = pc_remote_port p
      then Some (LoopsToItself (pc_name p) (host_port (pc_local_ip p) (pc_local_port p)))
      else None)"

fun check_proxies :: "frpc_config \<Rightarrow> nat \<Rightarrow> string list \<Rightarrow> frpc_proxy_config list \<Rightarrow> frpc_error + unit" where
  "check_proxies c i seen [] = Ok ()"
| "check_proxies c i seen (p # ps) =
     (case check_proxy c i seen p of
        Some e \<Rightarrow> Err e
      | None \<Rightarrow> check_proxies c (i + 1) (seen @ [pc_name p]) ps)"

definition frpc_validate :: "frpc_config \<Rightarrow> frpc_error + unit" where
  "frpc_validate c =
     (if trim (fc_server_addr c) = [] then Err NoServerAddr
      else if fc_server_port c = 0 then Err ZeroServerPort
      else if fc_connect_timeout c = 0 then Err ZeroConnectTimeout
      else if fc_pool_count c > MAX_POOL_COUNT then Err (PoolOutOfRange (fc_pool_count c))
      else check_proxies c 0 [] (fc_proxies c))"

section \<open>Lemmas\<close>

lemma tokens_all_sep [string_simps]: "list_all sep s \<Longrightarrow> tokens sep s = []"
  by (subst tokens.simps) (simp add: dropWhile_eq_Nil_conv list_all_iff)

lemma tokens_skip: "list_all sep d \<Longrightarrow> tokens sep (d @ s) = tokens sep s"
  by (subst (1 2) tokens.simps) (simp add: dropWhile_append2 list_all_iff Let_def)

lemma tokens_word:
  assumes "w \<noteq> []" "list_all (\<lambda>c. \<not> sep c) w" "rest = [] \<or> sep (hd rest)"
  shows "tokens sep (w @ rest) = w # tokens sep rest"
proof -
  have "dropWhile sep (w @ rest) = w @ rest" using assms(1,2) by (cases w) auto
  moreover have "takeWhile (\<lambda>c. \<not> sep c) (w @ rest) = w" "dropWhile (\<lambda>c. \<not> sep c) (w @ rest) = rest"
    using assms(2,3) by (cases rest; simp add: list_all_iff takeWhile_append2 dropWhile_append2)+
  ultimately show ?thesis using assms(1) by (subst tokens.simps) simp
qed

lemma tokens_join:
  assumes "d \<noteq> []" "list_all sep d" "list_all (\<lambda>w. w \<noteq> [] \<and> list_all (\<lambda>c. \<not> sep c) w) ws"
  shows "tokens sep (join d ws) = ws"
  using assms(3)
proof (induction ws rule: induct_list012)
  case 1
  then show ?case by (simp add: tokens_all_sep)
next
  case (2 w)
  then show ?case using tokens_word [of w sep "[]"] by (simp add: tokens_all_sep)
next
  case (3 w v ws)
  have "sep (hd (d @ join d (v # ws)))" using assms(1,2) by (cases d) auto
  then have "tokens sep (w @ d @ join d (v # ws)) = w # tokens sep (d @ join d (v # ws))"
    using "3.prems" by (intro tokens_word) simp_all
  then show ?case using 3 assms(2) by (simp add: tokens_skip)
qed

text \<open>A proxy as the line an operator would write for it.\<close>

definition line_of :: "string \<Rightarrow> frpc_proxy_config \<Rightarrow> string" where
  "line_of d p = join d [pc_name p, pc_type p, pc_local_ip p, dec_string (pc_local_port p),
     dec_string (pc_remote_port p)]"

definition is_word :: "string \<Rightarrow> bool" where
  "is_word w \<longleftrightarrow> w \<noteq> [] \<and> list_all (\<lambda>c. \<not> line_sep c) w"

text \<open>A host that the line syntax reads as one: not a number and not a proxy type.\<close>

definition is_host_word :: "string \<Rightarrow> bool" where
  "is_host_word w \<longleftrightarrow> is_word w \<and> parse_unsigned 16 w = None \<and> parse_signed 64 w = None \<and>
     \<not> eq_ignore_ascii_case w ''tcp'' \<and> \<not> eq_ignore_ascii_case w ''udp''"

lemma digit_not_sep: "is_digit c \<Longrightarrow> \<not> line_sep c"
  by (auto simp: line_sep_def dest: is_digit_neq)

lemma is_word_dec_string [simp]: "is_word (dec_string n)"
  by (auto simp: is_word_def list_all_iff dest: dec_string_digit digit_not_sep)

lemma dec_string_not_type:
  "\<not> eq_ignore_ascii_case (dec_string n) ''tcp''" "\<not> eq_ignore_ascii_case (dec_string n) ''udp''"
proof -
  have "hd (to_ascii_lowercase (dec_string n)) = hd (dec_string n)"
    using dec_string_digit [of "hd (dec_string n)" n]
    by (simp add: to_ascii_lowercase_def hd_map ascii_lower_def is_digit_def Let_def)
  then have "is_digit (hd (to_ascii_lowercase (dec_string n)))"
    using dec_string_digit [of "hd (dec_string n)" n] by simp
  moreover have "to_ascii_lowercase ''tcp'' = ''tcp''" "to_ascii_lowercase ''udp'' = ''udp''"
    by (simp_all add: to_ascii_lowercase_def ascii_lower_def)
  ultimately show "\<not> eq_ignore_ascii_case (dec_string n) ''tcp''" "\<not> eq_ignore_ascii_case (dec_string n) ''udp''"
    by (auto simp: eq_ignore_ascii_case_def is_digit_def)
qed

lemma type_word: "t = ''tcp'' \<or> t = ''udp'' \<Longrightarrow> is_word t \<and> to_ascii_lowercase t = t"
  by (auto simp: is_word_def line_sep_def is_ws_def to_ascii_lowercase_def ascii_lower_def)

lemma check_proxies_ok:
  "check_proxies c i seen ps = Inr () \<longleftrightarrow>
     (\<forall>j < length ps. check_proxy c (i + j) (seen @ map pc_name (take j ps)) (ps ! j) = None)"
proof (induction ps arbitrary: i seen)
  case (Cons p ps)
  show ?case
    by (simp add: Cons All_less_Suc2 split: option.splits)
qed simp

text \<open>What validation promises of one proxy, apart from its name being new.\<close>

definition proxy_valid :: "frpc_config \<Rightarrow> frpc_proxy_config \<Rightarrow> bool" where
  "proxy_valid c p \<longleftrightarrow> trim (pc_name p) \<noteq> [] \<and> pc_type p \<in> {''tcp'', ''udp''} \<and> trim (pc_local_ip p) \<noteq> [] \<and>
     pc_local_port p \<noteq> 0 \<and> pc_remote_port p \<noteq> 0 \<and>
     (same_host (pc_local_ip p) (fc_server_addr c) \<longrightarrow>
        pc_local_port p \<noteq> fc_server_port c \<and> pc_local_port p \<noteq> pc_remote_port p)"

lemma check_proxy_None:
  "check_proxy c i seen p = None \<longleftrightarrow> pc_name p \<notin> set seen \<and> proxy_valid c p"
  by (auto simp: check_proxy_def proxy_valid_def)

lemma distinct_by_prefix: "distinct xs \<longleftrightarrow> (\<forall>j < length xs. xs ! j \<notin> set (take j xs))"
proof (induction xs rule: rev_induct)
  case (snoc x xs)
  then show ?case by (auto simp: nth_append less_Suc_eq)
qed simp

section \<open>Properties\<close>

text \<open>A proxy written as one line, its fields separated by spaces, tabs or commas in any
  mixture, is read back exactly, for every name without separators, every host that is not
  a number and every pair of ports.\<close>

lemma proxy_line_roundtrip:
  assumes "d \<noteq> []" "list_all line_sep d" "is_word (pc_name p)" "pc_type p \<in> {''tcp'', ''udp''}"
    and "is_host_word (pc_local_ip p)" "wf_proxy p"
  shows "parse_line (line_of d p) = Ok p"
proof -
  have "tokens line_sep (line_of d p) =
      [pc_name p, pc_type p, pc_local_ip p, dec_string (pc_local_port p), dec_string (pc_remote_port p)]"
    unfolding line_of_def using assms type_word [of "pc_type p"] is_word_dec_string
    by (intro tokens_join) (auto simp: is_word_def is_host_word_def)
  moreover have "eq_ignore_ascii_case (pc_type p) ''tcp'' \<or> eq_ignore_ascii_case (pc_type p) ''udp''"
    using assms(4) by (auto simp: eq_ignore_ascii_case_def)
  ultimately show ?thesis
    using assms(4-6) type_word [of "pc_type p"]
    by (simp add: parse_line_def is_host_word_def wf_proxy_def dec_string_not_type)
qed

lemma proxy_line_roundtrip_example:
  "parse_line (line_of '', '' \<lparr> pc_name = ''web'', pc_type = ''udp'', pc_local_ip = ''::1'',
      pc_local_port = 8080, pc_remote_port = 65535 \<rparr>)
   = Ok \<lparr> pc_name = ''web'', pc_type = ''udp'', pc_local_ip = ''::1'', pc_local_port = 8080, pc_remote_port = 65535 \<rparr>"
  by (rule proxy_line_roundtrip)
     (simp_all add: line_sep_def is_ws_def is_word_def is_host_word_def parse_unsigned_def parse_signed_def
        is_digit_def eq_ignore_ascii_case_def to_ascii_lowercase_def ascii_lower_def wf_proxy_def)

text \<open>Validation accepts a client configuration exactly when the upstream has an address,
  a port and a timeout, the pool is within bounds, proxy names are distinct, and every proxy
  has a supported type, an address, non-zero ports and does not forward to the upstream's
  control port or to its own published port.\<close>

lemma frpc_validate_iff:
  "frpc_validate c = Ok () \<longleftrightarrow>
     trim (fc_server_addr c) \<noteq> [] \<and> fc_server_port c \<noteq> 0 \<and> fc_connect_timeout c \<noteq> 0 \<and>
     fc_pool_count c \<le> MAX_POOL_COUNT \<and>
     distinct (map pc_name (fc_proxies c)) \<and> list_all (proxy_valid c) (fc_proxies c)"
proof -
  have "check_proxies c 0 [] (fc_proxies c) = Ok () \<longleftrightarrow>
      distinct (map pc_name (fc_proxies c)) \<and> list_all (proxy_valid c) (fc_proxies c)"
    by (auto simp: check_proxies_ok check_proxy_None distinct_by_prefix take_map list_all_length)
  then show ?thesis by (auto simp: frpc_validate_def)
qed

end
