(* ===== verification/RemgrConfig.thy ===== *)
theory RemgrConfig
  imports FrpsConfig FrpcConfig
begin

text \<open>
  The manager's configuration (\<open>remgr/src/config.rs\<close>) and the directory layout it takes its
  default paths from (\<open>remgr/src/platform.rs\<close>): the sections with their defaults, loading
  and the crash-safe save through a temporary file. The TOML text codec is a parameter;
  between it and the records lie the structured values of \<open>Serde\<close>.
\<close>

section \<open>Directory layout\<close>

text \<open>What the layout depends on: the target, and the two environment variables.\<close>

record host =
  h_windows :: bool
  h_remgr_home :: "string option"
  h_program_data :: "string option"

definition is_path_sep :: "host \<Rightarrow> char \<Rightarrow> bool" where
  "is_path_sep h c \<longleftrightarrow> c = CHR ''/'' \<or> (h_windows h \<and> c = CHR 0x5C)"

text \<open>\<open>PathBuf::join\<close> with a relative path, which is all the layout joins.\<close>

definition path_join :: "host \<Rightarrow> string \<Rightarrow> string \<Rightarrow> string" where
  "path_join h a b =
     (if a = [] \<or> is_path_sep h (last a) then a @ b
      else a @ [if h_windows h then CHR 0x5C else CHR ''/''] @ b)"

definition home :: "host \<Rightarrow> string option" where
  "home h = (case h_remgr_home h of Some p \<Rightarrow> if p = [] then None else Some p | None \<Rightarrow> None)"

definition under_home :: "host \<Rightarrow> string \<Rightarrow> string option" where
  "under_home h sub = map_option (\<lambda>r. path_join h r sub) (home h)"

definition program_data :: "host \<Rightarrow> string" where
  "program_data h = (case h_program_data h of Some p \<Rightarrow> p | None \<Rightarrow> ''C:'' @ [CHR 0x5C] @ ''ProgramData'')"

definition system_root :: "host \<Rightarrow> string" where
  "system_root h = (if h_windows h then path_join h (program_data h) ''ReMgr'' else ''/etc/remgr'')"

definition config_dir :: "host \<Rightarrow> string" where
  "config_dir h = (case home h of Some r \<Rightarrow> r | None \<Rightarrow> system_root h)"

definition data_dir :: "host \<Rightarrow> string" where
  "data_dir h = (case under_home h ''lib'' of Some p \<Rightarrow> p
     | None \<Rightarrow> if h_windows h then path_join h (system_root h) ''lib'' else ''/var/lib/remgr'')"

definition run_dir :: "host \<Rightarrow> string" where
  "run_dir h = (case under_home h ''run'' of Some p \<Rightarrow> p
     | None \<Rightarrow> if h_windows h then path_join h (system_root h) ''run'' else ''/var/run/remgr'')"

definition log_dir :: "host \<Rightarrow> string" where
  "log_dir h = (case under_home h ''log'' of Some p \<Rightarrow> p
     | None \<Rightarrow> if h_windows h then path_join h (system_root h) ''log'' else ''/var/log/remgr'')"

definition cert_dir :: "host \<Rightarrow> string" where
  "cert_dir h = (case under_home h ''ssl'' of Some p \<Rightarrow> p | None \<Rightarrow> path_join h (config_dir h) ''ssl'')"

definition default_config_path :: "host \<Rightarrow> string" where
  "default_config_path h = path_join h (config_dir h) ''config.toml''"

definition log_file :: "host \<Rightarrow> string" where
  "log_file h = path_join h (log_dir h) ''remgr.log''"

definition log_file_previous :: "host \<Rightarrow> string" where
  "log_file_previous h = path_join h (log_dir h) ''remgr.log.1''"

definition required_dirs :: "host \<Rightarrow> string list" where
  "required_dirs h = [config_dir h, cert_dir h, data_dir h, log_dir h, run_dir h]"

definition layout_summary :: "host \<Rightarrow> string" where
  "layout_summary h = ''config='' @ config_dir h @ '' certs='' @ cert_dir h @ '' data='' @ data_dir h @
     '' logs='' @ log_dir h @ '' runtime='' @ run_dir h"

definition path_in_cert_dir :: "host \<Rightarrow> string \<Rightarrow> string" where
  "path_in_cert_dir h nm = path_join h (cert_dir h) nm"

section \<open>Sections and defaults\<close>

record console_config =
  cc_port :: nat
  cc_username :: string
  cc_password_hash :: string
  cc_tls :: bool
  cc_tls_cert :: string
  cc_tls_key :: string
  cc_session_ttl :: nat

record easytier_config =
  ec_enabled :: bool
  ec_config_server_port :: nat
  ec_api_addr :: string
  ec_api_port :: nat
  ec_db_path :: string
  ec_node_enabled :: bool
  ec_node_name :: string
  ec_network_name :: string
  ec_network_secret :: string
  ec_virtual_ipv4 :: string
  ec_listeners :: "string list"

record stun_turn_config =
  sc_enabled :: bool
  sc_bind_addr :: string
  sc_stun_port :: nat
  sc_turn_enabled :: bool
  sc_tls_port :: nat
  sc_domain :: string
  sc_relay_min_port :: nat
  sc_relay_max_port :: nat
  sc_external_ip :: string
  sc_users :: "string list"
  sc_realm :: string
  sc_cert_path :: string
  sc_key_path :: string

record rustdesk_config =
  rc_enabled :: bool
  rc_key :: string
  rc_relay_port :: nat
  rc_hbbs_port :: nat

record config =
  cf_console :: console_config
  cf_easytier :: easytier_config
  cf_stun_turn :: stun_turn_config
  cf_rustdesk :: rustdesk_config
  cf_frps :: frps_config
  cf_frpc :: frpc_config
  cf_config_path :: string

definition default_console :: "host \<Rightarrow> console_config" where
  "default_console h = \<lparr>
     cc_port = 9443, cc_username = ''admin'', cc_password_hash = [], cc_tls = False,
     cc_tls_cert = path_in_cert_dir h ''console_cert.pem'', cc_tls_key = path_in_cert_dir h ''console_key.pem'',
     cc_session_ttl = 7 * 24 * 3600 \<rparr>"

definition default_easytier :: "host \<Rightarrow> easytier_config" where
  "default_easytier h = \<lparr>
     ec_enabled = True, ec_config_server_port = 22020, ec_api_addr = ''127.0.0.1'', ec_api_port = 11211,
     ec_db_path = path_join h (data_dir h) ''easytier/et.db'', ec_node_enabled = True,
     ec_node_name = ''remgr-node'', ec_network_name = [], ec_network_secret = [], ec_virtual_ipv4 = [],
     ec_listeners = [''tcp://0.0.0.0:11010'', ''udp://0.0.0.0:11010'', ''wg://0.0.0.0:11011'',
       ''ws://0.0.0.0:11011/'', ''wss://0.0.0.0:11012/'', ''faketcp://0.0.0.0:11013''] \<rparr>"

definition default_stun_turn :: "host \<Rightarrow> stun_turn_config" where
  "default_stun_turn h = \<lparr>
     sc_enabled = True, sc_bind_addr = ''0.0.0.0'', sc_stun_port = 3478, sc_turn_enabled = True,
     sc_tls_port = 5349, sc_domain = [], sc_relay_min_port = 49152, sc_relay_max_port = 65535,
     sc_external_ip = [], sc_users = [], sc_realm = ''remgr'',
     sc_cert_path = path_in_cert_dir h ''turn_cert.pem'', sc_key_path = path_in_cert_dir h ''turn_key.pem'' \<rparr>"

definition default_rustdesk :: rustdesk_config where
  "default_rustdesk = \<lparr> rc_enabled = True, rc_key = [], rc_relay_port = 21117, rc_hbbs_port = 21116 \<rparr>"

definition default_config :: "host \<Rightarrow> config" where
  "default_config h = \<lparr>
     cf_console = default_console h, cf_easytier = default_easytier h, cf_stun_turn = default_stun_turn h,
     cf_rustdesk = default_rustdesk, cf_frps = default_frps_config, cf_frpc = default_frpc_config,
     cf_config_path = [] \<rparr>"

definition replace_default :: "string \<Rightarrow> string \<Rightarrow> string option \<Rightarrow> string option" where
  "replace_default unix mine slot = (if slot = Some unix then Some mine else slot)"

definition apply_platform_defaults :: "host \<Rightarrow> config \<Rightarrow> config" where
  "apply_platform_defaults h c = c\<lparr>cf_frps := (cf_frps c)\<lparr>
     tls_cert_path := replace_default ''/etc/remgr/ssl/frps_cert.pem''
       (path_in_cert_dir h ''frps_cert.pem'') (tls_cert_path (cf_frps c)),
     tls_key_path := replace_default ''/etc/remgr/ssl/frps_key.pem''
       (path_in_cert_dir h ''frps_key.pem'') (tls_key_path (cf_frps c))\<rparr>\<rparr>"

section \<open>Writing and reading the sections\<close>

definition ser_console :: "console_config \<Rightarrow> (string \<times> json) list" where
  "ser_console c =
     [(''port'', JInt (int (cc_port c))), (''username'', JStr (cc_username c)),
      (''password_hash'', JStr (cc_password_hash c)), (''tls'', JBool (cc_tls c)),
      (''tls_cert'', JStr (cc_tls_cert c)), (''tls_key'', JStr (cc_tls_key c)),
      (''session_ttl'', JInt (int (cc_session_ttl c)))]"

definition de_console :: "host \<Rightarrow> json \<Rightarrow> console_config option" where
  "de_console h j = (let d = default_console h in do {
     kvs \<leftarrow> struct_fields (map fst (ser_console d)) j;
     po \<leftarrow> de_field [''port''] (de_unsigned 16) (cc_port d) kvs;
     us \<leftarrow> de_field [''username''] de_str (cc_username d) kvs;
     ph \<leftarrow> de_field [''password_hash''] de_str (cc_password_hash d) kvs;
     tl \<leftarrow> de_field [''tls''] de_bool (cc_tls d) kvs;
     tc \<leftarrow> de_field [''tls_cert''] de_str (cc_tls_cert d) kvs;
     tk \<leftarrow> de_field [''tls_key''] de_str (cc_tls_key d) kvs;
     st \<leftarrow> de_field [''session_ttl''] (de_unsigned 64) (cc_session_ttl d) kvs;
     Some \<lparr> cc_port = po, cc_username = us, cc_password_hash = ph, cc_tls = tl, cc_tls_cert = tc,
       cc_tls_key = tk, cc_session_ttl = st \<rparr> })"

definition ser_easytier :: "easytier_config \<Rightarrow> (string \<times> json) list" where
  "ser_easytier c =
     [(''enabled'', JBool (ec_enabled c)), (''config_server_port'', JInt (int (ec_config_server_port c))),
      (''api_addr'', JStr (ec_api_addr c)), (''api_port'', JInt (int (ec_api_port c))),
      (''db_path'', JStr (ec_db_path c)), (''node_enabled'', JBool (ec_node_enabled c)),
      (''node_name'', JStr (ec_node_name c)), (''network_name'', JStr (ec_network_name c)),
      (''network_secret'', JStr (ec_network_secret c)), (''virtual_ipv4'', JStr (ec_virtual_ipv4 c)),
      (''listeners'', json_of_strs (ec_listeners c))]"

definition de_easytier :: "host \<Rightarrow> json \<Rightarrow> easytier_config option" where
  "de_easytier h j = (let d = default_easytier h in do {
     kvs \<leftarrow> struct_fields (map fst (ser_easytier d)) j;
     en \<leftarrow> de_field [''enabled''] de_bool (ec_enabled d) kvs;
     cp \<leftarrow> de_field [''config_server_port''] (de_unsigned 16) (ec_config_server_port d) kvs;
     aa \<leftarrow> de_field [''api_addr''] de_str (ec_api_addr d) kvs;
     ap \<leftarrow> de_field [''api_port''] (de_unsigned 16) (ec_api_port d) kvs;
     db \<leftarrow> de_field [''db_path''] de_str (ec_db_path d) kvs;
     ne \<leftarrow> de_field [''node_enabled''] de_bool (ec_node_enabled d) kvs;
     nn \<leftarrow> de_field [''node_name''] de_str (ec_node_name d) kvs;
     nw \<leftarrow> de_field [''network_name''] de_str (ec_network_name d) kvs;
     ns \<leftarrow> de_field [''network_secret''] de_str (ec_network_secret d) kvs;
     vi \<leftarrow> de_field [''virtual_ipv4''] de_str (ec_virtual_ipv4 d) kvs;
     ls \<leftarrow> de_field [''listeners''] de_strs (ec_listeners d) kvs;
     Some \<lparr> ec_enabled = en, ec_config_server_port = cp, ec_api_addr = aa, ec_api_port = ap,
       ec_db_path = db, ec_node_enabled = ne, ec_node_name = nn, ec_network_name = nw,
       ec_network_secret = ns, ec_virtual_ipv4 = vi, ec_listeners = ls \<rparr> })"

definition ser_stun_turn :: "stun_turn_config \<Rightarrow> (string \<times> json) list" where
  "ser_stun_turn c =
     [(''enabled'', JBool (sc_enabled c)), (''bind_addr'', JStr (sc_bind_addr c)),
      (''stun_port'', JInt (int (sc_stun_port c))), (''turn_enabled'', JBool (sc_turn_enabled c)),
      (''tls_port'', JInt (int (sc_tls_port c))), (''domain'', JStr (sc_domain c)),
      (''relay_min_port'', JInt (int (sc_relay_min_port c))),
      (''relay_max_port'', JInt (int (sc_relay_max_port c))),
      (''external_ip'', JStr (sc_external_ip c)), (''users'', json_of_strs (sc_users c)),
      (''realm'', JStr (sc_realm c)), (''cert_path'', JStr (sc_cert_path c)),
      (''key_path'', JStr (sc_key_path c))]"

definition de_stun_turn :: "host \<Rightarrow> json \<Rightarrow> stun_turn_config option" where
  "de_stun_turn h j = (let d = default_stun_turn h in do {
     kvs \<leftarrow> struct_fields (map fst (ser_stun_turn d)) j;
     en \<leftarrow> de_field [''enabled''] de_bool (sc_enabled d) kvs;
     ba \<leftarrow> de_field [''bind_addr''] de_str (sc_bind_addr d) kvs;
     sp \<leftarrow> de_field [''stun_port''] (de_unsigned 16) (sc_stun_port d) kvs;
     te \<leftarrow> de_field [''turn_enabled''] de_bool (sc_turn_enabled d) kvs;
     tp \<leftarrow> de_field [''tls_port''] (de_unsigned 16) (sc_tls_port d) kvs;
     dm \<leftarrow> de_field [''domain''] de_str (sc_domain d) kvs;
     mn \<leftarrow> de_field [''relay_min_port''] (de_unsigned 16) (sc_relay_min_port d) kvs;
     mx \<leftarrow> de_field [''relay_max_port''] (de_unsigned 16) (sc_relay_max_port d) kvs;
     ei \<leftarrow> de_field [''external_ip''] de_str (sc_external_ip d) kvs;
     us \<leftarrow> de_field [''users''] de_strs (sc_users d) kvs;
     re \<leftarrow> de_field [''realm''] de_str (sc_realm d) kvs;
     cp \<leftarrow> de_field [''cert_path''] de_str (sc_cert_path d) kvs;
     kp \<leftarrow> de_field [''key_path''] de_str (sc_key_path d) kvs;
     Some \<lparr> sc_enabled = en, sc_bind_addr = ba, sc_stun_port = sp, sc_turn_enabled = te,
       sc_tls_port = tp, sc_domain = dm, sc_relay_min_port = mn, sc_relay_max_port = mx,
       sc_external_ip = ei, sc_users = us, sc_realm = re, sc_cert_path = cp, sc_key_path = kp \<rparr> })"

definition ser_rustdesk :: "rustdesk_config \<Rightarrow> (string \<times> json) list" where
  "ser_rustdesk c =
     [(''enabled'', JBool (rc_enabled c)), (''key'', JStr (rc_key c)),
      (''relay_port'', JInt (int (rc_relay_port c))), (''hbbs_port'', JInt (int (rc_hbbs_port c)))]"

definition de_rustdesk :: "json \<Rightarrow> rustdesk_config option" where
  "de_rustdesk j = (let d = default_rustdesk in do {
     kvs \<leftarrow> struct_fields (map fst (ser_rustdesk d)) j;
     en \<leftarrow> de_field [''enabled''] de_bool (rc_enabled d) kvs;
     ky \<leftarrow> de_field [''key''] de_str (rc_key d) kvs;
     rp \<leftarrow> de_field [''relay_port''] (de_unsigned 16) (rc_relay_port d) kvs;
     hp \<leftarrow> de_field [''hbbs_port''] (de_unsigned 16) (rc_hbbs_port d) kvs;
     Some \<lparr> rc_enabled = en, rc_key = ky, rc_relay_port = rp, rc_hbbs_port = hp \<rparr> })"

text \<open>The value \<open>save\<close> hands to the TOML writer, and the reader of \<open>load\<close>.\<close>

definition config_wire :: "config \<Rightarrow> json" where
  "config_wire c = JObj
     [(''console'', JObj (ser_console (cf_console c))), (''easytier'', JObj (ser_easytier (cf_easytier c))),
      (''stun_turn'', JObj (ser_stun_turn (cf_stun_turn c))), (''rustdesk'', JObj (ser_rustdesk (cf_rustdesk c))),
      (''frps'', JObj (prune_nulls (ser_frps_config (cf_frps c)))),
      (''frpc'', JObj (prune_nulls (ser_frpc_config (cf_frpc c))))]"

definition de_config :: "host \<Rightarrow> json \<Rightarrow> config option" where
  "de_config h j = do {
     kvs \<leftarrow> struct_fields [''console'', ''easytier'', ''stun_turn'', ''rustdesk'', ''frps'', ''frpc''] j;
     co \<leftarrow> de_field [''console''] (de_console h) (default_console h) kvs;
     et \<leftarrow> de_field [''easytier''] (de_easytier h) (default_easytier h) kvs;
     st \<leftarrow> de_field [''stun_turn''] (de_stun_turn h) (default_stun_turn h) kvs;
     rd \<leftarrow> de_field [''rustdesk''] de_rustdesk default_rustdesk kvs;
     fs \<leftarrow> de_field [''frps''] de_frps_config default_frps_config kvs;
     fc \<leftarrow> de_field [''frpc''] de_frpc_config default_frpc_config kvs;
     Some \<lparr> cf_console = co, cf_easytier = et, cf_stun_turn = st, cf_rustdesk = rd, cf_frps = fs,
       cf_frpc = fc, cf_config_path = [] \<rparr> }"

section \<open>Files\<close>

text \<open>A file's bytes, whether only its owner may read it, and whether it has reached the disk.\<close>

record file_entry =
  f_data :: string
  f_private :: bool
  f_synced :: bool

type_synonym files = "string \<rightharpoonup> file_entry"

datatype fs_op =
    CreateDirs string
  | OpenPrivate string
  | OpenPublic string
  | WriteAll string string
  | SyncAll string
  | Rename string string

text \<open>\<open>OpenOptions\<close> with \<open>create\<close>, \<open>truncate\<close> and \<open>mode\<close>: the mode is used for a new file only.\<close>

definition open_private :: "host \<Rightarrow> string \<Rightarrow> files \<Rightarrow> files" where
  "open_private h p fs =
     fs(p \<mapsto> (case fs p of
        None \<Rightarrow> \<lparr> f_data = [], f_private = \<not> h_windows h, f_synced = False \<rparr>
      | Some f \<Rightarrow> f\<lparr>f_data := [], f_synced := False\<rparr>))"

definition open_public :: "string \<Rightarrow> files \<Rightarrow> files" where
  "open_public p fs =
     fs(p \<mapsto> (case fs p of
        None \<Rightarrow> \<lparr> f_data = [], f_private = False, f_synced = False \<rparr>
      | Some f \<Rightarrow> f\<lparr>f_data := [], f_synced := False\<rparr>))"

definition append_file :: "string \<Rightarrow> string \<Rightarrow> files \<Rightarrow> files" where
  "append_file p s fs = (case fs p of None \<Rightarrow> fs
     | Some f \<Rightarrow> fs(p \<mapsto> f\<lparr>f_data := f_data f @ s, f_synced := False\<rparr>))"

fun exec_op :: "host \<Rightarrow> fs_op \<Rightarrow> files \<Rightarrow> files" where
  "exec_op h (CreateDirs d) fs = fs"
| "exec_op h (OpenPrivate p) fs = open_private h p fs"
| "exec_op h (OpenPublic p) fs = open_public p fs"
| "exec_op h (WriteAll p s) fs = append_file p s fs"
| "exec_op h (SyncAll p) fs = (case fs p of None \<Rightarrow> fs | Some f \<Rightarrow> fs(p \<mapsto> f\<lparr>f_synced := True\<rparr>))"
| "exec_op h (Rename p q) fs = (case fs p of None \<Rightarrow> fs | Some f \<Rightarrow> (fs(p := None))(q \<mapsto> f))"

text \<open>What an interrupted or failed operation leaves: a write may have stored a prefix.\<close>

fun partial_op :: "fs_op \<Rightarrow> nat \<Rightarrow> files \<Rightarrow> files" where
  "partial_op (WriteAll p s) n fs = append_file p (take n s) fs"
| "partial_op _ n fs = fs"

text \<open>Operations in order until one fails; \<open>fails i = Some n\<close> makes the \<open>i\<close>-th fail, a write
  after \<open>n\<close> bytes. A crash is the same, as nobody looks at the result.\<close>

fun run_ops :: "host \<Rightarrow> (nat \<Rightarrow> nat option) \<Rightarrow> nat \<Rightarrow> fs_op list \<Rightarrow> files \<Rightarrow> bool \<times> files" where
  "run_ops h fails i [] fs = (True, fs)"
| "run_ops h fails i (p # ps) fs =
     (case fails i of
        Some n \<Rightarrow> (False, partial_op p n fs)
      | None \<Rightarrow> run_ops h fails (i + 1) ps (exec_op h p fs))"

definition file_name :: "string \<Rightarrow> string" where
  "file_name p = (case rsplit_once CHR ''/'' p of Some (_, f) \<Rightarrow> f | None \<Rightarrow> p)"

definition parent :: "string \<Rightarrow> string" where
  "parent p = (case rsplit_once CHR ''/'' p of Some (d, _) \<Rightarrow> d | None \<Rightarrow> [])"

text \<open>\<open>Path::with_extension\<close>: a dot that starts the file name does not begin an extension.\<close>

definition with_extension :: "string \<Rightarrow> string \<Rightarrow> string" where
  "with_extension ext p =
     (let f = file_name p; dir = take (length p - length f) p;
          stem = (case rsplit_once CHR ''.'' f of Some (st, _) \<Rightarrow> if st = [] then f else st | None \<Rightarrow> f)
      in if f = [] then p else dir @ stem @ ''.'' @ ext)"

section \<open>Loading and saving\<close>

datatype config_error = TomlError | IoError

definition config_load ::
  "(string \<Rightarrow> json option) \<Rightarrow> host \<Rightarrow> files \<Rightarrow> string \<Rightarrow> config_error + config" where
  "config_load toml_from_str h fs path =
     bind_result
       (case fs path of
          None \<Rightarrow> Ok (default_config h)
        | Some f \<Rightarrow>
            (case Option.bind (toml_from_str (f_data f)) (de_config h) of
               None \<Rightarrow> Err TomlError
             | Some c \<Rightarrow> Ok c))
       (\<lambda>c. Ok ((apply_platform_defaults h c)\<lparr>cf_config_path := path\<rparr>))"

definition ensure_newline :: "string \<Rightarrow> string" where
  "ensure_newline s = (if s \<noteq> [] \<and> last s = CHR 0x0A then s else s @ [CHR 0x0A])"

definition save_ops :: "string \<Rightarrow> string \<Rightarrow> fs_op list" where
  "save_ops path out =
     (let tmp = with_extension ''toml.tmp'' path
      in [OpenPrivate tmp, WriteAll tmp out, SyncAll tmp, Rename tmp path])"

definition config_save ::
  "(json \<Rightarrow> string option) \<Rightarrow> host \<Rightarrow> (nat \<Rightarrow> nat option) \<Rightarrow> config \<Rightarrow> files \<Rightarrow> (config_error + unit) \<times> files" where
  "config_save toml_to_string h fails c fs =
     (case run_ops h fails 0 [CreateDirs (parent (cf_config_path c))] fs of
        (False, fs1) \<Rightarrow> (Err IoError, fs1)
      | (True, fs1) \<Rightarrow>
          (case toml_to_string (config_wire c) of
             None \<Rightarrow> (Err TomlError, fs1)
           | Some out \<Rightarrow>
               (case run_ops h fails 1 (save_ops (cf_config_path c) (ensure_newline out)) fs1 of
                  (False, fs2) \<Rightarrow> (Err IoError, fs2)
                | (True, fs2) \<Rightarrow> (Ok (), fs2))))"

section \<open>Lemmas\<close>

lemma rsplit_once_SomeD: "rsplit_once d s = Some (a, b) \<Longrightarrow> s = a @ d # b \<and> d \<notin> set b"
proof -
  assume "rsplit_once d s = Some (a, b)"
  then have "rev s = rev b @ d # rev a \<and> d \<notin> set (rev b)"
    by (auto simp: rsplit_once_def dest: split_once_SomeD)
  moreover from this have "s = rev (rev b @ d # rev a)" by (metis rev_rev_ident)
  then have "s = a @ d # b" by simp
  ultimately show ?thesis by simp
qed

lemma file_name_suffix: "\<exists>dir. p = dir @ file_name p"
  by (auto simp: file_name_def split: option.splits dest!: rsplit_once_SomeD)

lemma with_extension_differs:
  assumes "file_name p \<noteq> []"
  shows "with_extension ''toml.tmp'' p \<noteq> p"
proof -
  obtain dir where p: "p = dir @ file_name p" using file_name_suffix by blast
  then have dir: "take (length p - length (file_name p)) p = dir" by (metis append_eq_conv_conj length_append add_diff_cancel_right')
  have "stem @ ''.toml.tmp'' \<noteq> file_name p"
    if stem: "stem = (case rsplit_once CHR ''.'' (file_name p) of
        Some (st, _) \<Rightarrow> if st = [] then file_name p else st | None \<Rightarrow> file_name p)" for stem
  proof
    assume eq: "stem @ ''.toml.tmp'' = file_name p"
    show False
    proof (cases "rsplit_once CHR ''.'' (file_name p)")
      case (Some r)
      obtain a b where r: "r = (a, b)" by (cases r)
      have "file_name p = a @ CHR ''.'' # b" "CHR ''.'' \<notin> set b" using Some r by (auto dest: rsplit_once_SomeD)
      then show False using eq stem Some r by (auto split: if_splits)
    qed (use eq stem in auto)
  qed
  then have "with_extension ''toml.tmp'' p \<noteq> dir @ file_name p"
    using assms dir by (simp add: with_extension_def Let_def)
  then show ?thesis using p by metis
qed

text \<open>The values of the Rust field types, and a certificate path that is not the empty string.\<close>

definition wf_config :: "config \<Rightarrow> bool" where
  "wf_config c \<longleftrightarrow>
     cc_port (cf_console c) < 2 ^ 16 \<and> cc_session_ttl (cf_console c) < 2 ^ 64 \<and>
     ec_config_server_port (cf_easytier c) < 2 ^ 16 \<and> ec_api_port (cf_easytier c) < 2 ^ 16 \<and>
     sc_stun_port (cf_stun_turn c) < 2 ^ 16 \<and> sc_tls_port (cf_stun_turn c) < 2 ^ 16 \<and>
     sc_relay_min_port (cf_stun_turn c) < 2 ^ 16 \<and> sc_relay_max_port (cf_stun_turn c) < 2 ^ 16 \<and>
     rc_relay_port (cf_rustdesk c) < 2 ^ 16 \<and> rc_hbbs_port (cf_rustdesk c) < 2 ^ 16 \<and>
     wf_frps_config (cf_frps c) \<and> paths_set (cf_frps c) \<and> wf_frpc_config (cf_frpc c)"

lemma frpc_proxy_roundtrip: "wf_proxy p \<Longrightarrow> de_frpc_proxy (ser_frpc_proxy p) = Some p"
  by (simp add: de_frpc_proxy_def de_proxy_fields_def ser_frpc_proxy_def de_field_def wf_proxy_def)

lemma frpc_roundtrip:
  assumes "wf_frpc_config c"
  shows "de_frpc_config (JObj (prune_nulls (ser_frpc_config c))) = Some c"
proof -
  have "traverse de_frpc_proxy (map ser_frpc_proxy (fc_proxies c)) = Some (fc_proxies c)"
    using assms by (intro traverse_map frpc_proxy_roundtrip) (auto simp: wf_frpc_config_def list_all_iff)
  then show ?thesis
    using assms by (cases "fc_trusted_ca_file c")
      (simp_all add: de_frpc_config_def ser_frpc_config_def prune_nulls_def de_field_def wf_frpc_config_def)
qed

lemma console_roundtrip:
  "cc_port c < 2 ^ 16 \<Longrightarrow> cc_session_ttl c < 2 ^ 64 \<Longrightarrow> de_console h (JObj (ser_console c)) = Some c"
  by (simp add: de_console_def ser_console_def de_field_def Let_def)

lemma easytier_roundtrip:
  "ec_config_server_port c < 2 ^ 16 \<Longrightarrow> ec_api_port c < 2 ^ 16 \<Longrightarrow> de_easytier h (JObj (ser_easytier c)) = Some c"
  by (simp add: de_easytier_def ser_easytier_def de_field_def Let_def serde_simps)

lemma stun_turn_roundtrip:
  "sc_stun_port c < 2 ^ 16 \<Longrightarrow> sc_tls_port c < 2 ^ 16 \<Longrightarrow> sc_relay_min_port c < 2 ^ 16 \<Longrightarrow>
   sc_relay_max_port c < 2 ^ 16 \<Longrightarrow> de_stun_turn h (JObj (ser_stun_turn c)) = Some c"
  by (simp add: de_stun_turn_def ser_stun_turn_def de_field_def Let_def serde_simps)

lemma rustdesk_roundtrip:
  "rc_relay_port c < 2 ^ 16 \<Longrightarrow> rc_hbbs_port c < 2 ^ 16 \<Longrightarrow> de_rustdesk (JObj (ser_rustdesk c)) = Some c"
  by (simp add: de_rustdesk_def ser_rustdesk_def de_field_def Let_def)

lemmas section_roundtrips = frps_roundtrip frpc_roundtrip console_roundtrip easytier_roundtrip
  stun_turn_roundtrip rustdesk_roundtrip

lemma de_config_wire: "wf_config c \<Longrightarrow> de_config h (config_wire c) = Some (c\<lparr>cf_config_path := []\<rparr>)"
  unfolding wf_config_def config_wire_def de_config_def de_field_def
  by (simp add: section_roundtrips)

lemma save_ops_effect:
  assumes "file_name path \<noteq> []"
  shows "run_ops h fails i (save_ops path out) fs = (ok, fs') \<Longrightarrow>
    (if ok then (\<exists>f. fs' path = Some f \<and> f_data f = out \<and> f_synced f \<and>
            (f_private f \<longleftrightarrow> (case fs (with_extension ''toml.tmp'' path) of None \<Rightarrow> \<not> h_windows h | Some g \<Rightarrow> f_private g)))
     else fs' path = fs path) \<and>
    (\<forall>q. q \<noteq> path \<longrightarrow> q \<noteq> with_extension ''toml.tmp'' path \<longrightarrow> fs' q = fs q)"
  using with_extension_differs [OF assms]
  by (auto simp: save_ops_def Let_def open_private_def append_file_def split: option.splits if_splits)

lemma config_save_cases:
  assumes "config_save toml_to_string h fails c fs = (r, fs')"
  obtains
    (early) e where "r = Inl e" "fs' = fs"
  | (late) out e where "r = Inl e" "run_ops h fails 1 (save_ops (cf_config_path c) (ensure_newline out)) fs = (False, fs')"
  | (saved) out where "r = Inr ()" "toml_to_string (config_wire c) = Some out"
      "run_ops h fails 1 (save_ops (cf_config_path c) (ensure_newline out)) fs = (True, fs')"
  using assms unfolding config_save_def
  by (auto split: option.splits prod.splits bool.splits)

section \<open>Properties\<close>

text \<open>
  C5: whatever operation of a save fails, or the process dies in, the configuration file is
  either untouched (the save reports an error) or holds the complete new text, synced to disk
  (the save succeeds); no file but it and the temporary one changes. A new file is readable
  by its owner only, unless a temporary file with wider permissions was lying around.
\<close>

theorem config_save_atomic:
  assumes "file_name (cf_config_path c) \<noteq> []"
    and "config_save toml_to_string h fails c fs = (r, fs')"
  shows "(case r of
      Inl _ \<Rightarrow> fs' (cf_config_path c) = fs (cf_config_path c)
    | Inr _ \<Rightarrow> (\<exists>out f. toml_to_string (config_wire c) = Some out \<and> fs' (cf_config_path c) = Some f \<and>
        f_data f = ensure_newline out \<and> f_synced f \<and>
        (f_private f \<longleftrightarrow> (case fs (with_extension ''toml.tmp'' (cf_config_path c)) of
            None \<Rightarrow> \<not> h_windows h | Some g \<Rightarrow> f_private g))))
    \<and> (\<forall>q. q \<noteq> cf_config_path c \<longrightarrow> q \<noteq> with_extension ''toml.tmp'' (cf_config_path c) \<longrightarrow> fs' q = fs q)"
  using assms(2)
proof (cases rule: config_save_cases)
  case early
  then show ?thesis by simp
next
  case (late out e)
  then show ?thesis using save_ops_effect [OF assms(1) late(2)] by simp
next
  case (saved out)
  then show ?thesis using save_ops_effect [OF assms(1) saved(3)] by auto
qed

text \<open>
  C20: a configuration that was saved is loaded back unchanged, every section and every
  proxy of it, provided the TOML codec reads what it wrote; the certificate paths that still
  are the Unix defaults are the only ones a load may rewrite.
\<close>

theorem config_save_load:
  assumes "wf_config c" "apply_platform_defaults h c = c" "file_name (cf_config_path c) \<noteq> []"
    and "\<And>out. toml_to_string (config_wire c) = Some out \<Longrightarrow> toml_from_str (ensure_newline out) = Some (config_wire c)"
    and "config_save toml_to_string h fails c fs = (Ok (), fs')"
  shows "config_load toml_from_str h fs' (cf_config_path c) = Ok c"
proof -
  obtain out f where out: "toml_to_string (config_wire c) = Some out"
    and f: "fs' (cf_config_path c) = Some f" "f_data f = ensure_newline out"
    using config_save_cases [OF assms(5)] save_ops_effect [OF assms(3)]
    by (metis Inl_Inr_False)
  have "apply_platform_defaults h (c\<lparr>cf_config_path := []\<rparr>) = (apply_platform_defaults h c)\<lparr>cf_config_path := []\<rparr>"
    by (simp add: apply_platform_defaults_def)
  then show ?thesis
    using assms(1,2) assms(4) [OF out] f by (simp add: config_load_def de_config_wire)
qed

text \<open>A host with a home directory, and a codec that knows one text.\<close>

definition ex_host :: host where
  "ex_host = \<lparr> h_windows = False, h_remgr_home = None, h_program_data = None \<rparr>"

definition ex_config :: config where
  "ex_config = (default_config ex_host)\<lparr>cf_config_path := ''/etc/remgr/config.toml''\<rparr>"

lemma ex_config_facts:
  "file_name (cf_config_path ex_config) \<noteq> []" "wf_config ex_config"
  "apply_platform_defaults ex_host ex_config = ex_config"
  "config_save (\<lambda>_. Some ''x'') ex_host (\<lambda>_. None) ex_config Map.empty =
     (Ok (), [''/etc/remgr/config.toml'' \<mapsto>
        \<lparr> f_data = [CHR ''x'', CHR 0x0A], f_private = True, f_synced = True \<rparr>])"
     apply (simp add: ex_config_def file_name_def rsplit_once_def)
    apply (simp add: ex_config_def default_config_def wf_config_def default_console_def default_easytier_def
      default_stun_turn_def default_rustdesk_def default_frps_config_def default_frpc_config_def
      wf_frps_config_def paths_set_def wf_frpc_config_def frps_defaults frpc_defaults)
   apply (simp add: ex_config_def ex_host_def apply_platform_defaults_def default_config_def replace_default_def
      default_frps_config_def frps_defaults path_in_cert_dir_def cert_dir_def under_home_def home_def
      config_dir_def system_root_def path_join_def is_path_sep_def)
  apply (simp add: config_save_def save_ops_def ex_config_def ex_host_def with_extension_def file_name_def
      rsplit_once_def Let_def ensure_newline_def open_private_def append_file_def fun_eq_iff)
  done

theorem config_save_atomic_witness:
  "(\<exists>out f. Some ''x'' = Some out \<and> snd (config_save (\<lambda>_. Some ''x'') ex_host (\<lambda>_. None) ex_config Map.empty)
        (cf_config_path ex_config) = Some f \<and> f_data f = ensure_newline out \<and> f_synced f \<and> f_private f)"
  using config_save_atomic [OF ex_config_facts(1,4)]
  unfolding ex_config_facts(4) by (auto simp: ex_host_def split: if_splits)

theorem config_save_load_witness:
  "config_load (\<lambda>t. if t = [CHR ''x'', CHR 0x0A] then Some (config_wire ex_config) else None) ex_host
     (snd (config_save (\<lambda>_. Some ''x'') ex_host (\<lambda>_. None) ex_config Map.empty)) (cf_config_path ex_config)
   = Ok ex_config"
  unfolding ex_config_facts(4) snd_conv
  by (rule config_save_load [OF ex_config_facts(2,3,1) _ ex_config_facts(4)]) (simp add: ensure_newline_def)

end
