(* ===== verification/Stun.thy ===== *)
theory Stun
  imports RemgrConfig
begin

unbundle bit_operations_syntax

text \<open>
  The STUN responder and the wire side of the TURN service
  (\<open>remgr/src/modules/stun_turn.rs\<close>): the XOR-MAPPED-ADDRESS attribute, the walk over a
  request's attributes, the answer to a Binding request, credentials, the choice of relay
  ports and certificates, and the framing of TURN over TLS. The TURN server itself is a
  library the sources call; deriving long-term keys is a parameter.
\<close>

section \<open>Addresses and constants\<close>

type_synonym sock_addr = "ip_addr \<times> u16"

definition MAGIC_COOKIE :: u32 where "MAGIC_COOKIE = 0x2112A442"
definition BINDING_REQUEST :: nat where "BINDING_REQUEST = 0x0001"
definition BINDING_SUCCESS :: nat where "BINDING_SUCCESS = 0x0101"
definition ATTR_CHANGE_REQUEST :: nat where "ATTR_CHANGE_REQUEST = 0x0003"
definition ATTR_XOR_MAPPED_ADDRESS :: nat where "ATTR_XOR_MAPPED_ADDRESS = 0x0020"
definition ATTR_RESPONSE_PORT :: nat where "ATTR_RESPONSE_PORT = 0x0027"
definition ATTR_SOFTWARE :: nat where "ATTR_SOFTWARE = 0x8022"

lemmas stun_consts = MAGIC_COOKIE_def BINDING_REQUEST_def BINDING_SUCCESS_def ATTR_CHANGE_REQUEST_def
  ATTR_XOR_MAPPED_ADDRESS_def ATTR_RESPONSE_PORT_def ATTR_SOFTWARE_def

definition be16 :: "nat \<Rightarrow> bytes" where "be16 n = be_encode 2 n"
definition be32 :: "u32 \<Rightarrow> bytes" where "be32 w = be_encode 4 (unat w)"

text \<open>\<open>u16::from_be_bytes\<close> of two bytes of a packet.\<close>

definition u16_at :: "bytes \<Rightarrow> nat \<Rightarrow> nat" where
  "u16_at p i = be_decode [p ! i, p ! (i + 1)]"

text \<open>The padding to a multiple of four.\<close>

definition pad4 :: "nat \<Rightarrow> nat" where "pad4 n = (4 - n mod 4) mod 4"

section \<open>The responder\<close>

definition xor_mapped_address :: "sock_addr \<Rightarrow> bytes \<Rightarrow> bytes" where
  "xor_mapped_address src msk =
     (let xored_port = snd src XOR ucast (drop_bit 16 MAGIC_COOKIE);
          family = (if is_ipv4 (fst src) then 0x01 else 0x02)
      in [0x00, family] @ be16 (unat xored_port) @ map2 (XOR) (ip_octets (fst src)) msk)"

text \<open>The loop of \<open>asks_for_alternate_address\<close> from a position up to the end of the message.\<close>

function alternate_from :: "bytes \<Rightarrow> nat \<Rightarrow> nat \<Rightarrow> bool" where
  "alternate_from packet msg_end pos =
     (if pos + 4 \<le> msg_end then
        (let atype = u16_at packet pos;
             alen = u16_at packet (pos + 2);
             e = min (pos + 4 + alen) msg_end;
             body = take (e - (pos + 4)) (drop (pos + 4) packet)
         in if (atype = ATTR_CHANGE_REQUEST \<or> atype = ATTR_RESPONSE_PORT) \<and> list_ex (\<lambda>b. b \<noteq> 0) body
            then True
            else if pos + 4 + alen > msg_end then False
            else alternate_from packet msg_end (e + pad4 alen))
      else False)"
  by pat_completeness auto
termination
  by (relation "measure (\<lambda>(p, m, pos). m - pos)") (auto simp: min_def)

declare alternate_from.simps [simp del]

definition asks_for_alternate_address :: "bytes \<Rightarrow> nat \<Rightarrow> bool" where
  "asks_for_alternate_address packet body_len =
     alternate_from packet (min (20 + body_len) (length packet)) 20"

definition software :: bytes where
  "software = bytes_of ''ReMgr''"

definition binding_response :: "sock_addr \<Rightarrow> bytes \<Rightarrow> bytes" where
  "binding_response src tid =
     (let msk = be32 MAGIC_COOKIE @ tid;
          xor_val = xor_mapped_address src msk;
          software_padded = (length software + 3) div 4 * 4;
          attr_len = 4 + length xor_val + 4 + software_padded
      in be16 BINDING_SUCCESS @ be16 attr_len @ be32 MAGIC_COOKIE @ tid @
         be16 ATTR_XOR_MAPPED_ADDRESS @ be16 (length xor_val) @ xor_val @
         be16 ATTR_SOFTWARE @ be16 (length software) @ software @
         replicate (software_padded - length software) 0)"

text \<open>The datagram sent back to the source, if any.\<close>

definition process_stun_packet :: "bytes \<Rightarrow> sock_addr \<Rightarrow> bytes option" where
  "process_stun_packet packet src =
     (if length packet < 20 then None
      else if be_decode (take 4 (drop 4 packet)) \<noteq> unat MAGIC_COOKIE then None
      else
        (let body_len = u16_at packet 2 in
         if body_len mod 4 \<noteq> 0 \<or> body_len + 20 > length packet then None
         else if u16_at packet 0 \<noteq> BINDING_REQUEST then None
         else if asks_for_alternate_address packet body_len then None
         else Some (binding_response src (take 12 (drop 8 packet)))))"

section \<open>Configuration\<close>

definition strip_brackets :: "string \<Rightarrow> string" where
  "strip_brackets s =
     (case s of
        c # r \<Rightarrow> if c = CHR ''['' \<and> r \<noteq> [] \<and> last r = CHR '']'' then butlast r else s
      | [] \<Rightarrow> s)"

datatype bind_error = InvalidBind string

definition parse_bind :: "string \<Rightarrow> u16 \<Rightarrow> bind_error + sock_addr" where
  "parse_bind addr port =
     (case parse_ip (strip_brackets (trim addr)) of
        None \<Rightarrow> Err (InvalidBind addr)
      | Some ip \<Rightarrow> Ok (ip, port))"

definition relay_bind_string :: "string \<Rightarrow> string" where
  "relay_bind_string addr =
     (case parse_bind addr 0 of
        Inr (ip, _) \<Rightarrow> if \<not> is_ipv4 ip then ''['' @ ip_text ip @ '']'' else trim addr
      | Inl _ \<Rightarrow> trim addr)"

definition cred_entries :: "stun_turn_config \<Rightarrow> (string \<times> string) list" where
  "cred_entries cfg = filter (\<lambda>(user, _). user \<noteq> []) (List.map_filter (split_once CHR '':'') (sc_users cfg))"

definition cred_step ::
  "(string \<Rightarrow> string \<Rightarrow> string \<Rightarrow> bytes) \<Rightarrow> string \<Rightarrow> (string \<times> bytes) list \<Rightarrow> string \<Rightarrow> (string \<times> bytes) list" where
  "cred_step auth_key_of realm m u =
     (case split_once CHR '':'' u of
        Some (user, pass) \<Rightarrow> if user = [] then m else AList.update user (auth_key_of user realm pass) m
      | None \<Rightarrow> m)"

definition cred_map ::
  "(string \<Rightarrow> string \<Rightarrow> string \<Rightarrow> bytes) \<Rightarrow> stun_turn_config \<Rightarrow> (string \<times> bytes) list" where
  "cred_map auth_key_of cfg = foldl (cred_step auth_key_of (sc_realm cfg)) [] (sc_users cfg)"

definition auth_handle :: "(string \<times> bytes) list \<Rightarrow> string \<Rightarrow> bytes option" where
  "auth_handle creds username = map_of creds username"

datatype relay_choice = RelayRange nat nat | RelayEphemeral

definition relay_generator :: "nat \<Rightarrow> nat \<Rightarrow> relay_choice" where
  "relay_generator min_port max_port =
     (if min_port \<noteq> 0 \<and> max_port \<ge> min_port then RelayRange min_port max_port else RelayEphemeral)"

section \<open>TURN over TLS\<close>

definition frame_len :: "bytes \<Rightarrow> (nat \<times> bool) option" where
  "frame_len head =
     (let len = u16_at head 2; top = head ! 0 AND 0xC0 in
      if top = 0x00 then Some (20 + len, False)
      else if top = 0x40 then Some (4 + len + pad4 len, True)
      else None)"

datatype turn_error = TurnEof | ReservedFrame | ErrBufferShort | ClosedConn

definition recv_from :: "nat \<Rightarrow> bytes \<Rightarrow> turn_error + bytes \<times> bytes" where
  "recv_from buf_len s =
     (if length s < 4 then Err TurnEof
      else
        (let head = take 4 s in
         case frame_len head of
           None \<Rightarrow> Err ReservedFrame
         | Some (tot, is_channel) \<Rightarrow>
             if tot > buf_len then Err ErrBufferShort
             else if length s < tot then Err ClosedConn
             else (let n = (if is_channel then 4 + u16_at head 2 else tot)
                   in Ok (take n (take tot s), drop tot s))))"

definition send_to :: "bytes \<Rightarrow> bytes" where
  "send_to buf =
     buf @ (if length buf \<ge> 4 \<and> buf ! 0 AND 0xC0 = 0x40 then replicate (pad4 (length buf)) 0 else [])"

section \<open>Starting and stopping the service\<close>

text \<open>Which certificate TURN over TLS uses: existing files, a fresh self-signed pair at the
  default place, or a failure for a custom path that is missing.\<close>

datatype cert_choice = UsePair string string | GenerateFor string | CertMissing string string

definition resolve_turn_cert :: "(string \<Rightarrow> bool) \<Rightarrow> string \<times> string \<Rightarrow> stun_turn_config \<Rightarrow> cert_choice" where
  "resolve_turn_cert exists_file defaults cfg =
     (if exists_file (sc_cert_path cfg) \<and> exists_file (sc_key_path cfg)
      then UsePair (sc_cert_path cfg) (sc_key_path cfg)
      else if (sc_cert_path cfg, sc_key_path cfg) \<noteq> defaults
      then CertMissing (sc_cert_path cfg) (sc_key_path cfg)
      else GenerateFor (if sc_domain cfg = [] then ''localhost'' else sc_domain cfg))"

text \<open>What one attempt to bind finds outside the module.\<close>

record turn_env =
  te_local_ip :: "ip_addr option"
  te_udp_bind :: bool
  te_server :: bool
  te_exists :: "string \<Rightarrow> bool"
  te_default_cert :: "string \<times> string"
  te_generate :: bool
  te_acceptor :: bool
  te_tcp_bind :: bool

datatype turn_socket = UdpSock nat | TlsSock nat

datatype start_error =
    BadBind bind_error
  | BadExternalIp
  | UdpBindFailed
  | ServerFailed
  | TlsBindFailed
  | StunDisabled

definition relay_address :: "turn_env \<Rightarrow> stun_turn_config \<Rightarrow> start_error + ip_addr" where
  "relay_address env cfg =
     (if sc_external_ip cfg \<noteq> [] then
        (case parse_ip (sc_external_ip cfg) of Some ip \<Rightarrow> Ok ip | None \<Rightarrow> Err BadExternalIp)
      else case te_local_ip env of
        Some ip \<Rightarrow> Ok ip
      | None \<Rightarrow>
          (case parse_bind (sc_bind_addr cfg) 0 of
             Inr (ip, _) \<Rightarrow> Ok (if \<not> is_unspecified ip then ip else V4 [127, 0, 0, 1])
           | Inl _ \<Rightarrow> Ok (V4 [127, 0, 0, 1])))"

text \<open>The TLS acceptor of the configured certificate, if it can be had.\<close>

definition tls_acceptor :: "turn_env \<Rightarrow> stun_turn_config \<Rightarrow> bool" where
  "tls_acceptor env cfg =
     (case resolve_turn_cert (te_exists env) (te_default_cert env) cfg of
        UsePair _ _ \<Rightarrow> te_acceptor env
      | GenerateFor _ \<Rightarrow> te_generate env \<and> te_acceptor env
      | CertMissing _ _ \<Rightarrow> False)"

record turn_handles =
  th_relay_ip :: ip_addr
  th_creds :: "(string \<times> bytes) list"
  th_relay :: relay_choice
  th_tls_listening :: bool

text \<open>The sockets held by the process are a set; a port that is held cannot be bound again.\<close>

definition spawn_turn_relay ::
  "(string \<Rightarrow> string \<Rightarrow> string \<Rightarrow> bytes) \<Rightarrow> turn_env \<Rightarrow> stun_turn_config \<Rightarrow> turn_socket set
     \<Rightarrow> (start_error + turn_handles) \<times> turn_socket set" where
  "spawn_turn_relay auth_key_of env cfg held =
     (case parse_bind (sc_bind_addr cfg) (of_nat (sc_stun_port cfg)) of
        Inl e \<Rightarrow> (Err (BadBind e), held)
      | Inr udp_addr \<Rightarrow>
          (case relay_address env cfg of
             Inl e \<Rightarrow> (Err e, held)
           | Inr ip \<Rightarrow>
               (let udp = UdpSock (sc_stun_port cfg);
                    h = \<lparr> th_relay_ip = ip, th_creds = cred_map auth_key_of cfg,
                          th_relay = relay_generator (sc_relay_min_port cfg) (sc_relay_max_port cfg),
                          th_tls_listening = False \<rparr>
                in if \<not> te_udp_bind env \<or> udp \<in> held then (Err UdpBindFailed, held)
                   else if \<not> te_server env then (Err ServerFailed, held)
                   else if sc_tls_port cfg = 0 \<or> \<not> tls_acceptor env cfg then (Ok h, insert udp held)
                   else if \<not> te_tcp_bind env \<or> TlsSock (sc_tls_port cfg) \<in> held
                   then (Err TlsBindFailed, insert udp held - {udp})
                   else (Ok (h\<lparr>th_tls_listening := True\<rparr>),
                         insert (TlsSock (sc_tls_port cfg)) (insert udp held)))))"

text \<open>Retrying an attempt that failed, up to twelve times.\<close>

function start_turn_from ::
  "(string \<Rightarrow> string \<Rightarrow> string \<Rightarrow> bytes) \<Rightarrow> (nat \<Rightarrow> turn_env) \<Rightarrow> stun_turn_config \<Rightarrow> nat \<Rightarrow> turn_socket set
     \<Rightarrow> (start_error + turn_handles) \<times> turn_socket set \<times> nat" where
  "start_turn_from k envs cfg attempt held =
     (case spawn_turn_relay k (envs attempt) cfg held of
        (Inr v, held') \<Rightarrow> (Ok v, held', attempt)
      | (Inl e, held') \<Rightarrow>
          if attempt < 12 then start_turn_from k envs cfg (attempt + 1) held' else (Err e, held', attempt))"
  by pat_completeness auto
termination
  by (relation "measure (\<lambda>(k, envs, cfg, attempt, held). 13 - attempt)") auto

declare start_turn_from.simps [simp del]

record run_handle =
  rh_cancelled :: bool
  rh_finished :: "bool list"
  rh_turn :: "turn_handles option"
  rh_sockets :: "turn_socket set"

record stun_module =
  sm_run :: "run_handle option"
  sm_held :: "turn_socket set"

definition alive :: "run_handle \<Rightarrow> bool" where
  "alive h \<longleftrightarrow> \<not> rh_cancelled h \<and> list_all (\<lambda>f. \<not> f) (rh_finished h)"

definition stun_running :: "stun_module \<Rightarrow> bool" where
  "stun_running m = (case sm_run m of Some h \<Rightarrow> alive h | None \<Rightarrow> False)"

text \<open>Taking the handle, cancelling its token and waiting for its tasks, which drop their
  sockets as they end.\<close>

definition stun_stop :: "stun_module \<Rightarrow> stun_module" where
  "stun_stop m = (case sm_run m of
      None \<Rightarrow> m
    | Some h \<Rightarrow> m\<lparr>sm_run := None, sm_held := sm_held m - rh_sockets h\<rparr>)"

definition spawn_stun :: "turn_env \<Rightarrow> stun_turn_config \<Rightarrow> turn_socket set \<Rightarrow> (start_error + unit) \<times> turn_socket set" where
  "spawn_stun env cfg held =
     (case parse_bind (sc_bind_addr cfg) (of_nat (sc_stun_port cfg)) of
        Inl e \<Rightarrow> (Err (BadBind e), held)
      | Inr _ \<Rightarrow>
          if \<not> te_udp_bind env \<or> UdpSock (sc_stun_port cfg) \<in> held then (Err UdpBindFailed, held)
          else (Ok (), insert (UdpSock (sc_stun_port cfg)) held))"

definition stun_start ::
  "(string \<Rightarrow> string \<Rightarrow> string \<Rightarrow> bytes) \<Rightarrow> (nat \<Rightarrow> turn_env) \<Rightarrow> stun_turn_config \<Rightarrow> stun_module
     \<Rightarrow> (start_error + unit) \<times> stun_module" where
  "stun_start k envs cfg m0 =
     (if stun_running m0 then (Ok (), m0)
      else
        (let m = stun_stop m0; held = sm_held m in
         if \<not> sc_enabled cfg then (Err StunDisabled, m)
         else if sc_turn_enabled cfg then
           (case start_turn_from k envs cfg 0 held of
              (Inl e, held', _) \<Rightarrow> (Err e, m\<lparr>sm_held := held'\<rparr>)
            | (Inr h, held', _) \<Rightarrow>
                (Ok (), m\<lparr>sm_run := Some \<lparr> rh_cancelled = False,
                    rh_finished = replicate (if th_tls_listening h then 2 else 1) False,
                    rh_turn = Some h, rh_sockets = held' - held \<rparr>, sm_held := held'\<rparr>))
         else
           (case spawn_stun (envs 0) cfg held of
              (Inl e, held') \<Rightarrow> (Err e, m\<lparr>sm_held := held'\<rparr>)
            | (Inr _, held') \<Rightarrow>
                (Ok (), m\<lparr>sm_run := Some \<lparr> rh_cancelled = False, rh_finished = [False],
                    rh_turn = None, rh_sockets = held' - held \<rparr>, sm_held := held'\<rparr>))))"

section \<open>Attributes of a message\<close>

text \<open>The attributes of a message body as RFC 5389 lays them out: type, length, value, padding
  to four bytes; a last attribute that is cut off keeps the bytes there are.\<close>

function stun_attrs :: "bytes \<Rightarrow> (nat \<times> bytes) list" where
  "stun_attrs bs =
     (if length bs < 4 then []
      else
        (let t = u16_at bs 0; l = u16_at bs 2 in
         (t, take l (drop 4 bs)) #
           (if 4 + l > length bs then [] else stun_attrs (drop (4 + l + pad4 l) bs))))"
  by pat_completeness auto
termination by (relation "measure length") auto

declare stun_attrs.simps [simp del]

lemma u16_at_drop_take: "i + 1 + p < e \<Longrightarrow> e \<le> length bs \<Longrightarrow> u16_at (drop p (take e bs)) i = u16_at bs (p + i)"
  by (simp add: u16_at_def add.assoc)

text \<open>One attribute of the packet from a position on, as the loop and as the reference read it.\<close>

lemma attr_body:
  "pos + 4 \<le> e \<Longrightarrow> take (min (pos + 4 + l) e - (pos + 4)) (drop (pos + 4) packet) = take l (drop 4 (drop pos (take e packet)))"
  by (auto simp: drop_take min_def add.commute add.left_commute)

lemma alternate_from_step:
  assumes "pos + 4 \<le> e" "l = u16_at packet (pos + 2)" "t = u16_at packet pos"
  shows "alternate_from packet e pos \<longleftrightarrow>
    ((t = ATTR_CHANGE_REQUEST \<or> t = ATTR_RESPONSE_PORT) \<and>
       (\<exists>b \<in> set (take l (drop 4 (drop pos (take e packet)))). b \<noteq> 0)) \<or>
    (pos + 4 + l \<le> e \<and> alternate_from packet e (pos + 4 + l + pad4 l))"
proof (cases "pos + 4 + l \<le> e")
  case True
  with assms(1) show ?thesis
    by (subst alternate_from.simps)
       (simp only: Let_def assms(2,3) [symmetric] list_ex_iff attr_body [OF assms(1)], simp add: min_def)
next
  case False
  with assms(1) show ?thesis
    by (subst alternate_from.simps)
       (simp only: Let_def assms(2,3) [symmetric] list_ex_iff attr_body [OF assms(1)], simp)
qed

lemma stun_attrs_step:
  assumes "pos + 4 \<le> e" "e \<le> length packet" "l = u16_at packet (pos + 2)" "t = u16_at packet pos"
  shows "stun_attrs (drop pos (take e packet)) =
    (t, take l (drop 4 (drop pos (take e packet)))) #
      (if pos + 4 + l \<le> e then stun_attrs (drop (pos + 4 + l + pad4 l) (take e packet)) else [])"
proof -
  have reads: "u16_at (drop pos (take e packet)) 0 = t" "u16_at (drop pos (take e packet)) 2 = l"
    using assms u16_at_drop_take [of _ pos e packet] by simp_all
  have len: "length (drop pos (take e packet)) = e - pos" using assms(2) by simp
  have dr: "drop (4 + l + pad4 l) (drop pos (take e packet)) = drop (pos + 4 + l + pad4 l) (take e packet)"
    by (simp add: add.commute add.left_commute add.assoc)
  have cond: "4 + l > e - pos \<longleftrightarrow> \<not> pos + 4 + l \<le> e" and big: "\<not> e - pos < 4" using assms(1) by auto
  show ?thesis
    unfolding stun_attrs.simps [of "drop pos (take e packet)"] Let_def reads len cond dr using big by simp
qed

lemma alternate_from_attrs:
  assumes "e \<le> length packet"
  shows "alternate_from packet e pos \<longleftrightarrow>
    (\<exists>(t, v) \<in> set (stun_attrs (drop pos (take e packet))).
       (t = ATTR_CHANGE_REQUEST \<or> t = ATTR_RESPONSE_PORT) \<and> (\<exists>b \<in> set v. b \<noteq> 0))"
  using assms
proof (induction packet e pos rule: alternate_from.induct)
  case (1 packet e pos)
  show ?case
  proof (cases "pos + 4 \<le> e")
    case True
    define l where "l = u16_at packet (pos + 2)"
    define t where "t = u16_at packet pos"
    note step = alternate_from_step [OF True l_def t_def]
    note attrs = stun_attrs_step [OF True "1.prems" l_def t_def]
    show ?thesis
    proof (cases "pos + 4 + l \<le> e")
      case fits: True
      then have "\<not> (t = ATTR_CHANGE_REQUEST \<or> t = ATTR_RESPONSE_PORT) \<or>
           \<not> (\<exists>b \<in> set (take l (drop 4 (drop pos (take e packet)))). b \<noteq> 0) \<Longrightarrow>
         alternate_from packet e (pos + 4 + l + pad4 l) \<longleftrightarrow>
           (\<exists>(t, v) \<in> set (stun_attrs (drop (pos + 4 + l + pad4 l) (take e packet))).
              (t = ATTR_CHANGE_REQUEST \<or> t = ATTR_RESPONSE_PORT) \<and> (\<exists>b \<in> set v. b \<noteq> 0))"
        using "1.IH" [OF True t_def l_def refl refl] "1.prems" attr_body [OF True, of l packet]
        by (auto simp: list_ex_iff min_def)
      then show ?thesis using fits unfolding step attrs by auto
    qed (use step attrs in simp)
  next
    case False
    then show ?thesis
      by (subst alternate_from.simps) (subst stun_attrs.simps, simp)
  qed
qed

lemma be16_bytes:
  assumes "n < 65536"
  obtains a b where "be16 n = [a, b]" "be_decode [a, b] = n"
proof -
  have "length (be16 n) = 2" by (simp add: be16_def)
  then obtain a b where "be16 n = [a, b]" by (auto simp: length_Suc_conv numeral_2_eq_2)
  moreover from this have "be_decode [a, b] = n"
    using assms be_decode_encode [of 2 n] by (simp add: be16_def)
  ultimately show thesis by (rule that)
qed

lemma stun_attrs_one:
  assumes "t < 65536" "length v < 65536"
  shows "stun_attrs (be16 t @ be16 (length v) @ v @ replicate (pad4 (length v)) 0 @ rest)
       = (t, v) # stun_attrs rest"
proof -
  obtain t0 t1 where t: "be16 t = [t0, t1]" "be_decode [t0, t1] = t"
    using assms(1) by (rule be16_bytes)
  obtain l0 l1 where l: "be16 (length v) = [l0, l1]" "be_decode [l0, l1] = length v"
    using assms(2) by (rule be16_bytes)
  define pad :: bytes where "pad = replicate (pad4 (length v)) 0"
  have "drop (4 + length v + pad4 (length v)) ([t0, t1, l0, l1] @ v @ pad @ rest) = rest"
  proof -
    have "length ([t0, t1, l0, l1] @ v @ pad) = 4 + length v + pad4 (length v)" by (simp add: pad_def)
    then show ?thesis by (metis append.assoc append_eq_conv_conj)
  qed
  then show ?thesis
    unfolding t l pad_def [symmetric]
    by (subst stun_attrs.simps) (simp add: t l u16_at_def Let_def pad_def)
qed

section \<open>Reading the answer\<close>

text \<open>What a client does with an answer to its transaction: check the header, find the
  XOR-MAPPED-ADDRESS and undo the mask.\<close>

definition unmask_address :: "bytes \<Rightarrow> bytes \<Rightarrow> sock_addr option" where
  "unmask_address tid v =
     (if length v < 4 then None
      else
        (let port = of_nat (u16_at v 2) XOR ucast (drop_bit 16 MAGIC_COOKIE);
             os = map2 (XOR) (drop 4 v) (be32 MAGIC_COOKIE @ tid)
         in if v ! 1 = 1 then Some (V4 os, port) else if v ! 1 = 2 then Some (V6 os, port) else None))"

definition client_reads :: "bytes \<Rightarrow> bytes \<Rightarrow> sock_addr option" where
  "client_reads tid r =
     (if length r < 20 \<or> u16_at r 0 \<noteq> BINDING_SUCCESS \<or> take 4 (drop 4 r) \<noteq> be32 MAGIC_COOKIE
         \<or> take 12 (drop 8 r) \<noteq> tid \<or> u16_at r 2 \<noteq> length r - 20 then None
      else (case map_of (stun_attrs (drop 20 r)) ATTR_XOR_MAPPED_ADDRESS of
              None \<Rightarrow> None
            | Some v \<Rightarrow> unmask_address tid v))"

lemma map2_xor_twice:
  "length xs \<le> length ys \<Longrightarrow> map2 (XOR) (map2 (XOR) xs ys) ys = (xs :: bytes)"
  by (induction xs ys rule: list_induct2') (auto simp: xor.assoc)

lemma length_be16 [simp]: "length (be16 n) = 2"
  by (simp add: be16_def)

lemma length_be32 [simp]: "length (be32 w) = 4"
  by (simp add: be32_def)

lemma length_xor_mapped:
  "ip_ok (fst src) \<Longrightarrow> length tid = 12 \<Longrightarrow>
   length (xor_mapped_address src (be32 MAGIC_COOKIE @ tid)) = (if is_ipv4 (fst src) then 8 else 20)"
  by (cases "fst src") (simp_all add: xor_mapped_address_def Let_def)

lemma unmask_xor_mapped:
  assumes "ip_ok (fst src)" "length tid = 12"
  shows "unmask_address tid (xor_mapped_address src (be32 MAGIC_COOKIE @ tid)) = Some src"
proof -
  define xp :: u16 where "xp = snd src XOR ucast (drop_bit 16 MAGIC_COOKIE)"
  have "unat xp < 65536" using unsigned_less [of xp] by simp
  then obtain p0 p1 where p: "be16 (unat xp) = [p0, p1]" "be_decode [p0, p1] = unat xp"
    by (rule be16_bytes)
  have os: "map2 (XOR) (map2 (XOR) (ip_octets (fst src)) (be32 MAGIC_COOKIE @ tid)) (be32 MAGIC_COOKIE @ tid)
      = ip_octets (fst src)"
    using assms by (intro map2_xor_twice) (cases "fst src"; simp)
  have port: "xp XOR ucast (drop_bit 16 MAGIC_COOKIE) = snd src"
    by (simp add: xp_def xor.assoc)
  have v: "xor_mapped_address src (be32 MAGIC_COOKIE @ tid) = [0, if is_ipv4 (fst src) then 1 else 2, p0, p1] @
      map2 (XOR) (ip_octets (fst src)) (be32 MAGIC_COOKIE @ tid)"
    by (simp add: xor_mapped_address_def Let_def xp_def [symmetric] p)
  show ?thesis
    unfolding v using os port
    by (cases "fst src") (simp_all add: unmask_address_def u16_at_def p prod_eq_iff)
qed

lemma binding_response_read:
  assumes "ip_ok (fst src)" "length tid = 12"
  shows "client_reads tid (binding_response src tid) = Some src \<and>
    length (binding_response src tid) = (if is_ipv4 (fst src) then 44 else 56)"
proof -
  define v where "v = xor_mapped_address src (be32 MAGIC_COOKIE @ tid)"
  define n where "n = length v"
  have n: "n = (if is_ipv4 (fst src) then 8 else 20)" using length_xor_mapped [OF assms] by (simp add: n_def v_def)
  then have pad: "pad4 (length v) = 0" "length v < 65536" by (simp_all add: n_def [symmetric] pad4_def)
  have pad_sw: "pad4 5 = 3" "length software = 5" by (simp_all add: software_def pad4_def)
  define body where "body = be16 ATTR_XOR_MAPPED_ADDRESS @ be16 (length v) @ v @
    replicate (pad4 (length v)) 0 @ be16 ATTR_SOFTWARE @ be16 (length software) @ software @
    replicate (pad4 (length software)) 0 @ []"
  have r: "binding_response src tid = be16 BINDING_SUCCESS @ be16 (16 + n) @ be32 MAGIC_COOKIE @ tid @ body"
    unfolding binding_response_def body_def v_def [symmetric] n_def [symmetric] Let_def pad
    by (simp add: pad(1) pad_sw n_def)
  have attrs: "stun_attrs body = (ATTR_XOR_MAPPED_ADDRESS, v) # (ATTR_SOFTWARE, software) # stun_attrs []"
    unfolding body_def
    by (subst stun_attrs_one; (subst stun_attrs_one)?) (simp_all add: pad pad_sw stun_consts)
  have len: "length body = 16 + n" by (simp add: body_def pad(1) n_def pad_sw)
  have n16: "u16_at (binding_response src tid) 2 = 16 + n"
    using be_decode_encode [of 2 "16 + n"] n
    by (simp add: r u16_at_def be16_def be_encode_numeral nth_append stun_consts)
  have ty: "u16_at (binding_response src tid) 0 = BINDING_SUCCESS"
    using be_decode_encode [of 2 BINDING_SUCCESS]
    by (simp add: r u16_at_def be16_def be_encode_numeral nth_append stun_consts)
  have "map_of (stun_attrs body) ATTR_XOR_MAPPED_ADDRESS = Some v" by (simp add: attrs)
  moreover have "take 4 (drop 4 (binding_response src tid)) = be32 MAGIC_COOKIE"
    "take 12 (drop 8 (binding_response src tid)) = tid" "drop 20 (binding_response src tid) = body"
    by (simp_all add: r assms)
  ultimately show ?thesis
    using unmask_xor_mapped [OF assms] n16 ty len n
    by (simp add: client_reads_def v_def) (simp add: r assms)
qed

section \<open>Framing on the TLS stream\<close>

text \<open>The messages the TURN server hands to its connection: a whole STUN message or a whole
  ChannelData message, as its length field says, that fits the receiver's buffer.\<close>

definition turn_ok :: "nat \<Rightarrow> bytes \<Rightarrow> bool" where
  "turn_ok buf_len m \<longleftrightarrow> length m \<ge> 4 \<and>
     ((m ! 0 AND 0xC0 = 0x00 \<and> length m = 20 + u16_at m 2 \<and> length m \<le> buf_len) \<or>
      (m ! 0 AND 0xC0 = 0x40 \<and> length m = 4 + u16_at m 2 \<and> length m + pad4 (length m) \<le> buf_len))"

definition recv_opt :: "nat \<Rightarrow> bytes \<Rightarrow> (bytes \<times> bytes) option" where
  "recv_opt buf_len s = (case recv_from buf_len s of Inr x \<Rightarrow> Some x | Inl _ \<Rightarrow> None)"

text \<open>The read loop of one connection: successive messages until \<open>k\<close> were read.\<close>

fun recv_all :: "nat \<Rightarrow> nat \<Rightarrow> bytes \<Rightarrow> turn_error + bytes list \<times> bytes" where
  "recv_all buf_len 0 s = Ok ([], s)"
| "recv_all buf_len (Suc k) s =
     bind_result (recv_from buf_len s)
       (\<lambda>(m, s'). bind_result (recv_all buf_len k s') (\<lambda>(ms, s''). Ok (m # ms, s'')))"

lemma pad4_add4: "pad4 (4 + n) = pad4 n" "pad4 (Suc (Suc (Suc (Suc n)))) = pad4 n"
proof -
  show "pad4 (4 + n) = pad4 n" by (simp add: pad4_def)
  then show "pad4 (Suc (Suc (Suc (Suc n)))) = pad4 n" by (simp add: numeral_eq_Suc)
qed

lemma recv_send:
  assumes "turn_ok n m"
  shows "recv_from n (send_to m @ rest) = Ok (m, rest)"
proof -
  obtain a b c d r where m: "m = a # b # c # d # r"
    using assms by (auto simp: turn_ok_def numeral_eq_Suc Suc_le_length_iff)
  have u: "u16_at (a # b # c # d # x) 2 = be_decode [c, d]" for x by (simp add: u16_at_def)
  consider "a AND 0xC0 = 0x00" "length m = 20 + be_decode [c, d]" "length m \<le> n"
    | "a AND 0xC0 = 0x40" "length r = be_decode [c, d]" "4 + length r + pad4 (length r) \<le> n"
    using assms by (auto simp: turn_ok_def m u pad4_add4)
  then show ?thesis
  proof cases
    case 1
    have cut: "drop (20 + be_decode [c, d]) (m @ rest) = rest" "take (20 + be_decode [c, d]) (m @ rest) = m"
      by (simp_all only: 1(2) [symmetric] append_eq_conv_conj [symmetric]) simp_all
    have "send_to m @ rest = m @ rest" using 1 by (simp add: send_to_def m)
    moreover have "take 4 (m @ rest) = [a, b, c, d]" by (simp add: m)
    ultimately show ?thesis
      using 1(1,2,3) cut by (simp add: recv_from_def frame_len_def u Let_def)
  next
    case 2
    define pad :: bytes where "pad = replicate (pad4 (length r)) 0"
    have s: "send_to m @ rest = ([a, b, c, d] @ r @ pad) @ rest"
      using 2 by (simp add: send_to_def m pad_def pad4_add4)
    have wl: "length ([a, b, c, d] @ r @ pad) = 4 + length r + pad4 (length r)" "length m = 4 + length r"
      by (simp_all add: pad_def m)
    have "drop (4 + length r + pad4 (length r)) (([a, b, c, d] @ r @ pad) @ rest) = rest"
      "take (4 + length r + pad4 (length r)) (([a, b, c, d] @ r @ pad) @ rest) = m @ pad"
      by (simp_all only: wl(1) [symmetric] append_eq_conv_conj [symmetric]) (simp_all add: m)
    moreover have "take (4 + length r) (m @ pad) = m" by (simp only: wl(2) [symmetric]) simp
    ultimately have "drop (4 + length r + pad4 (length r)) (([a, b, c, d] @ r @ pad) @ rest) = rest"
      "take (4 + length r) (take (4 + length r + pad4 (length r)) (([a, b, c, d] @ r @ pad) @ rest)) = m"
      by simp_all
    then show ?thesis
      using 2 unfolding s recv_from_def by (simp add: frame_len_def u m Let_def pad_def)
  qed
qed

interpretation turn: frame_codec "turn_ok n" send_to "recv_opt n" for n
  by unfold_locales (simp_all add: recv_opt_def recv_send, simp add: recv_from_def)

lemma recv_all_dec_n: "turn.dec_n n k s = Some x \<Longrightarrow> recv_all n k s = Ok x"
  by (induction k arbitrary: s x) (auto simp: recv_opt_def split: option.splits sum.splits)

section \<open>Credentials\<close>

lemma cred_step_map_of:
  "map_of (cred_step k realm m u) =
     (case split_once CHR '':'' u of
        Some (user, pass) \<Rightarrow> if user = [] then map_of m else (map_of m)(user \<mapsto> k user realm pass)
      | None \<Rightarrow> map_of m)"
  by (auto simp: cred_step_def update_conv' split: option.splits)

lemma foldl_cred_step:
  "map_of (foldl (cred_step k realm) m us) x =
     (case map_of (rev (filter (\<lambda>(user, _). user \<noteq> []) (List.map_filter (split_once CHR '':'') us))) x of
        Some pass \<Rightarrow> Some (k x realm pass)
      | None \<Rightarrow> map_of m x)"
proof (induction us arbitrary: m)
  case (Cons u us)
  show ?case
    by (auto simp: Cons cred_step_map_of map_filter_simps map_add_def split: option.splits)
qed (simp add: map_filter_simps)

section \<open>Starting\<close>

lemma spawn_turn_relay_effect:
  assumes "spawn_turn_relay k env cfg held = (r, held')"
  shows "case r of
      Inl _ \<Rightarrow> held' = held
    | Inr h \<Rightarrow> UdpSock (sc_stun_port cfg) \<notin> held \<and>
        held' = insert (UdpSock (sc_stun_port cfg))
          (if th_tls_listening h then insert (TlsSock (sc_tls_port cfg)) held else held)"
  using assms
  by (auto simp: spawn_turn_relay_def Let_def split: sum.splits if_splits)

lemma start_turn_from_effect:
  assumes "start_turn_from k envs cfg attempt held = (r, held', tries)" "attempt \<le> 12"
  shows "tries \<le> 12 \<and> (case r of
      Inl _ \<Rightarrow> held' = held \<and> tries = 12 \<and>
        (\<forall>i. attempt \<le> i \<and> i \<le> 12 \<longrightarrow> (\<exists>e. spawn_turn_relay k (envs i) cfg held = (Inl e, held)))
    | Inr h \<Rightarrow> attempt \<le> tries \<and> spawn_turn_relay k (envs tries) cfg held = (Inr h, held'))"
  using assms
proof (induction k envs cfg attempt held rule: start_turn_from.induct)
  case (1 k envs cfg attempt held)
  obtain q held1 where sp: "spawn_turn_relay k (envs attempt) cfg held = (q, held1)"
    by (cases "spawn_turn_relay k (envs attempt) cfg held")
  show ?case
  proof (cases q)
    case (Inr v)
    then show ?thesis using "1.prems" sp by (auto simp: start_turn_from.simps)
  next
    case (Inl e)
    have held1: "held1 = held" using spawn_turn_relay_effect [OF sp] Inl by simp
    show ?thesis
    proof (cases "attempt < 12")
      case True
      then have rec: "start_turn_from k envs cfg (attempt + 1) held = (r, held', tries)"
        using "1.prems"(1) sp Inl held1 by (subst (asm) start_turn_from.simps) simp
      have IH: "tries \<le> 12 \<and> (case r of
          Inl _ \<Rightarrow> held' = held \<and> tries = 12 \<and>
            (\<forall>i. attempt + 1 \<le> i \<and> i \<le> 12 \<longrightarrow> (\<exists>e. spawn_turn_relay k (envs i) cfg held = (Inl e, held)))
        | Inr h \<Rightarrow> attempt + 1 \<le> tries \<and> spawn_turn_relay k (envs tries) cfg held = (Inr h, held'))"
        using "1.IH" [of q held e] sp Inl held1 True rec by simp
      have first: "\<exists>e. spawn_turn_relay k (envs attempt) cfg held = (Inl e, held)" using sp Inl held1 by simp
      show ?thesis
        using IH first by (cases r) (auto simp: le_eq_less_or_eq [of attempt] Suc_le_eq)
    next
      case False
      then have twelve: "attempt = 12" using "1.prems"(2) by simp
      have "start_turn_from k envs cfg attempt held = (Inl e, held, 12)"
        using sp Inl held1 twelve by (subst start_turn_from.simps) simp
      then have out: "r = Inl e" "held' = held" "tries = 12" using "1.prems"(1) by simp_all
      have "spawn_turn_relay k (envs i) cfg held = (Inl e, held)" if "attempt \<le> i" "i \<le> 12" for i
        using that sp Inl held1 twelve by (metis le_antisym)
      then show ?thesis using out by auto
    qed
  qed
qed

lemma stun_stop_None: "sm_run m = None \<Longrightarrow> stun_stop m = m"
  by (simp add: stun_stop_def)

lemma stun_stop_Some:
  "sm_run m = Some h \<Longrightarrow> stun_stop m = m\<lparr>sm_run := None, sm_held := sm_held m - rh_sockets h\<rparr>"
  by (simp add: stun_stop_def)

lemmas stun_stop_simps = stun_stop_None stun_stop_Some

section \<open>Properties\<close>

text \<open>
  C26: the responder answers a datagram exactly when it is a complete STUN message with the
  magic cookie, a length that is a multiple of four and within the datagram, of type Binding
  request, none of whose attributes inside the declared length asks for another source
  address or port. The walk by offsets agrees with the attribute list of the body.
\<close>

theorem stun_answers_iff:
  "process_stun_packet p src \<noteq> None \<longleftrightarrow>
     length p \<ge> 20 \<and> be_decode (take 4 (drop 4 p)) = unat MAGIC_COOKIE \<and> u16_at p 0 = BINDING_REQUEST \<and>
     u16_at p 2 mod 4 = 0 \<and> u16_at p 2 + 20 \<le> length p \<and>
     (\<nexists>t v b. (t, v) \<in> set (stun_attrs (take (u16_at p 2) (drop 20 p))) \<and>
        t \<in> {ATTR_CHANGE_REQUEST, ATTR_RESPONSE_PORT} \<and> b \<in> set v \<and> b \<noteq> 0)"
proof -
  have "asks_for_alternate_address p (u16_at p 2) \<longleftrightarrow>
      (\<exists>(t, v) \<in> set (stun_attrs (take (u16_at p 2) (drop 20 p))).
         (t = ATTR_CHANGE_REQUEST \<or> t = ATTR_RESPONSE_PORT) \<and> (\<exists>b \<in> set v. b \<noteq> 0))"
    if "u16_at p 2 + 20 \<le> length p"
    using that alternate_from_attrs [of "20 + u16_at p 2" p 20]
    by (simp add: asks_for_alternate_address_def drop_take add.commute)
  then show ?thesis
    by (auto simp: process_stun_packet_def Let_def)
qed

text \<open>A client that gets an answer reads its own address and port out of it, IPv4 or IPv6:
  header, transaction id and lengths are those of its request and undoing the mask gives the
  source of the datagram. Every answer is 44 or 56 bytes long.\<close>

lemma stun_answer_is_own_address:
  assumes "process_stun_packet p src = Some r" "ip_ok (fst src)"
  shows "client_reads (take 12 (drop 8 p)) r = Some src \<and> length r = (if is_ipv4 (fst src) then 44 else 56)"
proof -
  have "r = binding_response src (take 12 (drop 8 p))" "length p \<ge> 20"
    using assms(1) by (auto simp: process_stun_packet_def Let_def split: if_splits)
  then show ?thesis using binding_response_read [OF assms(2), of "take 12 (drop 8 p)"] by simp
qed

definition ex_request :: bytes where
  "ex_request = [0, 1, 0, 0, 0x21, 0x12, 0xA4, 0x42, 1, 2, 3, 4, 5, 6, 7, 8, 9, 10, 11, 12]"

lemma ex_request_answered: "process_stun_packet ex_request src = Some (binding_response src [1, 2, 3, 4, 5, 6, 7, 8, 9, 10, 11, 12])"
proof -
  have "\<not> asks_for_alternate_address ex_request 0"
    by (simp add: asks_for_alternate_address_def ex_request_def alternate_from.simps)
  then show ?thesis
    by (simp add: process_stun_packet_def ex_request_def u16_at_def be_decode_def stun_consts Let_def)
qed

lemma stun_answer_is_own_address_example:
  "client_reads [1, 2, 3, 4, 5, 6, 7, 8, 9, 10, 11, 12]
     (binding_response (V4 [192, 168, 0, 7], 40000) [1, 2, 3, 4, 5, 6, 7, 8, 9, 10, 11, 12])
   = Some (V4 [192, 168, 0, 7], 40000)"
  using stun_answer_is_own_address [OF ex_request_answered, of "(V4 [192, 168, 0, 7], 40000)"]
  by (simp add: ex_request_def)

text \<open>TURN messages sent over a TLS connection are received one by one and unchanged,
  STUN messages and ChannelData mixed, whatever follows them: the padding that separates
  ChannelData messages on the stream never reaches a message.\<close>

lemma turn_tls_roundtrip:
  assumes "list_all (turn_ok buf_len) ms"
  shows "recv_all buf_len (length ms) (concat (map send_to ms) @ rest) = Ok (ms, rest)"
  using turn.dec_n_stream [OF assms] by (rule recv_all_dec_n)

lemma turn_tls_roundtrip_example:
  "recv_all 1500 2 (concat (map send_to [[0x40, 1, 0, 1, 99], [0x40, 2, 0, 0]]) @ [7])
     = Ok ([[0x40, 1, 0, 1, 99], [0x40, 2, 0, 0]], [7])"
  using turn_tls_roundtrip [of 1500 "[[0x40, 1, 0, 1, 99], [0x40, 2, 0, 0]]" "[7]"]
  by (simp add: turn_ok_def u16_at_def be_decode_def pad4_def numeral_2_eq_2)

text \<open>A TURN user authenticates with the key of the last entry that names it; an entry
  without a colon or with an empty user never authenticates, whatever name is tried.\<close>

lemma turn_credentials_last_wins:
  "auth_handle (cred_map k cfg) user =
     map_option (k user (sc_realm cfg)) (map_of (rev (cred_entries cfg)) user)"
  by (simp add: auth_handle_def cred_map_def cred_entries_def foldl_cred_step split: option.splits)

lemma stun_start_effect:
  assumes "stun_start k envs cfg m = (r, m')" "\<not> stun_running m"
  shows "(case r of
       Inl _ \<Rightarrow> sm_run m' = None \<and> sm_held m' = sm_held (stun_stop m)
     | Inr _ \<Rightarrow> stun_running m' \<and> UdpSock (sc_stun_port cfg) \<in> sm_held m')
   \<and> sm_run (stun_stop m') = None \<and> sm_held (stun_stop m') = sm_held (stun_stop m)"
proof -
  define m1 where "m1 = stun_stop m"
  have none: "sm_run m1 = None" by (simp add: m1_def stun_stop_def split: option.splits)
  have start: "stun_start k envs cfg m = (if \<not> sc_enabled cfg then (Err StunDisabled, m1)
     else if sc_turn_enabled cfg then
       (case start_turn_from k envs cfg 0 (sm_held m1) of
          (Inl e, held', _) \<Rightarrow> (Err e, m1\<lparr>sm_held := held'\<rparr>)
        | (Inr h, held', _) \<Rightarrow>
            (Ok (), m1\<lparr>sm_run := Some \<lparr> rh_cancelled = False,
                rh_finished = replicate (if th_tls_listening h then 2 else 1) False,
                rh_turn = Some h, rh_sockets = held' - sm_held m1 \<rparr>, sm_held := held'\<rparr>))
     else
       (case spawn_stun (envs 0) cfg (sm_held m1) of
          (Inl e, held') \<Rightarrow> (Err e, m1\<lparr>sm_held := held'\<rparr>)
        | (Inr _, held') \<Rightarrow>
            (Ok (), m1\<lparr>sm_run := Some \<lparr> rh_cancelled = False, rh_finished = [False],
                rh_turn = None, rh_sockets = held' - sm_held m1 \<rparr>, sm_held := held'\<rparr>)))"
    using assms(2) unfolding stun_start_def m1_def Let_def by simp
  show ?thesis
  proof (cases "sc_enabled cfg \<and> sc_turn_enabled cfg")
    case True
    obtain q held' tries where tf: "start_turn_from k envs cfg 0 (sm_held m1) = (q, held', tries)"
      by (cases "start_turn_from k envs cfg 0 (sm_held m1)")
    show ?thesis
    proof (cases q)
      case (Inl e)
      then show ?thesis
        using start_turn_from_effect [OF tf] assms(1) True tf none
        by (auto simp: start m1_def [symmetric] stun_stop_simps)
    next
      case (Inr h)
      then have "spawn_turn_relay k (envs tries) cfg (sm_held m1) = (Inr h, held')"
        using start_turn_from_effect [OF tf] by simp
      from spawn_turn_relay_effect [OF this] show ?thesis
        using assms(1) True tf none Inr
        by (auto simp: start m1_def [symmetric] stun_stop_simps stun_running_def alive_def list_all_iff)
    qed
  next
    case False
    then show ?thesis
      using assms(1) none
      by (auto simp: start m1_def [symmetric] stun_stop_simps stun_running_def alive_def spawn_stun_def
          split: sum.splits if_splits)
  qed
qed

text \<open>
  C29: starting the STUN/TURN service succeeds with a running service or fails with none,
  after at most thirteen attempts; a failed start holds no socket it did not hold before, so
  a retry can bind the same ports, and stopping releases exactly what starting took.
\<close>

theorem stun_start_stop:
  assumes "stun_start k envs cfg m = (r, m')" "\<not> stun_running m"
  shows "(case r of
       Inl _ \<Rightarrow> sm_run m' = None \<and> sm_held m' = sm_held (stun_stop m)
     | Inr _ \<Rightarrow> stun_running m' \<and> UdpSock (sc_stun_port cfg) \<in> sm_held m')
   \<and> sm_run (stun_stop m') = None \<and> sm_held (stun_stop m') = sm_held (stun_stop m)"
  using assms by (rule stun_start_effect)

definition ex_turn_env :: "nat \<Rightarrow> turn_env" where
  "ex_turn_env n = \<lparr> te_local_ip = None, te_udp_bind = (n > 0), te_server = True, te_exists = (\<lambda>_. False),
     te_default_cert = ([], []), te_generate = True, te_acceptor = True, te_tcp_bind = True \<rparr>"

theorem stun_start_stop_witness:
  "stun_running (snd (stun_start (\<lambda>_ _ _. []) ex_turn_env (default_stun_turn ex_host)
     \<lparr> sm_run = None, sm_held = {} \<rparr>))"
proof -
  have held: "parse_bind ''0.0.0.0'' x = Ok (V4 [0, 0, 0, 0], x)" for x
  proof -
    have "strip_brackets (trim ''0.0.0.0'') = ''0.0.0.0''" by code_simp
    moreover have "ipv4_text [0, 0, 0, 0] = ''0.0.0.0''" by code_simp
    ultimately show ?thesis using parse_ip_v4_text [of 0 0 0 0] by (simp add: parse_bind_def)
  qed
  define m :: stun_module where "m = \<lparr> sm_run = None, sm_held = {} \<rparr>"
  have sp: "start_turn_from (\<lambda>_ _ _. []) ex_turn_env (default_stun_turn ex_host) 0 {} =
      start_turn_from (\<lambda>_ _ _. []) ex_turn_env (default_stun_turn ex_host) 1 {}"
    by (subst start_turn_from.simps)
       (simp add: spawn_turn_relay_def default_stun_turn_def held relay_address_def ex_turn_env_def is_unspecified_def Let_def)
  have "\<exists>h held'. spawn_turn_relay (\<lambda>_ _ _. []) (ex_turn_env 1) (default_stun_turn ex_host) {} = (Inr h, held')"
    by (simp add: spawn_turn_relay_def default_stun_turn_def held relay_address_def ex_turn_env_def is_unspecified_def Let_def)
  then obtain h held' where
    "spawn_turn_relay (\<lambda>_ _ _. []) (ex_turn_env 1) (default_stun_turn ex_host) {} = (Inr h, held')" by blast
  then have "start_turn_from (\<lambda>_ _ _. []) ex_turn_env (default_stun_turn ex_host) 1 {} = (Inr h, held', 1)"
    by (subst start_turn_from.simps) simp
  then have "\<exists>m'. stun_start (\<lambda>_ _ _. []) ex_turn_env (default_stun_turn ex_host) m = (Ok (), m')"
    by (simp add: stun_start_def m_def stun_running_def stun_stop_def default_stun_turn_def)
       (simp add: default_stun_turn_def [symmetric] sp)
  then obtain m' where st: "stun_start (\<lambda>_ _ _. []) ex_turn_env (default_stun_turn ex_host) m = (Ok (), m')" by blast
  have "\<not> stun_running m" by (simp add: m_def stun_running_def)
  from stun_start_stop [OF st this] st show ?thesis by (simp add: m_def)
qed

end
