(* ===== verification/Msg.thy ===== *)
theory Msg
  imports Serde
begin

text \<open>
  The frp message types and the wire v1 codec (\<open>remgr-frps/src/msg.rs\<close>): one record per
  message with its serde attributes, the type bytes, the framing
  (type byte, 64-bit big-endian length, JSON body) and the authentication key.

  The JSON text codec, MD5, base64 and the textual form of IP addresses are not part of the
  sources; they are parameters.
\<close>

section \<open>Constants\<close>

definition MAX_MSG_LEN :: int where "MAX_MSG_LEN = 10240"

definition TYPE_LOGIN :: u8 where "TYPE_LOGIN = 0x6F"
definition TYPE_LOGIN_RESP :: u8 where "TYPE_LOGIN_RESP = 0x31"
definition TYPE_NEW_PROXY :: u8 where "TYPE_NEW_PROXY = 0x70"
definition TYPE_NEW_PROXY_RESP :: u8 where "TYPE_NEW_PROXY_RESP = 0x32"
definition TYPE_CLOSE_PROXY :: u8 where "TYPE_CLOSE_PROXY = 0x63"
definition TYPE_NEW_WORK_CONN :: u8 where "TYPE_NEW_WORK_CONN = 0x77"
definition TYPE_REQ_WORK_CONN :: u8 where "TYPE_REQ_WORK_CONN = 0x72"
definition TYPE_START_WORK_CONN :: u8 where "TYPE_START_WORK_CONN = 0x73"
definition TYPE_NEW_VISITOR_CONN :: u8 where "TYPE_NEW_VISITOR_CONN = 0x76"
definition TYPE_NEW_VISITOR_CONN_RESP :: u8 where "TYPE_NEW_VISITOR_CONN_RESP = 0x33"
definition TYPE_PING :: u8 where "TYPE_PING = 0x68"
definition TYPE_PONG :: u8 where "TYPE_PONG = 0x34"
definition TYPE_UDP_PACKET :: u8 where "TYPE_UDP_PACKET = 0x75"

lemmas type_bytes = TYPE_LOGIN_def TYPE_LOGIN_RESP_def TYPE_NEW_PROXY_def TYPE_NEW_PROXY_RESP_def
  TYPE_CLOSE_PROXY_def TYPE_NEW_WORK_CONN_def TYPE_REQ_WORK_CONN_def TYPE_START_WORK_CONN_def
  TYPE_NEW_VISITOR_CONN_def TYPE_NEW_VISITOR_CONN_RESP_def TYPE_PING_def TYPE_PONG_def
  TYPE_UDP_PACKET_def

section \<open>Messages\<close>

record client_spec =
  client_type :: string
  always_auth_pass :: bool

record login =
  lg_version :: string
  lg_hostname :: string
  lg_os :: string
  lg_arch :: string
  lg_user :: string
  lg_privilege_key :: string
  lg_timestamp :: int
  lg_run_id :: string
  lg_client_id :: string
  lg_metas :: "(string \<times> string) list option"
  lg_client_spec :: "client_spec option"
  lg_pool_count :: int

record login_resp =
  lr_version :: string
  lr_run_id :: string
  lr_error :: string

record new_proxy =
  np_proxy_name :: string
  np_proxy_type :: string
  np_use_encryption :: bool
  np_use_compression :: bool
  np_bandwidth_limit :: string
  np_bandwidth_limit_mode :: string
  np_group :: string
  np_group_key :: string
  np_metas :: "(string \<times> string) list option"
  np_annotations :: "(string \<times> string) list option"
  np_remote_port :: int
  np_custom_domains :: "string list option"
  np_subdomain :: string
  np_sk :: string
  np_multiplexer :: string

record new_proxy_resp =
  npr_proxy_name :: string
  npr_remote_addr :: string
  npr_error :: string

record close_proxy_msg =
  cp_proxy_name :: string

record new_work_conn =
  nw_run_id :: string
  nw_privilege_key :: string
  nw_timestamp :: int

record start_work_conn =
  sw_proxy_name :: string
  sw_src_addr :: string
  sw_dst_addr :: string
  sw_src_port :: nat
  sw_dst_port :: nat
  sw_error :: string

record ping =
  pi_privilege_key :: string
  pi_timestamp :: int

record pong =
  po_error :: string

record udp_addr_json =
  ua_ip :: "string option"
  ua_port :: nat
  ua_zone :: string

record udp_packet =
  up_content_b64 :: string
  up_local_addr :: "udp_addr_json option"
  up_remote_addr :: "udp_addr_json option"

datatype message =
    MLogin login
  | MLoginResp login_resp
  | MNewProxy new_proxy
  | MNewProxyResp new_proxy_resp
  | MCloseProxy close_proxy_msg
  | MNewWorkConn new_work_conn
  | MReqWorkConn
  | MStartWorkConn start_work_conn
  | MPing ping
  | MPong pong
  | MUdpPacket udp_packet

fun type_byte :: "message \<Rightarrow> u8" where
  "type_byte (MLogin _) = TYPE_LOGIN"
| "type_byte (MLoginResp _) = TYPE_LOGIN_RESP"
| "type_byte (MNewProxy _) = TYPE_NEW_PROXY"
| "type_byte (MNewProxyResp _) = TYPE_NEW_PROXY_RESP"
| "type_byte (MCloseProxy _) = TYPE_CLOSE_PROXY"
| "type_byte (MNewWorkConn _) = TYPE_NEW_WORK_CONN"
| "type_byte MReqWorkConn = TYPE_REQ_WORK_CONN"
| "type_byte (MStartWorkConn _) = TYPE_START_WORK_CONN"
| "type_byte (MPing _) = TYPE_PING"
| "type_byte (MPong _) = TYPE_PONG"
| "type_byte (MUdpPacket _) = TYPE_UDP_PACKET"

section \<open>Serialisation of the messages\<close>

definition ser_client_spec :: "client_spec \<Rightarrow> json" where
  "ser_client_spec m = JObj (ser_str ''type'' (client_type m) @ ser_bool ''always_auth_pass'' (always_auth_pass m))"

definition de_client_spec :: "json \<Rightarrow> client_spec option" where
  "de_client_spec j = do {
     kvs \<leftarrow> struct_fields [''type'', ''always_auth_pass''] j;
     t \<leftarrow> de_field [''type''] de_str [] kvs;
     a \<leftarrow> de_field [''always_auth_pass''] de_bool False kvs;
     Some \<lparr> client_type = t, always_auth_pass = a \<rparr> }"

definition ser_login :: "login \<Rightarrow> json" where
  "ser_login m = JObj
     (ser_str ''version'' (lg_version m) @ ser_str ''hostname'' (lg_hostname m) @
      ser_str ''os'' (lg_os m) @ ser_str ''arch'' (lg_arch m) @ ser_str ''user'' (lg_user m) @
      ser_str ''privilege_key'' (lg_privilege_key m) @ ser_int ''timestamp'' (lg_timestamp m) @
      ser_str ''run_id'' (lg_run_id m) @ ser_str ''client_id'' (lg_client_id m) @
      ser_opt ''metas'' json_of_map (lg_metas m) @
      ser_opt ''client_spec'' ser_client_spec (lg_client_spec m) @
      ser_int ''pool_count'' (lg_pool_count m))"

definition de_login :: "json \<Rightarrow> login option" where
  "de_login j = do {
     kvs \<leftarrow> struct_fields [''version'', ''hostname'', ''os'', ''arch'', ''user'', ''privilege_key'',
        ''timestamp'', ''run_id'', ''client_id'', ''metas'', ''client_spec'', ''pool_count''] j;
     v \<leftarrow> de_field [''version''] de_str [] kvs;
     h \<leftarrow> de_field [''hostname''] de_str [] kvs;
     os \<leftarrow> de_field [''os''] de_str [] kvs;
     ar \<leftarrow> de_field [''arch''] de_str [] kvs;
     us \<leftarrow> de_field [''user''] de_str [] kvs;
     pk \<leftarrow> de_field [''privilege_key''] de_str [] kvs;
     ts \<leftarrow> de_field [''timestamp''] (de_signed 64) 0 kvs;
     ri \<leftarrow> de_field [''run_id''] de_str [] kvs;
     ci \<leftarrow> de_field [''client_id''] de_str [] kvs;
     me \<leftarrow> de_field [''metas''] (de_opt de_map) None kvs;
     cs \<leftarrow> de_field [''client_spec''] (de_opt de_client_spec) None kvs;
     pc \<leftarrow> de_field [''pool_count''] (de_signed 64) 0 kvs;
     Some \<lparr> lg_version = v, lg_hostname = h, lg_os = os, lg_arch = ar, lg_user = us,
       lg_privilege_key = pk, lg_timestamp = ts, lg_run_id = ri, lg_client_id = ci,
       lg_metas = me, lg_client_spec = cs, lg_pool_count = pc \<rparr> }"

definition ser_login_resp :: "login_resp \<Rightarrow> json" where
  "ser_login_resp m = JObj
     (ser_str ''version'' (lr_version m) @ ser_str ''run_id'' (lr_run_id m) @ ser_str ''error'' (lr_error m))"

definition de_login_resp :: "json \<Rightarrow> login_resp option" where
  "de_login_resp j = do {
     kvs \<leftarrow> struct_fields [''version'', ''run_id'', ''error''] j;
     v \<leftarrow> de_field [''version''] de_str [] kvs;
     r \<leftarrow> de_field [''run_id''] de_str [] kvs;
     e \<leftarrow> de_field [''error''] de_str [] kvs;
     Some \<lparr> lr_version = v, lr_run_id = r, lr_error = e \<rparr> }"

definition ser_new_proxy :: "new_proxy \<Rightarrow> json" where
  "ser_new_proxy m = JObj
     (ser_str ''proxy_name'' (np_proxy_name m) @ ser_str ''proxy_type'' (np_proxy_type m) @
      ser_bool ''use_encryption'' (np_use_encryption m) @
      ser_bool ''use_compression'' (np_use_compression m) @
      ser_str ''bandwidth_limit'' (np_bandwidth_limit m) @
      ser_str ''bandwidth_limit_mode'' (np_bandwidth_limit_mode m) @
      ser_str ''group'' (np_group m) @ ser_str ''group_key'' (np_group_key m) @
      ser_opt ''metas'' json_of_map (np_metas m) @
      ser_opt ''annotations'' json_of_map (np_annotations m) @
      ser_int ''remote_port'' (np_remote_port m) @
      ser_opt ''custom_domains'' json_of_strs (np_custom_domains m) @
      ser_str ''subdomain'' (np_subdomain m) @ ser_str ''sk'' (np_sk m) @
      ser_str ''multiplexer'' (np_multiplexer m))"

definition de_new_proxy :: "json \<Rightarrow> new_proxy option" where
  "de_new_proxy j = do {
     kvs \<leftarrow> struct_fields [''proxy_name'', ''proxy_type'', ''use_encryption'', ''use_compression'',
        ''bandwidth_limit'', ''bandwidth_limit_mode'', ''group'', ''group_key'', ''metas'',
        ''annotations'', ''remote_port'', ''custom_domains'', ''subdomain'', ''sk'', ''multiplexer''] j;
     n \<leftarrow> de_field [''proxy_name''] de_str [] kvs;
     t \<leftarrow> de_field [''proxy_type''] de_str [] kvs;
     ue \<leftarrow> de_field [''use_encryption''] de_bool False kvs;
     uc \<leftarrow> de_field [''use_compression''] de_bool False kvs;
     bl \<leftarrow> de_field [''bandwidth_limit''] de_str [] kvs;
     bm \<leftarrow> de_field [''bandwidth_limit_mode''] de_str [] kvs;
     g \<leftarrow> de_field [''group''] de_str [] kvs;
     gk \<leftarrow> de_field [''group_key''] de_str [] kvs;
     me \<leftarrow> de_field [''metas''] (de_opt de_map) None kvs;
     an \<leftarrow> de_field [''annotations''] (de_opt de_map) None kvs;
     rp \<leftarrow> de_field [''remote_port''] (de_signed 64) 0 kvs;
     cd \<leftarrow> de_field [''custom_domains''] (de_opt de_strs) None kvs;
     sd \<leftarrow> de_field [''subdomain''] de_str [] kvs;
     sk \<leftarrow> de_field [''sk''] de_str [] kvs;
     mu \<leftarrow> de_field [''multiplexer''] de_str [] kvs;
     Some \<lparr> np_proxy_name = n, np_proxy_type = t, np_use_encryption = ue, np_use_compression = uc,
       np_bandwidth_limit = bl, np_bandwidth_limit_mode = bm, np_group = g, np_group_key = gk,
       np_metas = me, np_annotations = an, np_remote_port = rp, np_custom_domains = cd,
       np_subdomain = sd, np_sk = sk, np_multiplexer = mu \<rparr> }"

definition ser_new_proxy_resp :: "new_proxy_resp \<Rightarrow> json" where
  "ser_new_proxy_resp m = JObj
     (ser_str ''proxy_name'' (npr_proxy_name m) @ ser_str ''remote_addr'' (npr_remote_addr m) @
      ser_str ''error'' (npr_error m))"

definition de_new_proxy_resp :: "json \<Rightarrow> new_proxy_resp option" where
  "de_new_proxy_resp j = do {
     kvs \<leftarrow> struct_fields [''proxy_name'', ''remote_addr'', ''error''] j;
     n \<leftarrow> de_field [''proxy_name''] de_str [] kvs;
     r \<leftarrow> de_field [''remote_addr''] de_str [] kvs;
     e \<leftarrow> de_field [''error''] de_str [] kvs;
     Some \<lparr> npr_proxy_name = n, npr_remote_addr = r, npr_error = e \<rparr> }"

definition ser_close_proxy :: "close_proxy_msg \<Rightarrow> json" where
  "ser_close_proxy m = JObj (ser_str ''proxy_name'' (cp_proxy_name m))"

definition de_close_proxy :: "json \<Rightarrow> close_proxy_msg option" where
  "de_close_proxy j = do {
     kvs \<leftarrow> struct_fields [''proxy_name''] j;
     n \<leftarrow> de_field [''proxy_name''] de_str [] kvs;
     Some \<lparr> cp_proxy_name = n \<rparr> }"

definition ser_new_work_conn :: "new_work_conn \<Rightarrow> json" where
  "ser_new_work_conn m = JObj
     (ser_str ''run_id'' (nw_run_id m) @ ser_str ''privilege_key'' (nw_privilege_key m) @
      ser_int ''timestamp'' (nw_timestamp m))"

definition de_new_work_conn :: "json \<Rightarrow> new_work_conn option" where
  "de_new_work_conn j = do {
     kvs \<leftarrow> struct_fields [''run_id'', ''privilege_key'', ''timestamp''] j;
     r \<leftarrow> de_field [''run_id''] de_str [] kvs;
     p \<leftarrow> de_field [''privilege_key''] de_str [] kvs;
     t \<leftarrow> de_field [''timestamp''] (de_signed 64) 0 kvs;
     Some \<lparr> nw_run_id = r, nw_privilege_key = p, nw_timestamp = t \<rparr> }"

definition ser_req_work_conn :: json where
  "ser_req_work_conn = JObj []"

definition de_req_work_conn :: "json \<Rightarrow> unit option" where
  "de_req_work_conn j = map_option (\<lambda>_. ()) (struct_fields [] j)"

definition ser_start_work_conn :: "start_work_conn \<Rightarrow> json" where
  "ser_start_work_conn m = JObj
     (ser_str ''proxy_name'' (sw_proxy_name m) @ ser_str ''src_addr'' (sw_src_addr m) @
      ser_str ''dst_addr'' (sw_dst_addr m) @ ser_int ''src_port'' (int (sw_src_port m)) @
      ser_int ''dst_port'' (int (sw_dst_port m)) @ ser_str ''error'' (sw_error m))"

definition de_start_work_conn :: "json \<Rightarrow> start_work_conn option" where
  "de_start_work_conn j = do {
     kvs \<leftarrow> struct_fields [''proxy_name'', ''src_addr'', ''dst_addr'', ''src_port'', ''dst_port'', ''error''] j;
     n \<leftarrow> de_field [''proxy_name''] de_str [] kvs;
     sa \<leftarrow> de_field [''src_addr''] de_str [] kvs;
     da \<leftarrow> de_field [''dst_addr''] de_str [] kvs;
     sp \<leftarrow> de_field [''src_port''] (de_unsigned 16) 0 kvs;
     dp \<leftarrow> de_field [''dst_port''] (de_unsigned 16) 0 kvs;
     e \<leftarrow> de_field [''error''] de_str [] kvs;
     Some \<lparr> sw_proxy_name = n, sw_src_addr = sa, sw_dst_addr = da, sw_src_port = sp,
       sw_dst_port = dp, sw_error = e \<rparr> }"

definition ser_ping :: "ping \<Rightarrow> json" where
  "ser_ping m = JObj (ser_str ''privilege_key'' (pi_privilege_key m) @ ser_int ''timestamp'' (pi_timestamp m))"

definition de_ping :: "json \<Rightarrow> ping option" where
  "de_ping j = do {
     kvs \<leftarrow> struct_fields [''privilege_key'', ''timestamp''] j;
     p \<leftarrow> de_field [''privilege_key''] de_str [] kvs;
     t \<leftarrow> de_field [''timestamp''] (de_signed 64) 0 kvs;
     Some \<lparr> pi_privilege_key = p, pi_timestamp = t \<rparr> }"

definition ser_pong :: "pong \<Rightarrow> json" where
  "ser_pong m = JObj (ser_str ''error'' (po_error m))"

definition de_pong :: "json \<Rightarrow> pong option" where
  "de_pong j = do {
     kvs \<leftarrow> struct_fields [''error''] j;
     e \<leftarrow> de_field [''error''] de_str [] kvs;
     Some \<lparr> po_error = e \<rparr> }"

definition ser_udp_addr :: "udp_addr_json \<Rightarrow> json" where
  "ser_udp_addr a = JObj
     (ser_opt ''IP'' JStr (ua_ip a) @ ser_int ''Port'' (int (ua_port a)) @ ser_str ''Zone'' (ua_zone a))"

definition de_udp_addr :: "json \<Rightarrow> udp_addr_json option" where
  "de_udp_addr j = do {
     kvs \<leftarrow> struct_fields [''IP'', ''Port'', ''Zone''] j;
     i \<leftarrow> de_field [''IP'', ''ip''] (de_opt de_str) None kvs;
     p \<leftarrow> de_field [''Port'', ''port''] (de_unsigned 16) 0 kvs;
     z \<leftarrow> de_field [''Zone'', ''zone''] de_str [] kvs;
     Some \<lparr> ua_ip = i, ua_port = p, ua_zone = z \<rparr> }"

definition ser_udp_packet :: "udp_packet \<Rightarrow> json" where
  "ser_udp_packet m = JObj
     (ser_str ''c'' (up_content_b64 m) @ ser_opt ''l'' ser_udp_addr (up_local_addr m) @
      ser_opt ''r'' ser_udp_addr (up_remote_addr m))"

definition de_udp_packet :: "json \<Rightarrow> udp_packet option" where
  "de_udp_packet j = do {
     kvs \<leftarrow> struct_fields [''c'', ''l'', ''r''] j;
     c \<leftarrow> de_field [''c''] de_str [] kvs;
     l \<leftarrow> de_field [''l''] (de_opt de_udp_addr) None kvs;
     r \<leftarrow> de_field [''r''] (de_opt de_udp_addr) None kvs;
     Some \<lparr> up_content_b64 = c, up_local_addr = l, up_remote_addr = r \<rparr> }"

fun ser_message :: "message \<Rightarrow> json" where
  "ser_message (MLogin m) = ser_login m"
| "ser_message (MLoginResp m) = ser_login_resp m"
| "ser_message (MNewProxy m) = ser_new_proxy m"
| "ser_message (MNewProxyResp m) = ser_new_proxy_resp m"
| "ser_message (MCloseProxy m) = ser_close_proxy m"
| "ser_message (MNewWorkConn m) = ser_new_work_conn m"
| "ser_message MReqWorkConn = ser_req_work_conn"
| "ser_message (MStartWorkConn m) = ser_start_work_conn m"
| "ser_message (MPing m) = ser_ping m"
| "ser_message (MPong m) = ser_pong m"
| "ser_message (MUdpPacket m) = ser_udp_packet m"

section \<open>Frames\<close>

datatype msg_error =
    Eof
  | LengthOutOfRange int
  | TooLarge nat
  | UnknownType u8
  | BadJson
  | BadBase64

definition read_exact :: "nat \<Rightarrow> bytes \<Rightarrow> msg_error + bytes \<times> bytes" where
  "read_exact n s = (if length s < n then Err Eof else Ok (take n s, drop n s))"

definition i64_from_be :: "bytes \<Rightarrow> int" where
  "i64_from_be bs = sint (of_nat (be_decode bs) :: 64 word)"

definition i64_to_be :: "int \<Rightarrow> bytes" where
  "i64_to_be i = be_encode 8 (unat (of_int i :: 64 word))"

text \<open>A reader is the bytes still to come on the stream; a frame is a type byte and a body.\<close>

definition read_frame :: "bytes \<Rightarrow> msg_error + (u8 \<times> bytes) \<times> bytes" where
  "read_frame s0 =
     bind_result (read_exact 1 s0) (\<lambda>(tb, s1).
     bind_result (read_exact 8 s1) (\<lambda>(lb, s2).
       let len = i64_from_be lb in
       if len < 0 \<or> len > MAX_MSG_LEN then Err (LengthOutOfRange len)
       else bind_result (read_exact (nat len) s2) (\<lambda>(body, s3). Ok ((hd tb, body), s3))))"

definition write_frame :: "u8 \<Rightarrow> bytes \<Rightarrow> msg_error + bytes" where
  "write_frame tb body =
     (if int (length body) > MAX_MSG_LEN then Err (TooLarge (length body))
      else Ok ([tb] @ i64_to_be (int (length body)) @ body))"

text \<open>Writing and reading frames one after the other, as the control loops do.\<close>

fun write_frames :: "(u8 \<times> bytes) list \<Rightarrow> msg_error + bytes" where
  "write_frames [] = Ok []"
| "write_frames ((tb, body) # fs) =
     bind_result (write_frame tb body) (\<lambda>w. bind_result (write_frames fs) (\<lambda>ws. Ok (w @ ws)))"

fun read_frames :: "nat \<Rightarrow> bytes \<Rightarrow> msg_error + (u8 \<times> bytes) list \<times> bytes" where
  "read_frames 0 s = Ok ([], s)"
| "read_frames (Suc n) s =
     bind_result (read_frame s) (\<lambda>(f, r). bind_result (read_frames n r) (\<lambda>(fs, r'). Ok (f # fs, r')))"

definition write_msg :: "(json \<Rightarrow> bytes option) \<Rightarrow> json \<Rightarrow> u8 \<Rightarrow> msg_error + bytes" where
  "write_msg to_vec m tb = (case to_vec m of None \<Rightarrow> Err BadJson | Some body \<Rightarrow> write_frame tb body)"

definition read_typed ::
  "(bytes \<Rightarrow> json option) \<Rightarrow> (json \<Rightarrow> 'a option) \<Rightarrow> bytes \<Rightarrow> msg_error + 'a \<times> bytes" where
  "read_typed from_slice de s =
     bind_result (read_frame s) (\<lambda>((_, body), rest).
       case Option.bind (from_slice body) de of None \<Rightarrow> Err BadJson | Some m \<Rightarrow> Ok (m, rest))"

definition parse_as :: "(bytes \<Rightarrow> json option) \<Rightarrow> (json \<Rightarrow> 'a option) \<Rightarrow> ('a \<Rightarrow> message) \<Rightarrow> bytes \<Rightarrow> msg_error + message" where
  "parse_as from_slice de mk body =
     (case Option.bind (from_slice body) de of None \<Rightarrow> Err BadJson | Some m \<Rightarrow> Ok (mk m))"

definition decode :: "(bytes \<Rightarrow> json option) \<Rightarrow> u8 \<Rightarrow> bytes \<Rightarrow> msg_error + message" where
  "decode from_slice tb body =
     (if tb = TYPE_LOGIN then parse_as from_slice de_login MLogin body
      else if tb = TYPE_LOGIN_RESP then parse_as from_slice de_login_resp MLoginResp body
      else if tb = TYPE_NEW_PROXY then parse_as from_slice de_new_proxy MNewProxy body
      else if tb = TYPE_NEW_PROXY_RESP then parse_as from_slice de_new_proxy_resp MNewProxyResp body
      else if tb = TYPE_CLOSE_PROXY then parse_as from_slice de_close_proxy MCloseProxy body
      else if tb = TYPE_NEW_WORK_CONN then parse_as from_slice de_new_work_conn MNewWorkConn body
      else if tb = TYPE_REQ_WORK_CONN then parse_as from_slice de_req_work_conn (\<lambda>_. MReqWorkConn) body
      else if tb = TYPE_START_WORK_CONN then parse_as from_slice de_start_work_conn MStartWorkConn body
      else if tb = TYPE_PING then parse_as from_slice de_ping MPing body
      else if tb = TYPE_PONG then parse_as from_slice de_pong MPong body
      else if tb = TYPE_UDP_PACKET then parse_as from_slice de_udp_packet MUdpPacket body
      else Err (UnknownType tb))"

definition is_known_type :: "u8 \<Rightarrow> bool" where
  "is_known_type tb \<longleftrightarrow> tb \<in> set
     [TYPE_LOGIN, TYPE_LOGIN_RESP, TYPE_NEW_PROXY, TYPE_NEW_PROXY_RESP, TYPE_CLOSE_PROXY,
      TYPE_NEW_WORK_CONN, TYPE_REQ_WORK_CONN, TYPE_START_WORK_CONN, TYPE_NEW_VISITOR_CONN,
      TYPE_NEW_VISITOR_CONN_RESP, TYPE_PING, TYPE_PONG, TYPE_UDP_PACKET]"

section \<open>The authentication key\<close>

definition hex_digit :: "nat \<Rightarrow> char" where
  "hex_digit d = (if d < 10 then char_of (48 + d) else char_of (87 + d))"

definition hex_lower :: "bytes \<Rightarrow> string" where
  "hex_lower bs = concat (map (\<lambda>b. [hex_digit (unat b div 16), hex_digit (unat b mod 16)]) bs)"

definition auth_key :: "(bytes \<Rightarrow> bytes) \<Rightarrow> string \<Rightarrow> int \<Rightarrow> string" where
  "auth_key md5 token timestamp = hex_lower (md5 (bytes_of token @ bytes_of (dec_string_int timestamp)))"

section \<open>Datagrams\<close>

text \<open>A socket address as its IP address and port; \<open>'ip\<close> is the type of IP addresses.\<close>

definition udp_content :: "(string \<Rightarrow> bytes option) \<Rightarrow> udp_packet \<Rightarrow> msg_error + bytes" where
  "udp_content b64_decode p = (case b64_decode (up_content_b64 p) of None \<Rightarrow> Err BadBase64 | Some c \<Rightarrow> Ok c)"

definition addr_json :: "('ip \<Rightarrow> string) \<Rightarrow> 'ip \<times> nat \<Rightarrow> udp_addr_json" where
  "addr_json ip_text a = \<lparr> ua_ip = Some (ip_text (fst a)), ua_port = snd a, ua_zone = [] \<rparr>"

definition udp_from_content ::
  "(bytes \<Rightarrow> string) \<Rightarrow> ('ip \<Rightarrow> string) \<Rightarrow> bytes \<Rightarrow> ('ip \<times> nat) option \<Rightarrow> 'ip \<times> nat \<Rightarrow> udp_packet" where
  "udp_from_content b64_encode ip_text content local remote =
     \<lparr> up_content_b64 = b64_encode content,
       up_local_addr = map_option (addr_json ip_text) local,
       up_remote_addr = Some (addr_json ip_text remote) \<rparr>"

definition remote_socket_addr :: "(string \<Rightarrow> 'ip option) \<Rightarrow> udp_packet \<Rightarrow> ('ip \<times> nat) option" where
  "remote_socket_addr ip_parse p = do {
     r \<leftarrow> up_remote_addr p;
     s \<leftarrow> ua_ip r;
     ip \<leftarrow> ip_parse s;
     Some (ip, ua_port r) }"

section \<open>The framing is exact\<close>

lemma i64_to_be_length [simp]: "length (i64_to_be i) = 8"
  by (simp add: i64_to_be_def)

lemma i64_roundtrip:
  assumes "- (2 ^ 63) \<le> i" "i < 2 ^ 63"
  shows "i64_from_be (i64_to_be i) = i"
proof -
  have "unat (of_int i :: 64 word) < 256 ^ 8"
    using unsigned_less [of "of_int i :: 64 word", where 'a = nat] by simp
  then have "be_decode (i64_to_be i) = unat (of_int i :: 64 word)"
    by (simp add: i64_to_be_def codec_simps)
  then show ?thesis
    using assms by (simp add: i64_from_be_def signed_of_int signed_take_bit_int_eq_self)
qed

lemma i64_to_from_be:
  assumes "length lb = 8"
  shows "i64_to_be (i64_from_be lb) = lb"
proof -
  have "be_decode lb < 2 ^ 64" using be_decode_bound [of lb] assms by simp
  then have "unat (of_nat (be_decode lb) :: 64 word) = be_decode lb"
    by (simp add: unat_of_nat)
  then have "i64_to_be (i64_from_be lb) = be_encode (length lb) (be_decode lb)"
    by (simp add: i64_to_be_def i64_from_be_def assms)
  then show ?thesis by (simp add: codec_simps)
qed

lemma read_exact_append: "length a = n \<Longrightarrow> read_exact n (a @ s) = Ok (a, s)"
  by (simp add: read_exact_def)

lemma read_exact_ok_iff: "read_exact n s = Ok (a, r) \<longleftrightarrow> s = a @ r \<and> length a = n"
  by (auto simp: read_exact_def)

lemma read_frame_write_frame:
  assumes "write_frame tb body = Ok w"
  shows "read_frame (w @ rest) = Ok ((tb, body), rest)"
proof -
  have len: "int (length body) \<le> 10240"
    and w: "w @ rest = [tb] @ (i64_to_be (int (length body)) @ (body @ rest))"
    using assms by (auto simp: write_frame_def MAX_MSG_LEN_def split: if_splits)
  have "i64_from_be (i64_to_be (int (length body))) = int (length body)"
    using len by (intro i64_roundtrip) simp_all
  moreover have "read_exact 1 ([tb] @ x) = Ok ([tb], x)" for x
    by (rule read_exact_append) simp
  moreover have "read_exact 8 (i64_to_be (int (length body)) @ x) = Ok (i64_to_be (int (length body)), x)" for x
    by (rule read_exact_append) simp
  ultimately show ?thesis
    unfolding read_frame_def w
    using len by (simp add: read_exact_append MAX_MSG_LEN_def Let_def)
qed

lemma write_frame_read_frame:
  assumes "read_frame s = Ok ((tb, body), rest)"
  shows "\<exists>w. write_frame tb body = Ok w \<and> s = w @ rest \<and> length w = 9 + length body"
proof -
  obtain t1 lb s1 s2 where s: "s = t1 @ s1" "length t1 = 1" "s1 = lb @ s2" "length lb = 8"
    and n: "0 \<le> i64_from_be lb" "i64_from_be lb \<le> MAX_MSG_LEN"
    and b: "s2 = body @ rest" "length body = nat (i64_from_be lb)" "tb = hd t1"
    using assms
    by (auto simp: read_frame_def bind_result_ok_iff read_exact_ok_iff Let_def split: if_splits)
  from s(2) b(3) have "t1 = [tb]" by (cases t1) auto
  moreover have "i64_to_be (int (length body)) = lb"
    using n(1) b(2) i64_to_from_be [OF s(4)] by simp
  ultimately show ?thesis
    using s b n by (simp add: write_frame_def)
qed

lemma write_frame_total: "length body \<le> 10240 \<Longrightarrow> \<exists>w. write_frame tb body = Ok w"
  by (auto simp: write_frame_def MAX_MSG_LEN_def)

definition frame_ok :: "u8 \<times> bytes \<Rightarrow> bool" where
  "frame_ok f \<longleftrightarrow> length (snd f) \<le> 10240"

definition enc_frame :: "u8 \<times> bytes \<Rightarrow> bytes" where
  "enc_frame f = (case write_frame (fst f) (snd f) of Inr w \<Rightarrow> w | Inl _ \<Rightarrow> [])"

definition dec_frame :: "bytes \<Rightarrow> ((u8 \<times> bytes) \<times> bytes) option" where
  "dec_frame s = (case read_frame s of Inr x \<Rightarrow> Some x | Inl _ \<Rightarrow> None)"

lemma frame_okE: "frame_ok f \<Longrightarrow> write_frame (fst f) (snd f) = Ok (enc_frame f)"
  by (auto simp: frame_ok_def enc_frame_def dest!: write_frame_total [where tb = "fst f"])

interpretation frp: frame_codec frame_ok enc_frame dec_frame
proof unfold_locales
  fix f :: "u8 \<times> bytes" and rest :: bytes
  assume "frame_ok f"
  then show "dec_frame (enc_frame f @ rest) = Some (f, rest)"
    using read_frame_write_frame [OF frame_okE] by (simp add: dec_frame_def)
next
  show "dec_frame [] = None" by (simp add: dec_frame_def read_frame_def read_exact_def)
qed

lemma write_frames_ok:
  "write_frames fs = Ok s \<Longrightarrow> list_all frame_ok fs \<and> s = concat (map enc_frame fs)"
proof (induction fs arbitrary: s rule: write_frames.induct)
  case (2 tb body fs)
  from "2.prems" obtain w ws where w: "write_frame tb body = Ok w" "write_frames fs = Ok ws" "s = w @ ws"
    by (auto simp: bind_result_ok_iff)
  moreover from w(1) have "frame_ok (tb, body)"
    by (auto simp: write_frame_def frame_ok_def MAX_MSG_LEN_def split: if_splits)
  ultimately show ?case
    using "2.IH" [OF w(2)] frame_okE [of "(tb, body)"] by simp
qed simp

lemma read_frames_dec_n: "frp.dec_n n s = Some x \<Longrightarrow> read_frames n s = Ok x"
proof (induction n arbitrary: s x)
  case (Suc n)
  then obtain f r fs r' where f: "dec_frame s = Some (f, r)" "frp.dec_n n r = Some (fs, r')" "x = (f # fs, r')"
    by (auto split: option.splits)
  then have "read_frame s = Ok (f, r)" by (simp add: dec_frame_def split: sum.splits)
  with Suc.IH [OF f(2)] f(3) show ?case by simp
qed simp

section \<open>Messages read back\<close>

definition i64 :: "int \<Rightarrow> bool" where
  "i64 i \<longleftrightarrow> - (2 ^ 63) \<le> i \<and> i < 2 ^ 63"

definition map_ok :: "(string \<times> string) list option \<Rightarrow> bool" where
  "map_ok m \<longleftrightarrow> (case m of None \<Rightarrow> True | Some kvs \<Rightarrow> distinct (map fst kvs))"

fun addr_ok :: "udp_addr_json option \<Rightarrow> bool" where
  "addr_ok None = True"
| "addr_ok (Some a) = (ua_port a < 2 ^ 16)"

text \<open>The ranges of the Rust field types, and distinct keys in a \<open>HashMap\<close>.\<close>

fun wf_message :: "message \<Rightarrow> bool" where
  "wf_message (MLogin m) \<longleftrightarrow> i64 (lg_timestamp m) \<and> i64 (lg_pool_count m) \<and> map_ok (lg_metas m)"
| "wf_message (MNewProxy m) \<longleftrightarrow> i64 (np_remote_port m) \<and> map_ok (np_metas m) \<and> map_ok (np_annotations m)"
| "wf_message (MNewWorkConn m) \<longleftrightarrow> i64 (nw_timestamp m)"
| "wf_message (MStartWorkConn m) \<longleftrightarrow> sw_src_port m < 2 ^ 16 \<and> sw_dst_port m < 2 ^ 16"
| "wf_message (MPing m) \<longleftrightarrow> i64 (pi_timestamp m)"
| "wf_message (MUdpPacket m) \<longleftrightarrow> addr_ok (up_local_addr m) \<and> addr_ok (up_remote_addr m)"
| "wf_message _ \<longleftrightarrow> True"

lemma one_of_i64 [serde_simps]: "i64 i \<Longrightarrow> one_of (de_signed 64) 0 (ser_int k i) = Some i"
  by (auto simp: i64_def one_of_ser_basic(3))

lemma one_of_u16 [serde_simps]: "n < 65536 \<Longrightarrow> one_of (de_unsigned 16) 0 (ser_int k (int n)) = Some n"
  using one_of_ser_basic(4) [of n 16 k] by simp

lemma one_of_map [serde_simps]: "map_ok m \<Longrightarrow> one_of (de_opt de_map) None (ser_opt k json_of_map m) = Some m"
  by (rule one_of_ser_opt) (auto simp: map_ok_def serde_simps)

lemma one_of_strs [serde_simps]: "one_of (de_opt de_strs) None (ser_opt k json_of_strs m) = Some m"
  by (rule one_of_ser_opt) (auto simp: serde_simps)

lemma one_of_str_opt [serde_simps]: "one_of (de_opt de_str) None (ser_opt k JStr m) = Some m"
  by (rule one_of_ser_opt) auto

lemma de_client_spec_ser [serde_simps]: "de_client_spec (ser_client_spec c) = Some c"
  by (simp add: de_client_spec_def ser_client_spec_def de_field_def serde_simps)

lemma one_of_client_spec [serde_simps]:
  "one_of (de_opt de_client_spec) None (ser_opt k ser_client_spec m) = Some m"
  by (rule one_of_ser_opt) (simp_all add: serde_simps, simp add: ser_client_spec_def)

lemma de_udp_addr_ser: "ua_port a < 2 ^ 16 \<Longrightarrow> de_udp_addr (ser_udp_addr a) = Some a"
  by (simp add: de_udp_addr_def ser_udp_addr_def de_field_def serde_simps)

lemma one_of_udp_addr [serde_simps]:
  "addr_ok a \<Longrightarrow> one_of (de_opt de_udp_addr) None (ser_opt k ser_udp_addr a) = Some a"
  by (rule one_of_ser_opt) (auto simp: de_udp_addr_ser, simp add: ser_udp_addr_def)

lemmas de_ser_defs = de_field_def de_login_resp_def ser_login_resp_def de_new_proxy_resp_def
  ser_new_proxy_resp_def de_close_proxy_def ser_close_proxy_def de_new_work_conn_def
  ser_new_work_conn_def de_req_work_conn_def ser_req_work_conn_def de_start_work_conn_def
  ser_start_work_conn_def de_ping_def ser_ping_def de_pong_def ser_pong_def
  de_udp_packet_def ser_udp_packet_def

lemma de_login_ser [serde_simps]: "wf_message (MLogin m) \<Longrightarrow> de_login (ser_login m) = Some m"
  by (simp add: de_login_def ser_login_def de_field_def serde_simps)

lemma de_new_proxy_ser [serde_simps]: "wf_message (MNewProxy m) \<Longrightarrow> de_new_proxy (ser_new_proxy m) = Some m"
  by (simp add: de_new_proxy_def ser_new_proxy_def de_field_def serde_simps)

lemma decode_ser_message:
  assumes "wf_message m" "from_slice body = Some (ser_message m)"
  shows "decode from_slice (type_byte m) body = Ok m"
  using assms
  by (cases m) (simp_all add: decode_def parse_as_def type_bytes serde_simps de_ser_defs)

lemma parse_as_unknown [simp]: "parse_as from_slice de mk body \<noteq> Err (UnknownType tb)"
  by (simp add: parse_as_def split: option.splits)

lemma hex_digit_inj: "a < 16 \<Longrightarrow> b < 16 \<Longrightarrow> hex_digit a = hex_digit b \<Longrightarrow> a = b"
  by (auto simp: hex_digit_def split: if_splits)

lemma hex_lower_inj: "hex_lower a = hex_lower b \<Longrightarrow> a = b"
proof (induction a arbitrary: b)
  case Nil
  then show ?case by (cases b) (auto simp: hex_lower_def)
next
  case (Cons x xs)
  then obtain y ys where b: "b = y # ys" by (cases b) (auto simp: hex_lower_def)
  have bound: "unat x div 16 < 16" "unat y div 16 < 16"
    using byte_bound [of x] byte_bound [of y] by auto
  have "hex_digit (unat x div 16) = hex_digit (unat y div 16)"
    and "hex_digit (unat x mod 16) = hex_digit (unat y mod 16)"
    and tl: "hex_lower xs = hex_lower ys"
    using Cons.prems b by (auto simp: hex_lower_def)
  then have "unat x div 16 = unat y div 16" "unat x mod 16 = unat y mod 16"
    using hex_digit_inj bound by simp_all
  then have "unat x = unat y" by (metis div_mult_mod_eq)
  with Cons.IH [OF tl] b show ?case by (simp add: word_eq_iff_unsigned [where 'a = nat])
qed

lemma length_hex_lower [simp]: "length (hex_lower bs) = 2 * length bs"
  by (induction bs) (auto simp: hex_lower_def)

section \<open>Properties\<close>

text \<open>Any sequence of frames that the writer accepts is read back frame by frame,
  exactly, whatever bytes follow it on the stream: no frame borrows from or bleeds into
  its neighbours.\<close>

lemma frames_roundtrip:
  assumes "write_frames fs = Ok s"
  shows "read_frames (length fs) (s @ rest) = Ok (fs, rest)"
proof -
  from write_frames_ok [OF assms] have "frp.dec_n (length fs) (s @ rest) = Some (fs, rest)"
    by (simp add: frp.dec_n_stream)
  then show ?thesis by (rule read_frames_dec_n)
qed

lemma frames_roundtrip_example:
  "read_frames 2 ([0x68, 0, 0, 0, 0, 0, 0, 0, 2, 7, 9, 0x34, 0, 0, 0, 0, 0, 0, 0, 0] @ [1]) =
     Ok ([(TYPE_PING, [7, 9]), (TYPE_PONG, [])], [1])"
proof -
  have "write_frames [(TYPE_PING, [7, 9]), (TYPE_PONG, [])]
      = Ok [0x68, 0, 0, 0, 0, 0, 0, 0, 2, 7, 9, 0x34, 0, 0, 0, 0, 0, 0, 0, 0]"
    by (simp add: write_frame_def MAX_MSG_LEN_def type_bytes i64_to_be_def be_encode_numeral)
  from frames_roundtrip [OF this, of "[1]"] show ?thesis by (simp add: numeral_2_eq_2)
qed

text \<open>A frame the reader accepts has a body of at most 10240 bytes and is exactly what the
  writer would have produced for it: the reader consumed that many bytes and no other
  encoding of the same frame exists.\<close>

lemma read_frame_canonical:
  assumes "read_frame s = Ok ((tb, body), rest)"
  shows "length body \<le> 10240 \<and>
    (\<exists>w. write_frame tb body = Ok w \<and> s = w @ rest \<and> length w = 9 + length body)"
proof -
  obtain w where w: "write_frame tb body = Ok w" "s = w @ rest" "length w = 9 + length body"
    using write_frame_read_frame [OF assms] by blast
  from w(1) have "length body \<le> 10240"
    by (simp add: write_frame_def MAX_MSG_LEN_def split: if_splits)
  with w show ?thesis by blast
qed

lemma read_frame_canonical_example:
  "length [7 :: u8, 9] \<le> 10240 \<and>
    (\<exists>w. write_frame TYPE_PING [7, 9] = Ok w \<and> [0x68, 0, 0, 0, 0, 0, 0, 0, 2, 7, 9, 5] = w @ [5]
         \<and> length w = 9 + length [7 :: u8, 9])"
  by (rule read_frame_canonical)
     (simp add: read_frame_def read_exact_def i64_from_be_def be_decode_def type_bytes MAX_MSG_LEN_def Let_def)

text \<open>A length field that reads as negative or above 10240 is refused before any of the
  body is taken from the stream.\<close>

lemma read_frame_bad_length:
  assumes "length lb = 8" "i64_from_be lb < 0 \<or> 10240 < i64_from_be lb"
  shows "read_frame (tb # lb @ rest) = Err (LengthOutOfRange (i64_from_be lb))"
  using assms
  by (auto simp: read_frame_def read_exact_def MAX_MSG_LEN_def Let_def)

lemma read_frame_bad_length_example:
  "read_frame (TYPE_LOGIN # [255, 0, 0, 0, 0, 0, 0, 0] @ [1, 2])
     = Err (LengthOutOfRange (i64_from_be [255, 0, 0, 0, 0, 0, 0, 0]))"
  by (rule read_frame_bad_length) (simp_all add: i64_from_be_def be_decode_def)

text \<open>
  C19: every message of the protocol survives the wire: written under its type byte with
  empty, zero and absent fields left out, read back from the stream and decoded, it is the
  same message, given that the JSON text codec reads back the document it wrote.
\<close>

theorem message_roundtrip:
  assumes "wf_message m"
    and "from_slice body = Some (ser_message m)" "to_vec (ser_message m) = Some body"
    and "write_msg to_vec (ser_message m) (type_byte m) = Ok w"
  shows "bind_result (read_frame (w @ rest)) (\<lambda>((tb, b), r). bind_result (decode from_slice tb b) (\<lambda>m'. Ok (m', r)))
           = Ok (m, rest)"
proof -
  from assms(3,4) have "write_frame (type_byte m) body = Ok w" by (simp add: write_msg_def)
  then have "read_frame (w @ rest) = Ok ((type_byte m, body), rest)" by (rule read_frame_write_frame)
  then show ?thesis using decode_ser_message [where from_slice = from_slice and body = body, OF assms(1,2)] by simp
qed

definition login_example :: login where
  "login_example = \<lparr> lg_version = ''0.61.0'', lg_hostname = [], lg_os = ''openbsd'', lg_arch = ''amd64'',
     lg_user = [], lg_privilege_key = ''ab'', lg_timestamp = 1700000000, lg_run_id = [], lg_client_id = [],
     lg_metas = Some [(''k'', ''v'')], lg_client_spec = None, lg_pool_count = 1 \<rparr>"

theorem message_roundtrip_witness:
  "bind_result (read_frame ([0x6F, 0, 0, 0, 0, 0, 0, 0, 1, 42] @ [9]))
     (\<lambda>((tb, b), r). bind_result (decode (\<lambda>b. if b = [42] then Some (ser_message (MLogin login_example)) else None) tb b)
        (\<lambda>m'. Ok (m', r)))
   = Ok (MLogin login_example, [9])"
  by (rule message_roundtrip [where to_vec = "\<lambda>j. Some [42]" and body = "[42]"])
     (simp_all add: login_example_def i64_def map_ok_def write_msg_def write_frame_def MAX_MSG_LEN_def
        type_bytes i64_to_be_def be_encode_numeral)

text \<open>\<open>decode\<close> and \<open>is_known_type\<close> divide the type bytes as the control loops need it: a
  byte outside the protocol is an unknown-type error, the two visitor types are known to
  the protocol but have no message here, and every other known type fails only for a body
  that is not the JSON of its message.\<close>

lemma decode_unknown_iff:
  "decode from_slice tb body = Err (UnknownType tb') \<longleftrightarrow>
     tb' = tb \<and> tb \<in> {b. \<not> is_known_type b} \<union> {TYPE_NEW_VISITOR_CONN, TYPE_NEW_VISITOR_CONN_RESP}"
proof (cases "is_known_type tb")
  case True
  then show ?thesis unfolding is_known_type_def
    by (elim set_ConsD [THEN disjE]) (simp_all add: decode_def type_bytes)
next
  case False
  then show ?thesis by (auto simp: is_known_type_def decode_def)
qed

text \<open>The privilege key separates tokens and timestamps as far as the digest does: equal
  keys mean equal digests of the concatenated token and decimal timestamp, and the key is
  twice the digest's length.\<close>

lemma auth_key_digest:
  "(auth_key md5 t1 s1 = auth_key md5 t2 s2 \<longleftrightarrow>
      md5 (bytes_of (t1 @ dec_string_int s1)) = md5 (bytes_of (t2 @ dec_string_int s2)))
   \<and> length (auth_key md5 t1 s1) = 2 * length (md5 (bytes_of (t1 @ dec_string_int s1)))"
  by (auto simp: auth_key_def dest: hex_lower_inj)

text \<open>A datagram packed for the peer is unpacked to the same payload and the same remote
  address, given that base64 and the textual IP form read back what they wrote.\<close>

lemma udp_packet_roundtrip:
  assumes "b64_decode (b64_encode content) = Some content" "ip_parse (ip_text (fst remote)) = Some (fst remote)"
    and "snd remote < 2 ^ 16"
  shows "(case de_udp_packet (ser_udp_packet (udp_from_content b64_encode ip_text content None remote)) of
            None \<Rightarrow> False
          | Some p \<Rightarrow> udp_content b64_decode p = Ok content \<and> remote_socket_addr ip_parse p = Some remote)"
  using assms
  by (simp add: de_udp_packet_def ser_udp_packet_def de_field_def serde_simps udp_from_content_def
      addr_json_def udp_content_def remote_socket_addr_def del: ser_opt.simps)

lemma udp_packet_roundtrip_example:
  "(case de_udp_packet (ser_udp_packet (udp_from_content string_of (\<lambda>ip. dec_string ip) [65, 66] None (7, 53))) of
            None \<Rightarrow> False
          | Some p \<Rightarrow> udp_content (\<lambda>s. Some (bytes_of s)) p = Ok [65, 66]
              \<and> remote_socket_addr (parse_unsigned 32) p = Some (7, 53))"
  by (rule udp_packet_roundtrip) simp_all

end
