(* ===== verification/Frpc_Client.thy ===== *)
theory Frpc_Client
  imports Msg FrpcConfig
begin

text \<open>
  The frp client at run time (\<open>remgr-frps/src/client.rs\<close>): the registry of published proxies
  with their counters, starting and stopping, the reconnecting supervisor with its backoff,
  and one control session from the login through registration to the control loop. Runtime
  entries are shared between the registry and live sessions, so they live in a store and
  both sides hold indices into it. Connecting, TLS, yamux and copying user traffic are not
  part of the model; time and the outcomes of sends are inputs.
\<close>

section \<open>Constants\<close>

definition FRPC_VERSION :: string where "FRPC_VERSION = ''0.71.0''"
definition HEARTBEAT_TIMEOUT :: nat where "HEARTBEAT_TIMEOUT = 90"
definition PROXY_RESPONSE_TIMEOUT :: nat where "PROXY_RESPONSE_TIMEOUT = 20"
definition INITIAL_BACKOFF :: nat where "INITIAL_BACKOFF = 1"
definition MAX_BACKOFF :: nat where "MAX_BACKOFF = 30"
definition AUTH_FAILED_BACKOFF :: nat where "AUTH_FAILED_BACKOFF = 30"
definition MAX_WORK_CONNS :: nat where "MAX_WORK_CONNS = 500"

lemmas client_consts = HEARTBEAT_TIMEOUT_def PROXY_RESPONSE_TIMEOUT_def INITIAL_BACKOFF_def
  MAX_BACKOFF_def AUTH_FAILED_BACKOFF_def MAX_WORK_CONNS_def

section \<open>Proxies at run time\<close>

record proxy_meta =
  pm_state :: string
  pm_remote_addr :: string
  pm_error :: string

record proxy_runtime =
  pr_cfg :: frpc_proxy_config
  pr_meta :: proxy_meta
  pr_conns_total :: u64
  pr_bytes_in :: u64
  pr_bytes_out :: u64

definition runtime_new :: "frpc_proxy_config \<Rightarrow> proxy_runtime" where
  "runtime_new cfg = \<lparr> pr_cfg = cfg, pr_meta = \<lparr> pm_state = ''idle'', pm_remote_addr = [], pm_error = [] \<rparr>,
     pr_conns_total = 0, pr_bytes_in = 0, pr_bytes_out = 0 \<rparr>"

definition runtime_set :: "string \<Rightarrow> string option \<Rightarrow> string \<Rightarrow> proxy_runtime \<Rightarrow> proxy_runtime" where
  "runtime_set st remote_addr err rt =
     rt\<lparr>pr_meta := \<lparr> pm_state = st,
        pm_remote_addr = (case remote_addr of Some a \<Rightarrow> a | None \<Rightarrow> pm_remote_addr (pr_meta rt)),
        pm_error = err \<rparr>\<rparr>"

record proxy_status =
  ps_name :: string
  ps_type :: string
  ps_state :: string
  ps_local_addr :: string
  ps_remote_port :: nat
  ps_remote_addr :: string
  ps_error :: string
  ps_conns_total :: u64
  ps_bytes_in :: u64
  ps_bytes_out :: u64

definition runtime_snapshot :: "proxy_runtime \<Rightarrow> proxy_status" where
  "runtime_snapshot rt = \<lparr> ps_name = pc_name (pr_cfg rt), ps_type = pc_type (pr_cfg rt),
     ps_state = pm_state (pr_meta rt), ps_local_addr = local_addr (pr_cfg rt),
     ps_remote_port = pc_remote_port (pr_cfg rt), ps_remote_addr = pm_remote_addr (pr_meta rt),
     ps_error = pm_error (pr_meta rt), ps_conns_total = pr_conns_total rt,
     ps_bytes_in = pr_bytes_in rt, ps_bytes_out = pr_bytes_out rt \<rparr>"

section \<open>Shared state\<close>

record client_shared =
  sh_cfg :: frpc_config
  sh_running :: bool
  sh_connected :: bool
  sh_session_started :: "nat option"
  sh_last_error :: string
  sh_proxies :: "(string \<times> nat) list"
  sh_store :: "proxy_runtime list"
  sh_bytes_in :: u64
  sh_bytes_out :: u64
  sh_total_logins :: u64
  sh_total_work_conns :: u64
  sh_last_run_id :: string
  sh_cfg_gen :: nat
  sh_work_permits :: nat

text \<open>The entry a new configuration's proxy gets: the old one if its definition is the same.\<close>

definition keeps_runtime :: "proxy_runtime \<Rightarrow> frpc_proxy_config \<Rightarrow> bool" where
  "keeps_runtime old p \<longleftrightarrow> pc_type (pr_cfg old) = pc_type p \<and> pc_local_ip (pr_cfg old) = pc_local_ip p \<and>
     pc_local_port (pr_cfg old) = pc_local_port p \<and> pc_remote_port (pr_cfg old) = pc_remote_port p"

fun rebuild_from ::
  "(string \<times> nat) list \<Rightarrow> frpc_proxy_config list \<Rightarrow> (string \<times> nat) list \<Rightarrow> proxy_runtime list
     \<Rightarrow> (string \<times> nat) list \<times> proxy_runtime list" where
  "rebuild_from previous [] m store = (m, store)"
| "rebuild_from previous (p # ps) m store =
     (case map_of previous (pc_name p) of
        Some i \<Rightarrow>
          if keeps_runtime (store ! i) p then rebuild_from previous ps (AList.update (pc_name p) i m) store
          else rebuild_from previous ps (AList.update (pc_name p) (length store) m) (store @ [runtime_new p])
      | None \<Rightarrow> rebuild_from previous ps (AList.update (pc_name p) (length store) m) (store @ [runtime_new p]))"

definition rebuild_proxies :: "frpc_config \<Rightarrow> client_shared \<Rightarrow> client_shared" where
  "rebuild_proxies cfg s =
     (case rebuild_from (sh_proxies s) (fc_proxies cfg) [] (sh_store s) of
        (m, store) \<Rightarrow> s\<lparr>sh_proxies := m, sh_store := store\<rparr>)"

definition shared_new :: "frpc_config \<Rightarrow> client_shared" where
  "shared_new cfg = rebuild_proxies cfg \<lparr>
     sh_cfg = cfg, sh_running = False, sh_connected = False, sh_session_started = None,
     sh_last_error = [], sh_proxies = [], sh_store = [], sh_bytes_in = 0, sh_bytes_out = 0,
     sh_total_logins = 0, sh_total_work_conns = 0, sh_last_run_id = [], sh_cfg_gen = 0,
     sh_work_permits = MAX_WORK_CONNS \<rparr>"

definition set_error :: "string \<Rightarrow> client_shared \<Rightarrow> client_shared" where
  "set_error e s = s\<lparr>sh_last_error := e\<rparr>"

definition set_connected :: "nat \<Rightarrow> bool \<Rightarrow> string \<Rightarrow> client_shared \<Rightarrow> client_shared" where
  "set_connected now connected run_id s =
     s\<lparr>sh_connected := connected, sh_session_started := (if connected then Some now else None),
       sh_last_run_id := (if connected \<and> run_id \<noteq> [] then run_id else sh_last_run_id s)\<rparr>"

definition set_runtime :: "nat \<Rightarrow> string \<Rightarrow> string option \<Rightarrow> string \<Rightarrow> client_shared \<Rightarrow> client_shared" where
  "set_runtime i st remote_addr err s =
     s\<lparr>sh_store := (sh_store s)[i := runtime_set st remote_addr err (sh_store s ! i)]\<rparr>"

definition mark_all_proxies_idle :: "client_shared \<Rightarrow> client_shared" where
  "mark_all_proxies_idle s = foldl (\<lambda>s i. set_runtime i ''idle'' None [] s) s (map snd (sh_proxies s))"

definition byte_counter_add :: "nat \<Rightarrow> nat \<Rightarrow> client_shared \<Rightarrow> client_shared" where
  "byte_counter_add i n s =
     s\<lparr>sh_store := (sh_store s)[i := (sh_store s ! i)\<lparr>pr_bytes_in := pr_bytes_in (sh_store s ! i) + of_nat n\<rparr>],
       sh_bytes_in := sh_bytes_in s + of_nat n\<rparr>"

section \<open>Starting, stopping, configuring\<close>

text \<open>A run handle: its token and whether its supervisor task has ended.\<close>

record client_run =
  cr_cancelled :: bool
  cr_finished :: bool

record frpc_client =
  cl_shared :: client_shared
  cl_run :: "client_run option"

definition client_new :: "frpc_config \<Rightarrow> frpc_client" where
  "client_new cfg = \<lparr> cl_shared = shared_new cfg, cl_run = None \<rparr>"

definition update_config :: "frpc_config \<Rightarrow> client_shared \<Rightarrow> client_shared" where
  "update_config cfg s =
     (if sh_cfg s = cfg then s
      else (rebuild_proxies cfg s)\<lparr>sh_cfg := cfg, sh_cfg_gen := sh_cfg_gen s + 1\<rparr>)"

definition client_update :: "frpc_config \<Rightarrow> frpc_client \<Rightarrow> frpc_client" where
  "client_update cfg c = c\<lparr>cl_shared := update_config cfg (cl_shared c)\<rparr>"

definition client_start :: "frpc_client \<Rightarrow> (frpc_error + unit) \<times> frpc_client" where
  "client_start c0 =
     (let c = (case cl_run c0 of Some h \<Rightarrow> if cr_finished h then c0\<lparr>cl_run := None\<rparr> else c0 | None \<Rightarrow> c0) in
      case cl_run c of
        Some _ \<Rightarrow> (Ok (), c)
      | None \<Rightarrow>
          (case frpc_validate (sh_cfg (cl_shared c)) of
             Inl e \<Rightarrow> (Err e, c)
           | Inr _ \<Rightarrow>
               (Ok (), c\<lparr>cl_shared := mark_all_proxies_idle ((cl_shared c)\<lparr>sh_running := True, sh_connected := False,
                     sh_session_started := None, sh_last_error := []\<rparr>),
                  cl_run := Some \<lparr> cr_cancelled = False, cr_finished = False \<rparr>\<rparr>)))"

definition client_stop :: "frpc_client \<Rightarrow> frpc_client" where
  "client_stop c =
     (let s = mark_all_proxies_idle (set_connected 0 False [] (cl_shared c))
      in c\<lparr>cl_run := None,
           cl_shared := s\<lparr>sh_running := False, sh_connected := False, sh_session_started := None\<rparr>\<rparr>)"

definition is_running :: "frpc_client \<Rightarrow> bool" where
  "is_running c = sh_running (cl_shared c)"

record frpc_status =
  fs_running :: bool
  fs_connected :: bool
  fs_upstream :: string
  fs_run_id :: string
  fs_tcp_mux :: bool
  fs_tls :: bool
  fs_token_set :: bool
  fs_session_uptime_secs :: nat
  fs_total_logins :: u64
  fs_total_work_conns :: u64
  fs_bytes_in :: u64
  fs_bytes_out :: u64
  fs_last_error :: string
  fs_proxies :: "proxy_status list"

fun name_le :: "string \<Rightarrow> string \<Rightarrow> bool" where
  "name_le [] _ = True"
| "name_le (_ # _) [] = False"
| "name_le (a # as) (b # bs) = ((of_char a :: nat) < of_char b \<or> (a = b \<and> name_le as bs))"

fun insert_status :: "proxy_status \<Rightarrow> proxy_status list \<Rightarrow> proxy_status list" where
  "insert_status p [] = [p]"
| "insert_status p (q # qs) = (if name_le (ps_name q) (ps_name p) then q # insert_status p qs else p # q # qs)"

definition client_status :: "nat \<Rightarrow> frpc_client \<Rightarrow> frpc_status" where
  "client_status now c =
     (let s = cl_shared c in \<lparr>
       fs_running = sh_running s, fs_connected = sh_connected s,
       fs_upstream = host_port (fc_server_addr (sh_cfg s)) (fc_server_port (sh_cfg s)),
       fs_run_id = sh_last_run_id s, fs_tcp_mux = fc_tcp_mux (sh_cfg s), fs_tls = fc_tls (sh_cfg s),
       fs_token_set = (fc_token (sh_cfg s) \<noteq> []),
       fs_session_uptime_secs = (case sh_session_started s of Some t \<Rightarrow> now - t | None \<Rightarrow> 0),
       fs_total_logins = sh_total_logins s, fs_total_work_conns = sh_total_work_conns s,
       fs_bytes_in = sh_bytes_in s, fs_bytes_out = sh_bytes_out s, fs_last_error = sh_last_error s,
       fs_proxies = foldl (\<lambda>ps (_, i). insert_status (runtime_snapshot (sh_store s ! i)) ps) [] (sh_proxies s) \<rparr>)"

section \<open>The supervisor\<close>

definition is_auth_failure :: "string \<Rightarrow> bool" where
  "is_auth_failure msg =
     (let m = to_ascii_lowercase msg in
      str_contains ''authentication failed'' m \<or> str_contains ''auth failed'' m \<or> str_contains ''token'' m)"

definition next_backoff :: "nat \<Rightarrow> nat \<Rightarrow> string \<Rightarrow> nat" where
  "next_backoff backoff elapsed msg =
     (if is_auth_failure msg then AUTH_FAILED_BACKOFF
      else if elapsed < 30 then min (backoff * 2) MAX_BACKOFF
      else INITIAL_BACKOFF)"

text \<open>One turn of the supervisor as the environment plays it: the session it runs (which may
  be cut short by cancellation), how long it took, whether the token is cancelled by then,
  and whether it is cancelled during the wait.\<close>

datatype session_end = EndOk | EndErr string

record sup_turn =
  st_cancelled :: bool
  st_run :: "frpc_config \<Rightarrow> client_shared \<Rightarrow> session_end option \<times> client_shared"
  st_elapsed :: nat
  st_cancelled_after :: bool
  st_cancelled_waiting :: bool
  st_render :: "frpc_error \<Rightarrow> string"

datatype sup_state = Supervising nat | Ended bool

text \<open>\<open>Ended cancelled\<close>: the loop is left; its last lines run unless the token was cancelled.\<close>

definition sup_exit :: "bool \<Rightarrow> client_shared \<Rightarrow> sup_state \<times> client_shared" where
  "sup_exit cancelled s =
     (Ended cancelled, if cancelled then s else mark_all_proxies_idle (set_connected 0 False [] s))"

definition sup_step :: "sup_turn \<Rightarrow> nat \<Rightarrow> client_shared \<Rightarrow> (sup_state \<times> client_shared) \<times> nat list" where
  "sup_step t backoff s0 =
     (if st_cancelled t then (sup_exit True s0, [])
      else
        (let cfg = sh_cfg s0 in
         case frpc_validate cfg of
           Inl e \<Rightarrow> (sup_exit False ((set_error (st_render t e) s0)\<lparr>sh_running := False\<rparr>), [])
         | Inr _ \<Rightarrow>
             (case st_run t cfg (set_connected 0 False [] (mark_all_proxies_idle s0)) of
                (None, s) \<Rightarrow> (sup_exit True s, [])
              | (Some EndOk, s) \<Rightarrow>
                  if st_cancelled_after t then (sup_exit True (set_connected 0 False [] s), [])
                  else ((Supervising INITIAL_BACKOFF, set_connected 0 False [] s), [])
              | (Some (EndErr msg), s) \<Rightarrow>
                  (let b = next_backoff backoff (st_elapsed t) msg;
                       s' = set_error msg (set_connected 0 False [] s)
                   in if st_cancelled_waiting t then (sup_exit True s', [b]) else ((Supervising b, s'), [b])))))"

fun supervise :: "sup_turn list \<Rightarrow> nat \<Rightarrow> client_shared \<Rightarrow> (sup_state \<times> client_shared) \<times> nat list" where
  "supervise [] backoff s = ((Supervising backoff, s), [])"
| "supervise (t # ts) backoff s =
     (case sup_step t backoff s of
        ((Ended c, s'), w) \<Rightarrow> ((Ended c, s'), w)
      | ((Supervising b, s'), w) \<Rightarrow>
          (case supervise ts b s' of (r, ws) \<Rightarrow> (r, w @ ws)))"

section \<open>One session\<close>

definition client_login :: "(bytes \<Rightarrow> bytes) \<Rightarrow> string \<times> string \<times> string \<Rightarrow> int \<Rightarrow> frpc_config \<Rightarrow> string \<Rightarrow> login" where
  "client_login md5 host_os_arch ts cfg run_id =
     (case host_os_arch of (hn, os, arch) \<Rightarrow>
       \<lparr> lg_version = FRPC_VERSION, lg_hostname = hn, lg_os = os, lg_arch = arch, lg_user = [],
         lg_privilege_key = auth_key md5 (fc_token cfg) ts, lg_timestamp = ts, lg_run_id = run_id,
         lg_client_id = [], lg_metas = None, lg_client_spec = None,
         lg_pool_count = int (fc_pool_count cfg) \<rparr>)"

datatype login_outcome = LoginError string | LoginIo | LoginNotResp u8 | LoginBadJson | LoggedIn string

text \<open>What the client makes of the first frame the upstream sends.\<close>

definition read_login_resp :: "(bytes \<Rightarrow> json option) \<Rightarrow> msg_error + u8 \<times> bytes \<Rightarrow> login_outcome" where
  "read_login_resp from_slice frame =
     (case frame of
        Inl _ \<Rightarrow> LoginIo
      | Inr (tb, body) \<Rightarrow>
          if tb \<noteq> TYPE_LOGIN_RESP then LoginNotResp tb
          else (case Option.bind (from_slice body) de_login_resp of
                  None \<Rightarrow> LoginBadJson
                | Some r \<Rightarrow> if lr_error r \<noteq> [] then LoginError (lr_error r) else LoggedIn (lr_run_id r)))"

definition note_login :: "nat \<Rightarrow> string \<Rightarrow> client_shared \<Rightarrow> client_shared" where
  "note_login now run_id s = set_connected now True run_id (s\<lparr>sh_total_logins := sh_total_logins s + 1\<rparr>)"

record session =
  se_proxies :: "(string \<times> nat) list"
  se_pending :: "(string \<times> nat) list"
  se_last_pong :: nat
  se_spawned :: nat
  se_sent :: "message list"

definition session_new :: "nat \<Rightarrow> client_shared \<Rightarrow> session" where
  "session_new now s = \<lparr> se_proxies = sh_proxies s, se_pending = [], se_last_pong = now, se_spawned = 0, se_sent = [] \<rparr>"

definition default_new_proxy :: new_proxy where
  "default_new_proxy = \<lparr> np_proxy_name = [], np_proxy_type = [], np_use_encryption = False,
     np_use_compression = False, np_bandwidth_limit = [], np_bandwidth_limit_mode = [], np_group = [],
     np_group_key = [], np_metas = None, np_annotations = None, np_remote_port = 0,
     np_custom_domains = None, np_subdomain = [], np_sk = [], np_multiplexer = [] \<rparr>"

definition client_new_proxy :: "frpc_proxy_config \<Rightarrow> new_proxy" where
  "client_new_proxy p = default_new_proxy\<lparr>np_proxy_name := pc_name p, np_proxy_type := pc_type p,
     np_remote_port := int (pc_remote_port p)\<rparr>"

text \<open>Registering every proxy; \<open>sends_ok i\<close> is whether the \<open>i\<close>-th send succeeds.\<close>

fun register_proxies ::
  "(nat \<Rightarrow> bool) \<Rightarrow> nat \<Rightarrow> nat \<Rightarrow> frpc_proxy_config list \<Rightarrow> session \<Rightarrow> client_shared
     \<Rightarrow> string option \<times> session \<times> client_shared" where
  "register_proxies sends_ok i deadline [] se s = (None, se, s)"
| "register_proxies sends_ok i deadline (p # ps) se s =
     (let s1 = (case map_of (se_proxies se) (pc_name p) of
                  Some k \<Rightarrow> set_runtime k ''waiting'' None [] s | None \<Rightarrow> s) in
      if \<not> sends_ok i then (Some (pc_name p), se, s1)
      else register_proxies sends_ok (i + 1) deadline ps
             (se\<lparr>se_pending := AList.update (pc_name p) deadline (se_pending se),
                 se_sent := se_sent se @ [MNewProxy (client_new_proxy p)]\<rparr>) s1)"

text \<open>The branches of the control loop. Times are seconds; a tick carries the time, the wall
  clock of its Ping and whether the send worked.\<close>

datatype sess_event =
    SCancelled
  | SConfigChanged
  | SClosed
  | SMessage nat message
  | STick nat int bool
  | SDeadline
  | SWorkDone

definition answer_proxy :: "new_proxy_resp \<Rightarrow> session \<Rightarrow> client_shared \<Rightarrow> session \<times> client_shared" where
  "answer_proxy r se s =
     (se\<lparr>se_pending := AList.delete (npr_proxy_name r) (se_pending se)\<rparr>,
      case map_of (se_proxies se) (npr_proxy_name r) of
        None \<Rightarrow> s
      | Some k \<Rightarrow>
          if npr_error r = [] then set_runtime k ''running'' (Some (npr_remote_addr r)) [] s
          else set_runtime k ''error'' None (npr_error r) s)"

definition request_work :: "session \<Rightarrow> client_shared \<Rightarrow> session \<times> client_shared" where
  "request_work se s =
     (let s1 = s\<lparr>sh_total_work_conns := sh_total_work_conns s + 1\<rparr> in
      if sh_work_permits s1 > 0
      then (se\<lparr>se_spawned := se_spawned se + 1\<rparr>, s1\<lparr>sh_work_permits := sh_work_permits s1 - 1\<rparr>)
      else (se, s1))"

definition fail_pending :: "session \<Rightarrow> client_shared \<Rightarrow> session \<times> client_shared" where
  "fail_pending se s =
     (se\<lparr>se_pending := []\<rparr>,
      foldl (\<lambda>s (nm, _). case map_of (se_proxies se) nm of
           Some k \<Rightarrow> set_runtime k ''error'' None ''no response from the upstream'' s | None \<Rightarrow> s) s (se_pending se))"

definition sess_step ::
  "(bytes \<Rightarrow> bytes) \<Rightarrow> frpc_config \<Rightarrow> sess_event \<Rightarrow> session \<Rightarrow> client_shared
     \<Rightarrow> session_end option \<times> session \<times> client_shared" where
  "sess_step md5 cfg ev se s =
     (case ev of
        SCancelled \<Rightarrow> (Some EndOk, se, s)
      | SConfigChanged \<Rightarrow> (Some EndOk, se, s)
      | SClosed \<Rightarrow> (Some (EndErr ''the upstream closed the control connection''), se, s)
      | SMessage now m \<Rightarrow>
          (case m of
             MNewProxyResp r \<Rightarrow> (None, answer_proxy r se s)
           | MReqWorkConn \<Rightarrow> (None, request_work se s)
           | MPong p \<Rightarrow>
               if po_error p = [] then (None, se\<lparr>se_last_pong := now\<rparr>, s)
               else (Some (EndErr (''upstream rejected our heartbeat: '' @ po_error p)), se, s)
           | _ \<Rightarrow> (None, se, s))
      | STick now ts sent \<Rightarrow>
          if fc_tcp_mux cfg then (None, se, s)
          else if \<not> sent then (Some (EndErr ''sending Ping failed''), se, s)
          else
            (let se1 = se\<lparr>se_sent := se_sent se @
                   [MPing \<lparr> pi_privilege_key = auth_key md5 (fc_token cfg) ts, pi_timestamp = ts \<rparr>]\<rparr> in
             if now - se_last_pong se1 > HEARTBEAT_TIMEOUT then (Some (EndErr ''no Pong for 90s''), se1, s)
             else (None, se1, s))
      | SDeadline \<Rightarrow> if se_pending se = [] then (None, se, s) else (None, fail_pending se s)
      | SWorkDone \<Rightarrow>
          if se_spawned se > 0
          then (None, se\<lparr>se_spawned := se_spawned se - 1\<rparr>, s\<lparr>sh_work_permits := sh_work_permits s + 1\<rparr>)
          else (None, se, s))"

fun sess_loop ::
  "(bytes \<Rightarrow> bytes) \<Rightarrow> frpc_config \<Rightarrow> sess_event list \<Rightarrow> session \<Rightarrow> client_shared
     \<Rightarrow> session_end option \<times> session \<times> client_shared" where
  "sess_loop md5 cfg [] se s = (None, se, s)"
| "sess_loop md5 cfg (ev # evs) se s =
     (case sess_step md5 cfg ev se s of
        (Some r, se', s') \<Rightarrow> (Some r, se', s')
      | (None, se', s') \<Rightarrow> sess_loop md5 cfg evs se' s')"

text \<open>The reader in front of the loop: frames it can decode are passed on, known types it
  cannot decode are skipped, an unknown type ends the stream. The client keeps a list of its own
  of the type bytes frp defines.\<close>

definition is_known_frame_type :: "u8 \<Rightarrow> bool" where
  "is_known_frame_type tb \<longleftrightarrow>
     tb = TYPE_LOGIN \<or> tb = TYPE_LOGIN_RESP \<or> tb = TYPE_NEW_PROXY \<or> tb = TYPE_NEW_PROXY_RESP \<or>
     tb = TYPE_CLOSE_PROXY \<or> tb = TYPE_NEW_WORK_CONN \<or> tb = TYPE_REQ_WORK_CONN \<or>
     tb = TYPE_START_WORK_CONN \<or> tb = TYPE_NEW_VISITOR_CONN \<or> tb = TYPE_NEW_VISITOR_CONN_RESP \<or>
     tb = TYPE_PING \<or> tb = TYPE_PONG \<or> tb = TYPE_UDP_PACKET"

fun client_reader :: "(bytes \<Rightarrow> json option) \<Rightarrow> (u8 \<times> bytes) list \<Rightarrow> message list" where
  "client_reader from_slice [] = []"
| "client_reader from_slice ((tb, body) # fs) =
     (case decode from_slice tb body of
        Inr m \<Rightarrow> m # client_reader from_slice fs
      | Inl _ \<Rightarrow> if is_known_frame_type tb then client_reader from_slice fs else [])"

text \<open>The end of a session: a session stopped from outside leaves the reported state alone.\<close>

definition session_teardown :: "bool \<Rightarrow> client_shared \<Rightarrow> client_shared" where
  "session_teardown stopped_from_outside s = (if stopped_from_outside then s else set_connected 0 False [] s)"

text \<open>The two halves of the repository agree on which type bytes frp defines.\<close>

lemma is_known_frame_type_server: "is_known_frame_type tb = is_known_type tb"
  by (simp add: is_known_frame_type_def is_known_type_def)

section \<open>The registry\<close>

text \<open>Every name has its own entry in the store, and the entry is that proxy's.\<close>

definition reg_inv :: "(string \<times> nat) list \<Rightarrow> proxy_runtime list \<Rightarrow> bool" where
  "reg_inv m store \<longleftrightarrow> distinct (map fst m) \<and>
     list_all (\<lambda>(nm, i). i < length store \<and> pc_name (pr_cfg (store ! i)) = nm) m"

lemma reg_inv_lookup:
  "reg_inv m store \<Longrightarrow> map_of m nm = Some i \<Longrightarrow> i < length store \<and> pc_name (pr_cfg (store ! i)) = nm"
  by (auto simp: reg_inv_def list_all_iff dest: map_of_SomeD)

lemma reg_inv_extend: "reg_inv m store \<Longrightarrow> reg_inv m (store @ xs)"
  by (auto simp: reg_inv_def list_all_iff nth_append)

lemma reg_inv_update:
  assumes "reg_inv m store" "i < length store" "pc_name (pr_cfg (store ! i)) = nm"
  shows "reg_inv (AList.update nm i m) store"
proof -
  have "set (AList.update nm i m) \<subseteq> insert (nm, i) (set m)"
    by (induction m) auto
  then show ?thesis
    using assms by (auto simp: reg_inv_def list_all_iff distinct_update dest!: subsetD)
qed

lemma keeps_runtime_eq: "keeps_runtime old p \<Longrightarrow> pc_name (pr_cfg old) = pc_name p \<Longrightarrow> pr_cfg old = p"
  by (simp add: keeps_runtime_def)

text \<open>The entry the rebuilt registry has for one proxy.\<close>

definition rebuilt_entry ::
  "(string \<times> nat) list \<Rightarrow> proxy_runtime list \<Rightarrow> frpc_proxy_config \<Rightarrow> proxy_runtime" where
  "rebuilt_entry previous store p =
     (case map_of previous (pc_name p) of
        Some i \<Rightarrow> if pr_cfg (store ! i) = p then store ! i else runtime_new p
      | None \<Rightarrow> runtime_new p)"

lemma rebuild_from_spec:
  assumes "rebuild_from previous ps m store = (m', store')" "reg_inv previous store0" "reg_inv m store"
    and "store0 = take (length store0) store" "distinct (map pc_name ps)"
    and "set (map pc_name ps) \<inter> fst ` set m = {}"
  shows "reg_inv m' store' \<and> (\<exists>ext. store' = store @ ext) \<and> fst ` set m' = fst ` set m \<union> pc_name ` set ps \<and>
     (\<forall>nm. nm \<notin> pc_name ` set ps \<longrightarrow> map_of m' nm = map_of m nm) \<and>
     (\<forall>p \<in> set ps. \<exists>i. map_of m' (pc_name p) = Some i \<and> store' ! i = rebuilt_entry previous store0 p \<and>
        (\<forall>j. map_of previous (pc_name p) = Some j \<and> pr_cfg (store0 ! j) = p \<longrightarrow> i = j))"
  using assms
proof (induction ps arbitrary: m store)
  case (Cons p ps)
  have le: "length store0 \<le> length store" using Cons.prems(4) by (metis length_take min.absorb_iff2 min.commute)
  have same: "store0 ! j = store ! j" if "j < length store0" for j
    using Cons.prems(4) that by (metis nth_take)
  define keep where "keep = (\<exists>j. map_of previous (pc_name p) = Some j \<and> pr_cfg (store0 ! j) = p)"
  define i where "i = (if keep then the (map_of previous (pc_name p)) else length store)"
  define store1 where "store1 = (if keep then store else store @ [runtime_new p])"
  have old: "j < length store0 \<and> pc_name (pr_cfg (store0 ! j)) = pc_name p" if "map_of previous (pc_name p) = Some j" for j
    using reg_inv_lookup [OF Cons.prems(2) that] .
  have keep_iff: "keeps_runtime (store ! j) p \<longleftrightarrow> pr_cfg (store0 ! j) = p" if "map_of previous (pc_name p) = Some j" for j
    using old [OF that] same [of j] keeps_runtime_eq [of "store0 ! j" p] by (auto simp: keeps_runtime_def)
  have rec: "rebuild_from previous ps (AList.update (pc_name p) i m) store1 = (m', store')"
    using Cons.prems(1) keep_iff
    by (auto simp: keep_def i_def store1_def split: option.splits if_splits)
  have i: "i < length store1" "store1 ! i = rebuilt_entry previous store0 p"
    using old same le
    by (auto simp: i_def store1_def keep_def rebuilt_entry_def nth_append split: option.splits)
  then have named: "pc_name (pr_cfg (store1 ! i)) = pc_name p"
    using old by (auto simp: rebuilt_entry_def runtime_new_def split: option.splits)
  have inv1: "reg_inv (AList.update (pc_name p) i m) store1"
    by (rule reg_inv_update) (use Cons.prems(3) i named reg_inv_extend in \<open>auto simp: store1_def\<close>)
  have take1: "store0 = take (length store0) store1" using Cons.prems(4) le by (simp add: store1_def)
  have upd: "fst ` set (AList.update (pc_name p) i m) = insert (pc_name p) (fst ` set m)"
    by (simp add: dom_update)
  have IH: "reg_inv m' store' \<and> (\<exists>ext. store' = store1 @ ext) \<and>
      fst ` set m' = fst ` set (AList.update (pc_name p) i m) \<union> pc_name ` set ps \<and>
      (\<forall>nm. nm \<notin> pc_name ` set ps \<longrightarrow> map_of m' nm = map_of (AList.update (pc_name p) i m) nm) \<and>
      (\<forall>p \<in> set ps. \<exists>i. map_of m' (pc_name p) = Some i \<and> store' ! i = rebuilt_entry previous store0 p \<and>
        (\<forall>j. map_of previous (pc_name p) = Some j \<and> pr_cfg (store0 ! j) = p \<longrightarrow> i = j))"
    by (rule Cons.IH [OF rec Cons.prems(2) inv1 take1]) (use Cons.prems(5,6) upd in auto)
  then obtain ext where ext: "store' = store1 @ ext" by blast
  have "map_of m' (pc_name p) = Some i" using IH Cons.prems(5) by (auto simp: update_conv')
  moreover have "store' ! i = rebuilt_entry previous store0 p" using i ext by (simp add: nth_append)
  moreover have "\<forall>j. map_of previous (pc_name p) = Some j \<and> pr_cfg (store0 ! j) = p \<longrightarrow> i = j"
    by (auto simp: i_def keep_def)
  ultimately show ?case
    using IH ext upd by (auto simp: store1_def update_conv')
qed auto

section \<open>The control loop\<close>

text \<open>While a session runs, a proxy it has registered is only waiting if its answer is pending.\<close>

definition waiting :: "client_shared \<Rightarrow> nat \<Rightarrow> bool" where
  "waiting s k \<longleftrightarrow> pm_state (pr_meta (sh_store s ! k)) = ''waiting''"

definition sess_inv :: "session \<Rightarrow> client_shared \<Rightarrow> bool" where
  "sess_inv se s \<longleftrightarrow> distinct (map fst (se_proxies se)) \<and> distinct (map snd (se_proxies se)) \<and>
     list_all (\<lambda>(nm, k). k < length (sh_store s) \<and> (waiting s k \<longrightarrow> nm \<in> fst ` set (se_pending se))) (se_proxies se)"

lemma length_set_runtime [simp]: "length (sh_store (set_runtime k st a e s)) = length (sh_store s)"
  by (simp add: set_runtime_def)

lemma waiting_set_runtime [simp]:
  "k < length (sh_store s) \<Longrightarrow> waiting (set_runtime k st a e s) k \<longleftrightarrow> st = ''waiting''"
  "j \<noteq> k \<Longrightarrow> waiting (set_runtime k st a e s) j \<longleftrightarrow> waiting s j"
  by (simp_all add: set_runtime_def waiting_def runtime_set_def)

lemma set_runtime_permits [simp]: "sh_work_permits (set_runtime k st a e s) = sh_work_permits s"
  by (simp add: set_runtime_def)

lemma snd_inj:
  "distinct (map snd m) \<Longrightarrow> (a, k) \<in> set m \<Longrightarrow> (b, k) \<in> set m \<Longrightarrow> a = b"
  by (induction m) (auto simp: rev_image_eqI)

lemma sess_invI:
  assumes "distinct (map fst (se_proxies se))" "distinct (map snd (se_proxies se))"
    and "\<And>nm k. (nm, k) \<in> set (se_proxies se) \<Longrightarrow> k < length (sh_store s)"
    and "\<And>nm k. (nm, k) \<in> set (se_proxies se) \<Longrightarrow> waiting s k \<Longrightarrow> nm \<in> fst ` set (se_pending se)"
  shows "sess_inv se s"
  using assms by (auto simp: sess_inv_def list_all_iff)

lemma sess_invD:
  assumes "sess_inv se s"
  shows "distinct (map fst (se_proxies se))" "distinct (map snd (se_proxies se))"
    and "(nm, k) \<in> set (se_proxies se) \<Longrightarrow> k < length (sh_store s)"
    and "(nm, k) \<in> set (se_proxies se) \<Longrightarrow> waiting s k \<Longrightarrow> nm \<in> fst ` set (se_pending se)"
  using assms by (auto simp: sess_inv_def list_all_iff)

lemma set_runtime_inv:
  assumes inv: "sess_inv se s" and k: "(nm, k) \<in> set (se_proxies se)"
    and st: "st = ''waiting'' \<Longrightarrow> nm \<in> fst ` set (se_pending se')"
    and same: "se_proxies se' = se_proxies se"
    and pend: "\<And>x. x \<noteq> nm \<Longrightarrow> x \<in> fst ` set (se_pending se) \<Longrightarrow> x \<in> fst ` set (se_pending se')"
  shows "sess_inv se' (set_runtime k st a e s)"
proof (rule sess_invI)
  fix x j
  assume xj: "(x, j) \<in> set (se_proxies se')" and w: "waiting (set_runtime k st a e s) j"
  show "x \<in> fst ` set (se_pending se')"
  proof (cases "j = k")
    case True
    then have "x = nm" using xj k same snd_inj [OF sess_invD(2) [OF inv]] by auto
    then show ?thesis using w st True sess_invD(3) [OF inv k] by simp
  next
    case False
    then have "waiting s j" using w by simp
    then have "x \<in> fst ` set (se_pending se)" using sess_invD(4) [OF inv] xj same by auto
    moreover have "x \<noteq> nm" using False xj k same sess_invD(1) [OF inv] by (auto dest: eq_key_imp_eq_value)
    ultimately show ?thesis by (rule pend [rotated])
  qed
qed (use inv same in \<open>auto simp: sess_inv_def list_all_iff\<close>)

lemma delete_dom: "fst ` set (AList.delete k m) = fst ` set m - {k}"
  by (induction m) auto

lemma answer_proxy_inv:
  assumes "sess_inv se s" "answer_proxy r se s = (se', s')"
  shows "sess_inv se' s'"
proof (cases "map_of (se_proxies se) (npr_proxy_name r)")
  case None
  then have "npr_proxy_name r \<notin> fst ` set (se_proxies se)" by (simp add: map_of_eq_None_iff)
  then have new: "(nm, k) \<in> set (se_proxies se) \<Longrightarrow> nm \<noteq> npr_proxy_name r" for nm k by force
  have "s' = s" "se' = se\<lparr>se_pending := AList.delete (npr_proxy_name r) (se_pending se)\<rparr>"
    using assms(2) None by (simp_all add: answer_proxy_def)
  then show ?thesis
    using sess_invD [OF assms(1)] new by (intro sess_invI) (simp_all add: delete_dom)
next
  case (Some k)
  then have k: "(npr_proxy_name r, k) \<in> set (se_proxies se)" by (rule map_of_SomeD)
  have se': "se' = se\<lparr>se_pending := AList.delete (npr_proxy_name r) (se_pending se)\<rparr>"
    using assms(2) by (simp add: answer_proxy_def)
  have "sess_inv se' (set_runtime k ''running'' (Some (npr_remote_addr r)) [] s)"
    by (rule set_runtime_inv [OF assms(1) k]) (simp_all add: se' delete_dom)
  moreover have "sess_inv se' (set_runtime k ''error'' None (npr_error r) s)"
    by (rule set_runtime_inv [OF assms(1) k]) (simp_all add: se' delete_dom)
  ultimately show ?thesis using assms(2) Some by (auto simp: answer_proxy_def split: if_splits)
qed

text \<open>Failing the pending proxies leaves no proxy of the session waiting.\<close>

lemma fail_fold_store:
  "length (sh_store (foldl (\<lambda>s (nm, _). case map_of m nm of
       Some k \<Rightarrow> set_runtime k ''error'' None e s | None \<Rightarrow> s) s ps)) = length (sh_store s)"
  by (induction ps arbitrary: s) (auto split: option.splits)

lemma fail_fold_waiting:
  assumes "\<And>nm k. map_of m nm = Some k \<Longrightarrow> k < length (sh_store s)"
  shows "waiting (foldl (\<lambda>s (nm, _). case map_of m nm of
       Some k \<Rightarrow> set_runtime k ''error'' None e s | None \<Rightarrow> s) s ps) j \<longleftrightarrow>
     waiting s j \<and> (\<nexists>nm. nm \<in> fst ` set ps \<and> map_of m nm = Some j)"
  using assms
proof (induction ps arbitrary: s)
  case (Cons p ps)
  obtain nm d where p: "p = (nm, d)" by (cases p)
  show ?case
  proof (cases "map_of m nm")
    case None
    then show ?thesis using Cons p by auto
  next
    case (Some k)
    then have "k < length (sh_store s)" using Cons.prems by auto
    then show ?thesis
      using Cons.IH [of "set_runtime k ''error'' None e s"] Cons.prems Some p by (cases "j = k") auto
  qed
qed simp

lemma fail_pending_none_waiting:
  assumes "sess_inv se s" "fail_pending se s = (se', s')"
  shows "(nm, k) \<in> set (se_proxies se') \<Longrightarrow> \<not> waiting s' k" and "sess_inv se' s'"
proof -
  have same: "se_proxies se' = se_proxies se" using assms(2) by (auto simp: fail_pending_def)
  have low: "map_of (se_proxies se) x = Some j \<Longrightarrow> j < length (sh_store s)" for x j
    using sess_invD(3) [OF assms(1)] by (blast dest: map_of_SomeD)
  have none: "\<not> waiting s' j" if j: "(x, j) \<in> set (se_proxies se)" for x j
  proof
    assume w: "waiting s' j"
    have "s' = foldl (\<lambda>s (nm, _). case map_of (se_proxies se) nm of
        Some k \<Rightarrow> set_runtime k ''error'' None ''no response from the upstream'' s | None \<Rightarrow> s) s (se_pending se)"
      using assms(2) by (simp add: fail_pending_def)
    with w have "waiting s j" and nopend: "\<nexists>nm. nm \<in> fst ` set (se_pending se) \<and> map_of (se_proxies se) nm = Some j"
      using fail_fold_waiting [of "se_proxies se" s "''no response from the upstream''" "se_pending se" j, OF low]
      by simp_all
    then have "x \<in> fst ` set (se_pending se)" using sess_invD(4) [OF assms(1) j] by simp
    moreover have "map_of (se_proxies se) x = Some j" using j sess_invD(1) [OF assms(1)] by simp
    ultimately show False using nopend by blast
  qed
  have "length (sh_store s') = length (sh_store s)" using assms(2) by (auto simp: fail_pending_def fail_fold_store)
  then show "sess_inv se' s'"
    using sess_invD [OF assms(1)] none same by (intro sess_invI) auto
  show "(nm, k) \<in> set (se_proxies se') \<Longrightarrow> \<not> waiting s' k" using none same by auto
qed

lemma request_work_inv: "sess_inv se s \<Longrightarrow> request_work se s = (se', s') \<Longrightarrow> sess_inv se' s'"
  by (auto simp: request_work_def Let_def sess_inv_def waiting_def split: if_splits)

lemma sess_step_inv:
  assumes "sess_inv se s" "sess_step md5 cfg ev se s = (r, se', s')"
  shows "sess_inv se' s'"
proof (cases ev)
  case (SMessage now m)
  then show ?thesis
  proof (cases m)
    case (MNewProxyResp x)
    then show ?thesis using assms SMessage answer_proxy_inv by (auto simp: sess_step_def)
  next
    case MReqWorkConn
    then show ?thesis using assms SMessage request_work_inv by (auto simp: sess_step_def)
  qed (use assms SMessage in \<open>auto simp: sess_step_def sess_inv_def waiting_def split: if_splits\<close>)
next
  case SDeadline
  show ?thesis
  proof (cases "se_pending se = []")
    case True
    then show ?thesis using assms SDeadline by (simp add: sess_step_def)
  next
    case False
    then show ?thesis using assms SDeadline fail_pending_none_waiting(2) [OF assms(1)] by (simp add: sess_step_def)
  qed
qed (use assms in \<open>auto simp: sess_step_def sess_inv_def waiting_def Let_def split: if_splits\<close>)

lemma sess_step_permits:
  assumes "sess_step md5 cfg ev se s = (r, se', s')"
  shows "sh_work_permits s' + se_spawned se' = sh_work_permits s + se_spawned se"
proof -
  have fold: "sh_work_permits (foldl (\<lambda>s (nm, _). case map_of m nm of
       Some k \<Rightarrow> set_runtime k ''error'' None e s | None \<Rightarrow> s) s ps) = sh_work_permits s" for m e ps
    by (induction ps arbitrary: s) (auto split: option.splits)
  show ?thesis
  proof (cases ev)
    case (SMessage now m)
    then show ?thesis
      using assms
      by (cases m) (auto simp: sess_step_def answer_proxy_def request_work_def Let_def split: option.splits if_splits)
  qed (use assms in \<open>auto simp: sess_step_def fail_pending_def fold Let_def split: if_splits\<close>)
qed

lemma sess_loop_induct:
  assumes "sess_loop md5 cfg evs se s = (r, se', s')" "P se s"
    and "\<And>ev se s r se' s'. P se s \<Longrightarrow> sess_step md5 cfg ev se s = (r, se', s') \<Longrightarrow> P se' s'"
  shows "P se' s'"
  using assms(1,2)
proof (induction evs arbitrary: se s)
  case (Cons ev evs)
  obtain r1 se1 s1 where step: "sess_step md5 cfg ev se s = (r1, se1, s1)" by (cases "sess_step md5 cfg ev se s")
  have "P se1 s1" using assms(3) [OF Cons.prems(2) step] .
  then show ?case using Cons step by (cases r1) auto
qed simp

lemma sess_loop_append:
  "sess_loop md5 cfg (evs @ evs') se s =
     (case sess_loop md5 cfg evs se s of
        (Some r, se', s') \<Rightarrow> (Some r, se', s') | (None, se', s') \<Rightarrow> sess_loop md5 cfg evs' se' s')"
  by (induction evs arbitrary: se s) (auto split: option.splits prod.splits)

text \<open>Registration establishes the invariant.\<close>

lemma register_proxies_inv:
  assumes "register_proxies ok i deadline ps se s = (None, se', s')"
    and "distinct (map fst (se_proxies se))" "distinct (map snd (se_proxies se))"
    and "\<And>nm k. (nm, k) \<in> set (se_proxies se) \<Longrightarrow> k < length (sh_store s)"
    and "\<And>nm k. (nm, k) \<in> set (se_proxies se) \<Longrightarrow> waiting s k \<Longrightarrow> nm \<in> fst ` set (se_pending se)"
  shows "sess_inv se' s'"
  using assms
proof (induction ps arbitrary: i se s)
  case Nil
  then show ?case by (auto intro!: sess_invI)
next
  case (Cons p ps)
  have inv: "sess_inv se s" by (rule sess_invI) (use Cons.prems in auto)
  define se1 where "se1 = se\<lparr>se_pending := AList.update (pc_name p) deadline (se_pending se),
      se_sent := se_sent se @ [MNewProxy (client_new_proxy p)]\<rparr>"
  define s1 where "s1 = (case map_of (se_proxies se) (pc_name p) of
      Some k \<Rightarrow> set_runtime k ''waiting'' None [] s | None \<Rightarrow> s)"
  have keys: "fst ` set (se_pending se1) = insert (pc_name p) (fst ` set (se_pending se))"
    by (simp add: se1_def dom_update)
  have "sess_inv se1 s1"
  proof (cases "map_of (se_proxies se) (pc_name p)")
    case None
    then show ?thesis using sess_invD [OF inv] keys by (intro sess_invI) (auto simp: s1_def se1_def)
  next
    case (Some k)
    have "sess_inv se1 (set_runtime k ''waiting'' None [] s)"
      by (rule set_runtime_inv [OF inv map_of_SomeD [OF Some]]) (simp_all add: keys, simp add: se1_def)
    then show ?thesis by (simp add: s1_def Some)
  qed
  moreover have "register_proxies ok (i + 1) deadline ps se1 s1 = (None, se', s')"
    using Cons.prems(1) by (simp add: Let_def se1_def s1_def split: if_splits)
  ultimately show ?case using Cons.IH [of "i + 1" se1 s1] sess_invD by blast
qed

lemma sess_step_proxies: "sess_step md5 cfg ev se s = (r, se', s') \<Longrightarrow> se_proxies se' = se_proxies se"
proof (cases ev)
  case (SMessage now m)
  then show "sess_step md5 cfg ev se s = (r, se', s') \<Longrightarrow> ?thesis"
    by (cases m) (auto simp: sess_step_def answer_proxy_def request_work_def Let_def split: if_splits)
qed (auto simp: sess_step_def fail_pending_def Let_def split: if_splits)

lemma register_proxies_proxies:
  "register_proxies ok i d ps se s = (r, se', s') \<Longrightarrow> se_proxies se' = se_proxies se"
proof (induction ps arbitrary: i se s)
  case (Cons p ps)
  then show ?case by (cases "ok i") (force simp: Let_def)+
qed simp

lemma reg_inv_distinct_snd: "reg_inv m store \<Longrightarrow> distinct (map snd m)"
proof -
  assume inv: "reg_inv m store"
  then have "distinct m" by (simp add: reg_inv_def distinct_map)
  moreover have "inj_on snd (set m)"
  proof (rule inj_onI)
    fix x y
    assume xy: "x \<in> set m" "y \<in> set m" "snd x = snd y"
    have "fst z = pc_name (pr_cfg (store ! snd z))" if "z \<in> set m" for z
      using inv that by (auto simp: reg_inv_def list_all_iff)
    with xy show "x = y" by (simp add: prod_eq_iff)
  qed
  ultimately show ?thesis by (simp add: distinct_map)
qed

lemma foldl_idle_store:
  "length (sh_store (foldl (\<lambda>s i. set_runtime i ''idle'' None [] s) s is)) = length (sh_store s)"
  by (induction "is" arbitrary: s) auto

lemma foldl_idle_waiting:
  "(\<And>i. i \<in> set is \<Longrightarrow> i < length (sh_store s)) \<Longrightarrow>
   waiting (foldl (\<lambda>s i. set_runtime i ''idle'' None [] s) s is) j \<longleftrightarrow> waiting s j \<and> j \<notin> set is"
proof (induction "is" arbitrary: s)
  case (Cons i "is")
  show ?case
    using Cons.IH [of "set_runtime i ''idle'' None [] s"] Cons.prems by (cases "j = i") auto
qed simp

lemma mark_idle_fields:
  "sh_proxies (mark_all_proxies_idle s) = sh_proxies s"
  "length (sh_store (mark_all_proxies_idle s)) = length (sh_store s)"
proof -
  have "sh_proxies (foldl (\<lambda>s i. set_runtime i ''idle'' None [] s) s is) = sh_proxies s" for "is"
    by (induction "is" arbitrary: s) (auto simp: set_runtime_def)
  then show "sh_proxies (mark_all_proxies_idle s) = sh_proxies s" by (simp add: mark_all_proxies_idle_def)
  show "length (sh_store (mark_all_proxies_idle s)) = length (sh_store s)"
    by (simp add: mark_all_proxies_idle_def foldl_idle_store)
qed

lemma mark_idle_not_waiting:
  "reg_inv (sh_proxies s) (sh_store s) \<Longrightarrow> (nm, k) \<in> set (sh_proxies s) \<Longrightarrow> \<not> waiting (mark_all_proxies_idle s) k"
  using foldl_idle_waiting [of "map snd (sh_proxies s)" s k]
  by (force simp: mark_all_proxies_idle_def reg_inv_def list_all_iff)

lemma next_backoff_bounds: "1 \<le> b \<Longrightarrow> b \<le> 30 \<Longrightarrow> 1 \<le> next_backoff b el msg \<and> next_backoff b el msg \<le> 30"
  by (simp add: next_backoff_def client_consts)

lemma sup_step_bounds:
  assumes "sup_step t b s = ((r, s'), ws)" "1 \<le> b" "b \<le> 30"
  shows "list_all (\<lambda>w. 1 \<le> w \<and> w \<le> 30) ws \<and> (\<forall>b'. r = Supervising b' \<longrightarrow> 1 \<le> b' \<and> b' \<le> 30)"
proof -
  note nb = next_backoff_bounds [OF assms(2,3)]
  show ?thesis
    using assms(1) nb
    by (auto simp: sup_step_def sup_exit_def Let_def client_consts
        split: if_splits sum.splits prod.splits option.splits session_end.splits)
qed

section \<open>Properties\<close>

text \<open>Adopting a configuration gives every proxy of it one entry in the registry and no
  other; a proxy whose definition did not change keeps its very entry, counters and state
  included, every other one starts afresh, and no entry a live session may still hold is
  touched.\<close>

lemma rebuild_keeps_counters:
  assumes "reg_inv (sh_proxies s) (sh_store s)" "distinct (map pc_name (fc_proxies cfg))"
    and "s' = rebuild_proxies cfg s"
  shows "reg_inv (sh_proxies s') (sh_store s') \<and> fst ` set (sh_proxies s') = pc_name ` set (fc_proxies cfg) \<and>
     (\<exists>fresh. sh_store s' = sh_store s @ fresh) \<and>
     list_all (\<lambda>p. \<exists>i. map_of (sh_proxies s') (pc_name p) = Some i \<and>
        (case map_of (sh_proxies s) (pc_name p) of
           Some j \<Rightarrow> if pr_cfg (sh_store s ! j) = p then i = j \<and> sh_store s' ! i = sh_store s ! j
                    else sh_store s' ! i = runtime_new p
         | None \<Rightarrow> sh_store s' ! i = runtime_new p)) (fc_proxies cfg)"
proof -
  obtain m store where rb: "rebuild_from (sh_proxies s) (fc_proxies cfg) [] (sh_store s) = (m, store)"
    by (cases "rebuild_from (sh_proxies s) (fc_proxies cfg) [] (sh_store s)")
  have "reg_inv [] (sh_store s)" by (simp add: reg_inv_def)
  note spec = rebuild_from_spec [OF rb assms(1) this _ assms(2)]
  have s': "sh_proxies s' = m" "sh_store s' = store" using assms(3) rb by (simp_all add: rebuild_proxies_def)
  have entry: "\<exists>i. map_of m (pc_name p) = Some i \<and>
        (case map_of (sh_proxies s) (pc_name p) of
           Some j \<Rightarrow> if pr_cfg (sh_store s ! j) = p then i = j \<and> store ! i = sh_store s ! j
                    else store ! i = runtime_new p
         | None \<Rightarrow> store ! i = runtime_new p)" if p: "p \<in> set (fc_proxies cfg)" for p
  proof -
    obtain i where "map_of m (pc_name p) = Some i" "store ! i = rebuilt_entry (sh_proxies s) (sh_store s) p"
      "\<forall>j. map_of (sh_proxies s) (pc_name p) = Some j \<and> pr_cfg (sh_store s ! j) = p \<longrightarrow> i = j"
      using spec p by auto
    then show ?thesis by (intro exI [of _ i]) (auto simp: rebuilt_entry_def split: option.splits)
  qed
  show ?thesis
    unfolding s' using spec entry by (auto simp: list_all_iff)
qed


text \<open>A session never has more work connections in flight than permits were free when it
  began, however many the upstream asks for, and every permit comes back.\<close>

lemma work_conns_bounded:
  assumes "sess_loop md5 cfg evs (session_new now s) s = (r, se', s')"
  shows "se_spawned se' + sh_work_permits s' = sh_work_permits s \<and> se_spawned se' \<le> sh_work_permits s"
proof -
  have "sh_work_permits s' + se_spawned se' = sh_work_permits s"
    by (rule sess_loop_induct [OF assms]) (auto simp: session_new_def dest: sess_step_permits)
  then show ?thesis by simp
qed

text \<open>The supervisor waits between one and thirty seconds before every reconnect, whatever
  sequence of failures, configuration changes and cancellations it goes through.\<close>

lemma backoff_bounded:
  assumes "supervise ts b s = (r, waits)" "1 \<le> b" "b \<le> 30"
  shows "list_all (\<lambda>w. 1 \<le> w \<and> w \<le> 30) waits"
  using assms
proof (induction ts arbitrary: b s r waits)
  case (Cons t ts)
  obtain q s1 w where step: "sup_step t b s = ((q, s1), w)" by (cases "sup_step t b s") auto
  note bd = sup_step_bounds [OF step Cons.prems(2,3)]
  show ?case
  proof (cases q)
    case (Supervising b')
    obtain r' ws where rest: "supervise ts b' s1 = (r', ws)" by (cases "supervise ts b' s1")
    then have "list_all (\<lambda>w. 1 \<le> w \<and> w \<le> 30) ws" using Cons.IH [OF rest] bd Supervising by simp
    then show ?thesis using Cons.prems(1) step Supervising rest bd by auto
  qed (use Cons.prems(1) step bd in auto)
qed simp

section \<open>Instances\<close>

definition ex_proxy :: frpc_proxy_config where
  "ex_proxy = \<lparr> pc_name = ''web'', pc_type = ''tcp'', pc_local_ip = ''127.0.0.1'', pc_local_port = 8080,
     pc_remote_port = 7001 \<rparr>"

definition ex_frpc :: frpc_config where
  "ex_frpc = default_frpc_config\<lparr>fc_server_addr := ''frps.example'', fc_proxies := [ex_proxy]\<rparr>"

lemma ex_shared:
  "sh_proxies (shared_new ex_frpc) = [(''web'', 0)]" "sh_store (shared_new ex_frpc) = [runtime_new ex_proxy]"
  "sh_work_permits (shared_new ex_frpc) = 500" "sh_connected (shared_new ex_frpc) = False"
  "sh_last_error (shared_new ex_frpc) = []"
  by (simp_all add: shared_new_def rebuild_proxies_def ex_frpc_def ex_proxy_def client_consts)

lemma ex_reg_inv: "reg_inv (sh_proxies (shared_new ex_frpc)) (sh_store (shared_new ex_frpc))"
  by (simp add: ex_shared reg_inv_def runtime_new_def ex_proxy_def)

lemma rebuild_keeps_counters_example:
  "fst ` set (sh_proxies (rebuild_proxies ex_frpc (shared_new ex_frpc))) = {''web''}"
  using rebuild_keeps_counters [OF ex_reg_inv _ refl, of ex_frpc] by (simp add: ex_frpc_def ex_proxy_def)


lemma work_conns_bounded_example:
  "se_spawned (fst (snd (sess_loop id ex_frpc [SMessage 5 MReqWorkConn] (session_new 3 (shared_new ex_frpc)) (shared_new ex_frpc)))) \<le> 500"
  using work_conns_bounded [of id ex_frpc "[SMessage 5 MReqWorkConn]" 3 "shared_new ex_frpc"]
  by (cases "sess_loop id ex_frpc [SMessage 5 MReqWorkConn] (session_new 3 (shared_new ex_frpc)) (shared_new ex_frpc)")
     (simp add: ex_shared)

definition ex_turn :: sup_turn where
  "ex_turn = \<lparr> st_cancelled = False, st_run = (\<lambda>_ s. (Some (EndErr ''early eof''), s)), st_elapsed = 2,
     st_cancelled_after = False, st_cancelled_waiting = False, st_render = (\<lambda>_. []) \<rparr>"

lemma backoff_bounded_example:
  "list_all (\<lambda>w. 1 \<le> w \<and> w \<le> 30) (snd (supervise [ex_turn, ex_turn] INITIAL_BACKOFF (shared_new ex_frpc)))"
  using backoff_bounded [of "[ex_turn, ex_turn]" INITIAL_BACKOFF "shared_new ex_frpc"]
  by (cases "supervise [ex_turn, ex_turn] INITIAL_BACKOFF (shared_new ex_frpc)") (simp add: client_consts)

text \<open>A login does not clear the error of the session before it: a connected client can keep
  reporting it.\<close>

lemma login_keeps_last_error:
  "fs_connected (client_status now c) \<and> fs_last_error (client_status now c) = ''early eof''"
  if "c = \<lparr> cl_shared = note_login 9 ''r'' (set_error ''early eof'' (shared_new ex_frpc)), cl_run = Some h \<rparr>"
  using that by (simp add: client_status_def note_login_def set_connected_def set_error_def Let_def)

end
