(* ===== verification/Crypto.thy ===== *)
theory Crypto
  imports Prelude
begin

unbundle bit_operations_syntax

text \<open>
  The control-channel cipher of the embedded frp server and client
  (\<open>remgr-frps/src/crypto.rs\<close>): AES-128 in cipher feedback mode as a byte stream (\<open>Cfb\<close>) and
  the asynchronous stream adapter (\<open>CryptoStream\<close>) that sends its initialisation vector
  first, encrypts each buffer once and survives short reads, short writes and pending polls.

  The AES block function and PBKDF2 are parameters. The transport below the adapter is a
  script of what each poll of it answers; a script that has run out answers Pending.
\<close>

section \<open>Cfb\<close>

definition IV_LEN :: nat where "IV_LEN = 16"

definition DEFAULT_SALT :: string where "DEFAULT_SALT = ''frp''"

type_synonym aes = "bytes \<Rightarrow> bytes \<Rightarrow> bytes"
type_synonym pbkdf2 = "bytes \<Rightarrow> bytes \<Rightarrow> nat \<Rightarrow> nat \<Rightarrow> bytes"

definition derive_key :: "pbkdf2 \<Rightarrow> bytes \<Rightarrow> bytes \<Rightarrow> bytes" where
  "derive_key kdf token salt = kdf token salt 64 IV_LEN"

record cfb =
  cfb_enc :: bytes
  cfb_reg :: bytes
  cfb_ks :: bytes
  cfb_ct :: bytes
  cfb_pos :: nat
  cfb_decrypt :: bool

definition refresh :: "aes \<Rightarrow> cfb \<Rightarrow> cfb" where
  "refresh aes c = c\<lparr>cfb_ks := aes (cfb_enc c) (cfb_reg c), cfb_pos := 0\<rparr>"

definition cfb_new :: "aes \<Rightarrow> bytes \<Rightarrow> bytes \<Rightarrow> bool \<Rightarrow> cfb" where
  "cfb_new aes key iv dec = refresh aes
     \<lparr> cfb_enc = key, cfb_reg = iv, cfb_ks = replicate IV_LEN 0, cfb_ct = replicate IV_LEN 0,
       cfb_pos = IV_LEN, cfb_decrypt = dec \<rparr>"

definition apply_byte :: "aes \<Rightarrow> cfb \<Rightarrow> u8 \<Rightarrow> cfb \<times> u8" where
  "apply_byte aes c0 b =
     (let c = (if cfb_pos c0 = IV_LEN then refresh aes (c0\<lparr>cfb_reg := cfb_ct c0\<rparr>) else c0);
          p = cfb_pos c;
          b' = b XOR (cfb_ks c ! p);
          f = (if cfb_decrypt c then b else b')
      in (c\<lparr>cfb_ct := (cfb_ct c)[p := f], cfb_pos := p + 1\<rparr>, b'))"

fun cfb_apply :: "aes \<Rightarrow> cfb \<Rightarrow> bytes \<Rightarrow> cfb \<times> bytes" where
  "cfb_apply aes c [] = (c, [])"
| "cfb_apply aes c (b # bs) =
     (let (c', b') = apply_byte aes c b; (c'', bs') = cfb_apply aes c' bs in (c'', b' # bs'))"

lemma cfb_apply_append:
  "cfb_apply aes c (xs @ ys) =
     (let (c', xs') = cfb_apply aes c xs; (c'', ys') = cfb_apply aes c' ys in (c'', xs' @ ys'))"
  by (induction xs arbitrary: c) (auto simp: Let_def split: prod.splits)

lemma length_cfb_apply: "length (snd (cfb_apply aes c xs)) = length xs"
  by (induction xs arbitrary: c) (simp_all add: case_prod_beta Let_def)

text \<open>Sender and receiver are in step: same key and registers, opposite directions.\<close>

definition in_step :: "cfb \<Rightarrow> cfb \<Rightarrow> bool" where
  "in_step e d \<longleftrightarrow> \<not> cfb_decrypt e \<and> d = e\<lparr>cfb_decrypt := True\<rparr>"

lemma apply_byte_in_step:
  assumes "in_step e d" "apply_byte aes e b = (e', c)"
  shows "\<exists>d'. apply_byte aes d c = (d', b) \<and> in_step e' d'"
  using assms
  by (auto simp: in_step_def apply_byte_def refresh_def Let_def xor.assoc)

lemma cfb_apply_in_step:
  "in_step e d \<Longrightarrow> cfb_apply aes e xs = (e', ys) \<Longrightarrow> \<exists>d'. cfb_apply aes d ys = (d', xs) \<and> in_step e' d'"
proof (induction xs arbitrary: e d ys)
  case (Cons x xs)
  obtain e1 c cs where e1: "apply_byte aes e x = (e1, c)" "cfb_apply aes e1 xs = (e', cs)" "ys = c # cs"
    using Cons.prems(2) by (auto simp: Let_def split: prod.splits)
  obtain d1 where d1: "apply_byte aes d c = (d1, x)" "in_step e1 d1"
    using apply_byte_in_step [OF Cons.prems(1) e1(1)] by blast
  from Cons.IH [OF d1(2) e1(2)] show ?case using e1(3) d1(1) by (auto simp: Let_def)
qed auto

section \<open>Stream ciphers\<close>

text \<open>
  What the stream adapter relies on: the cipher may be applied piecewise, keeps lengths,
  and a receiver in step with a sender inverts it and stays in step.
\<close>

locale stream_cipher =
  fixes app :: "'s \<Rightarrow> 'b list \<Rightarrow> 's \<times> 'b list"
    and step :: "'s \<Rightarrow> 's \<Rightarrow> bool"
  assumes app_Nil: "app s [] = (s, [])"
    and app_append: "app s (xs @ ys) = (let (s', xs') = app s xs; (s'', ys') = app s' ys in (s'', xs' @ ys'))"
    and app_length: "length (snd (app s xs)) = length xs"
    and app_inverse: "step e d \<Longrightarrow> app e xs = (e', ys) \<Longrightarrow> \<exists>d'. app d ys = (d', xs) \<and> step e' d'"
begin

fun app_chunks :: "'s \<Rightarrow> 'b list list \<Rightarrow> 's \<times> 'b list list" where
  "app_chunks s [] = (s, [])"
| "app_chunks s (c # cs) = (let (s', c') = app s c; (s'', cs') = app_chunks s' cs in (s'', c' # cs'))"

lemma app_chunks_concat:
  "app_chunks s cs = (s', cs') \<Longrightarrow> app s (concat cs) = (s', concat cs')"
  by (induction cs arbitrary: s s' cs') (auto simp: app_Nil app_append Let_def split: prod.splits)

lemma chunking_irrelevant:
  assumes "step e d" "app_chunks e cs = (e', cs')" "concat ds = concat cs'" "app_chunks d ds = (d', ds')"
  shows "concat ds' = concat cs \<and> step e' d'"
proof -
  have "app e (concat cs) = (e', concat cs')" using assms(2) by (rule app_chunks_concat)
  from app_inverse [OF assms(1) this] show ?thesis
    using app_chunks_concat [OF assms(4)] assms(3) by auto
qed

lemma app_take:
  "app s xs = (s', ys) \<Longrightarrow> snd (app s (take n xs)) = take n ys"
proof -
  assume a: "app s xs = (s', ys)"
  obtain s1 zs where z: "app s (take n xs) = (s1, zs)" by force
  obtain s2 ws where w: "app s1 (drop n xs) = (s2, ws)" by force
  have "ys = zs @ ws" using a app_append [of s "take n xs" "drop n xs"] z w by simp
  moreover have "length zs = min n (length xs)" using app_length [of s "take n xs"] z by simp
  moreover have "length ys = length xs" using app_length [of s xs] a by simp
  ultimately show ?thesis using z by (auto simp: min_def)
qed

lemma app_snd_append:
  "snd (app s (xs @ ys)) = snd (app s xs) @ snd (app (fst (app s xs)) ys)"
  by (auto simp: app_append Let_def split: prod.splits)

lemma app_fst_append:
  "fst (app s (xs @ ys)) = fst (app (fst (app s xs)) ys)"
  by (auto simp: app_append Let_def split: prod.splits)

end

interpretation cfb: stream_cipher "cfb_apply aes" in_step for aes
  by unfold_locales
     (simp_all add: cfb_apply_append length_cfb_apply cfb_apply_in_step)

section \<open>The adapter\<close>

datatype io_error = UnexpectedEof | OtherError nat

datatype 'a poll = Pending | ReadyOk 'a | ReadyErr io_error

datatype rd_event = RData bytes | RPending | RErr io_error
datatype wr_event = WReady nat | WPending | WErr io_error

record transport =
  rd_script :: "rd_event list"
  wr_script :: "wr_event list"
  wr_out :: bytes

text \<open>One poll of the transport for at most \<open>cap\<close> bytes; no bytes means end of file.\<close>

fun read_script :: "nat \<Rightarrow> rd_event list \<Rightarrow> bytes poll \<times> rd_event list" where
  "read_script cap [] = (Pending, [])"
| "read_script cap (RPending # s) = (Pending, s)"
| "read_script cap (RErr e # s) = (ReadyErr e, s)"
| "read_script cap (RData bs # s) =
     (if length bs \<le> cap then (ReadyOk bs, s) else (ReadyOk (take cap bs), RData (drop cap bs) # s))"

definition inner_read :: "nat \<Rightarrow> transport \<Rightarrow> bytes poll \<times> transport" where
  "inner_read cap t = (let (r, s) = read_script cap (rd_script t) in (r, t\<lparr>rd_script := s\<rparr>))"

text \<open>One poll of the transport's writer: it accepts some prefix of the bytes offered.\<close>

definition inner_write :: "bytes \<Rightarrow> transport \<Rightarrow> nat poll \<times> transport" where
  "inner_write bs t = (case wr_script t of
       [] \<Rightarrow> (Pending, t)
     | WPending # s \<Rightarrow> (Pending, t\<lparr>wr_script := s\<rparr>)
     | WErr e # s \<Rightarrow> (ReadyErr e, t\<lparr>wr_script := s\<rparr>)
     | WReady n # s \<Rightarrow> (let k = min n (length bs)
         in (ReadyOk k, t\<lparr>wr_script := s, wr_out := wr_out t @ take k bs\<rparr>)))"

record crypto_stream =
  cs_key :: bytes
  cs_write_key :: "bytes option"
  iv_read :: nat
  iv_buf :: bytes
  cs_dec :: "cfb option"
  iv_written :: nat
  cs_iv :: bytes
  cs_enc :: "cfb option"
  cs_pending :: "(bytes \<times> nat) option"

definition with_salt :: "pbkdf2 \<Rightarrow> bytes \<Rightarrow> bytes \<Rightarrow> bytes option \<Rightarrow> bytes \<Rightarrow> crypto_stream" where
  "with_salt kdf rand_iv read_pass write_pass salt =
     \<lparr> cs_key = derive_key kdf read_pass salt,
       cs_write_key = map_option (\<lambda>p. derive_key kdf p salt) write_pass,
       iv_read = 0, iv_buf = replicate IV_LEN 0, cs_dec = None,
       iv_written = 0, cs_iv = rand_iv, cs_enc = None, cs_pending = None \<rparr>"

definition with_write_key :: "pbkdf2 \<Rightarrow> bytes \<Rightarrow> bytes \<Rightarrow> bytes option \<Rightarrow> crypto_stream" where
  "with_write_key kdf rand_iv read_pass write_pass =
     with_salt kdf rand_iv read_pass write_pass (bytes_of DEFAULT_SALT)"

definition crypto_stream_new :: "pbkdf2 \<Rightarrow> bytes \<Rightarrow> bytes \<Rightarrow> crypto_stream" where
  "crypto_stream_new kdf rand_iv token = with_write_key kdf rand_iv token None"

text \<open>The slice assignment \<open>buf[i..i+n].copy_from_slice(xs)\<close>.\<close>

definition copy_at :: "'a list \<Rightarrow> nat \<Rightarrow> 'a list \<Rightarrow> 'a list" where
  "copy_at buf i xs = take i buf @ xs @ drop (i + length xs) buf"

text \<open>Collecting the peer's initialisation vector: \<open>ReadyOk\<close> once all of it is there.\<close>

function collect_iv :: "crypto_stream \<Rightarrow> transport \<Rightarrow> unit poll \<times> crypto_stream \<times> transport" where
  "collect_iv cs t =
     (if iv_read cs < IV_LEN then
        (case inner_read (IV_LEN - iv_read cs) t of
           (ReadyOk bs, t') \<Rightarrow>
             if bs = [] then (ReadyErr UnexpectedEof, cs, t')
             else collect_iv (cs\<lparr>iv_buf := copy_at (iv_buf cs) (iv_read cs) bs,
                                  iv_read := iv_read cs + length bs\<rparr>) t'
         | (ReadyErr e, t') \<Rightarrow> (ReadyErr e, cs, t')
         | (Pending, t') \<Rightarrow> (Pending, cs, t'))
      else (ReadyOk (), cs, t))"
  by pat_completeness auto
termination
  by (relation "measure (\<lambda>(cs, t). IV_LEN - iv_read cs)") (auto intro!: diff_less_mono2 simp flip: length_greater_0_conv)

declare collect_iv.simps [simp del]

definition ensure_dec :: "aes \<Rightarrow> crypto_stream \<Rightarrow> transport \<Rightarrow> unit poll \<times> crypto_stream \<times> transport" where
  "ensure_dec aes cs0 t0 =
     (case cs_dec cs0 of
        Some _ \<Rightarrow> (ReadyOk (), cs0, t0)
      | None \<Rightarrow> (case collect_iv cs0 t0 of
          (ReadyOk _, cs, t) \<Rightarrow> (ReadyOk (), cs\<lparr>cs_dec := Some (cfb_new aes (cs_key cs) (iv_buf cs) True)\<rparr>, t)
        | (ReadyErr e, cs, t) \<Rightarrow> (ReadyErr e, cs, t)
        | (Pending, cs, t) \<Rightarrow> (Pending, cs, t)))"

definition read_plain :: "aes \<Rightarrow> crypto_stream \<Rightarrow> transport \<Rightarrow> nat \<Rightarrow> bytes poll \<times> crypto_stream \<times> transport" where
  "read_plain aes cs t cap =
     (case inner_read cap t of
        (ReadyOk bs, t') \<Rightarrow>
          if bs = [] then (ReadyOk [], cs, t')
          else (let (d, out) = cfb_apply aes (the (cs_dec cs)) bs in (ReadyOk out, cs\<lparr>cs_dec := Some d\<rparr>, t'))
      | (ReadyErr e, t') \<Rightarrow> (ReadyErr e, cs, t')
      | (Pending, t') \<Rightarrow> (Pending, cs, t'))"

text \<open>\<open>cap\<close> is the room left in the caller's buffer; the bytes returned are those appended to it.\<close>

definition poll_read :: "aes \<Rightarrow> crypto_stream \<Rightarrow> transport \<Rightarrow> nat \<Rightarrow> bytes poll \<times> crypto_stream \<times> transport" where
  "poll_read aes cs0 t0 cap =
     (case ensure_dec aes cs0 t0 of
        (ReadyErr e, cs, t) \<Rightarrow> (ReadyErr e, cs, t)
      | (Pending, cs, t) \<Rightarrow> (Pending, cs, t)
      | (ReadyOk _, cs, t) \<Rightarrow> read_plain aes cs t cap)"

text \<open>Writing out bytes from an offset until all are accepted or the transport stops.\<close>

function write_from :: "bytes \<Rightarrow> nat \<Rightarrow> transport \<Rightarrow> unit poll \<times> nat \<times> transport" where
  "write_from bs off t =
     (if off < length bs then
        (case inner_write (drop off bs) t of
           (ReadyOk n, t') \<Rightarrow> write_from bs (off + n) t'
         | (ReadyErr e, t') \<Rightarrow> (ReadyErr e, off, t')
         | (Pending, t') \<Rightarrow> (Pending, off, t'))
      else (ReadyOk (), off, t))"
  by pat_completeness auto
termination
  by (relation "measure (\<lambda>(bs, off, t). length (wr_script t))")
     (auto simp: inner_write_def Let_def split: list.splits wr_event.splits)

declare write_from.simps [simp del]

definition write_key_of :: "crypto_stream \<Rightarrow> bytes" where
  "write_key_of cs = (case cs_write_key cs of Some wk \<Rightarrow> wk | None \<Rightarrow> cs_key cs)"

definition ensure_enc :: "aes \<Rightarrow> crypto_stream \<Rightarrow> transport \<Rightarrow> unit poll \<times> crypto_stream \<times> transport" where
  "ensure_enc aes cs t =
     (case cs_enc cs of
        Some _ \<Rightarrow> (ReadyOk (), cs, t)
      | None \<Rightarrow> (case write_from (cs_iv cs) (iv_written cs) t of
          (ReadyOk _, k, t') \<Rightarrow>
            (ReadyOk (), cs\<lparr>iv_written := k, cs_enc := Some (cfb_new aes (write_key_of cs) (cs_iv cs) False)\<rparr>, t')
        | (ReadyErr e, k, t') \<Rightarrow> (ReadyErr e, cs\<lparr>iv_written := k\<rparr>, t')
        | (Pending, k, t') \<Rightarrow> (Pending, cs\<lparr>iv_written := k\<rparr>, t')))"

definition encrypt_once :: "aes \<Rightarrow> crypto_stream \<Rightarrow> bytes \<Rightarrow> crypto_stream" where
  "encrypt_once aes cs buf =
     (case cs_pending cs of
        Some _ \<Rightarrow> cs
      | None \<Rightarrow> (let (e, out) = cfb_apply aes (the (cs_enc cs)) buf
                 in cs\<lparr>cs_enc := Some e, cs_pending := Some (out, 0)\<rparr>))"

definition drain_pending :: "crypto_stream \<Rightarrow> transport \<Rightarrow> nat poll \<times> crypto_stream \<times> transport" where
  "drain_pending cs t =
     (let (out, off) = the (cs_pending cs) in
      case write_from out off t of
        (ReadyOk _, k, t') \<Rightarrow> (ReadyOk (length out), cs\<lparr>cs_pending := None\<rparr>, t')
      | (ReadyErr e, k, t') \<Rightarrow> (ReadyErr e, cs\<lparr>cs_pending := Some (out, k)\<rparr>, t')
      | (Pending, k, t') \<Rightarrow> (Pending, cs\<lparr>cs_pending := Some (out, k)\<rparr>, t'))"

definition poll_write :: "aes \<Rightarrow> crypto_stream \<Rightarrow> transport \<Rightarrow> bytes \<Rightarrow> nat poll \<times> crypto_stream \<times> transport" where
  "poll_write aes cs0 t0 buf =
     (case ensure_enc aes cs0 t0 of
        (ReadyErr e, cs, t) \<Rightarrow> (ReadyErr e, cs, t)
      | (Pending, cs, t) \<Rightarrow> (Pending, cs, t)
      | (ReadyOk _, cs, t) \<Rightarrow> drain_pending (encrypt_once aes cs buf) t)"

section \<open>What the write side puts on the wire\<close>

text \<open>
  A caller writes its buffers in order; a poll that does not return \<open>Ready(Ok)\<close> is repeated
  with the same buffer, as the \<open>AsyncWrite\<close> contract has it. A state is the adapter, the
  transport, the buffers still to write and those written.
\<close>

inductive write_run ::
  "aes \<Rightarrow> crypto_stream \<Rightarrow> transport \<Rightarrow> bytes list \<Rightarrow>
   crypto_stream \<Rightarrow> transport \<Rightarrow> bytes list \<Rightarrow> bytes list \<Rightarrow> bool"
  for aes cs t bufs where
  write_start: "write_run aes cs t bufs cs t bufs []"
| write_ready:
    "write_run aes cs t bufs cs1 t1 (b # todo) sent \<Longrightarrow> poll_write aes cs1 t1 b = (ReadyOk n, cs2, t2) \<Longrightarrow>
     write_run aes cs t bufs cs2 t2 todo (sent @ [b])"
| write_again:
    "write_run aes cs t bufs cs1 t1 (b # todo) sent \<Longrightarrow> poll_write aes cs1 t1 b = (r, cs2, t2) \<Longrightarrow>
     (\<And>n. r \<noteq> ReadyOk n) \<Longrightarrow> write_run aes cs t bufs cs2 t2 (b # todo) sent"

definition enc_start :: "aes \<Rightarrow> crypto_stream \<Rightarrow> cfb" where
  "enc_start aes cs = cfb_new aes (write_key_of cs) (cs_iv cs) False"

definition enc_text :: "aes \<Rightarrow> crypto_stream \<Rightarrow> bytes \<Rightarrow> bytes" where
  "enc_text aes cs xs = snd (cfb_apply aes (enc_start aes cs) xs)"

text \<open>What has left, what is held back encrypted, and where the cipher stands.\<close>

definition write_inv :: "aes \<Rightarrow> crypto_stream \<Rightarrow> transport \<Rightarrow> bytes list \<Rightarrow> bytes list \<Rightarrow> bool" where
  "write_inv aes cs t todo sent \<longleftrightarrow>
     (let st = (\<lambda>xs. fst (cfb_apply aes (enc_start aes cs) xs)) in
      case cs_enc cs of
        None \<Rightarrow> sent = [] \<and> cs_pending cs = None \<and> iv_written cs \<le> length (cs_iv cs) \<and>
               wr_out t = take (iv_written cs) (cs_iv cs)
      | Some e \<Rightarrow>
          (case cs_pending cs of
             None \<Rightarrow> e = st (concat sent) \<and> wr_out t = cs_iv cs @ enc_text aes cs (concat sent)
           | Some (out, off) \<Rightarrow> todo \<noteq> [] \<and> e = st (concat sent @ hd todo) \<and>
               out = snd (cfb_apply aes (st (concat sent)) (hd todo)) \<and> off \<le> length out \<and>
               wr_out t = cs_iv cs @ enc_text aes cs (concat sent) @ take off out))"

lemma write_from_out:
  "write_from bs off t = (r, k, t') \<Longrightarrow> off \<le> length bs \<Longrightarrow> wr_out t = pre @ take off bs \<Longrightarrow>
     off \<le> k \<and> k \<le> length bs \<and> wr_out t' = pre @ take k bs \<and> (r = ReadyOk () \<longrightarrow> k = length bs)"
proof (induction bs off t arbitrary: r k t' rule: write_from.induct)
  case (1 bs off t)
  show ?case
  proof (cases "off < length bs")
    case True
    obtain p t1 where w: "inner_write (drop off bs) t = (p, t1)" by force
    show ?thesis
    proof (cases p)
      case (ReadyOk n)
      have n: "off + n \<le> length bs" "wr_out t1 = wr_out t @ take n (drop off bs)"
        using w ReadyOk True by (auto simp: inner_write_def Let_def split: list.splits wr_event.splits)
      moreover have "take off bs @ take n (drop off bs) = take (off + n) bs" by (simp add: take_add)
      moreover have "write_from bs (off + n) t1 = (r, k, t')"
        using "1.prems"(1) True w ReadyOk by (subst (asm) write_from.simps) simp
      ultimately show ?thesis
        using "1.IH" [OF True w [symmetric] ReadyOk, of r k t'] "1.prems"(3) by simp
    qed (use "1.prems" True w in \<open>subst (asm) write_from.simps,
      auto simp: inner_write_def Let_def split: list.splits wr_event.splits\<close>)+
  qed (use "1.prems" in \<open>subst (asm) write_from.simps, auto\<close>)
qed

definition same_keys :: "crypto_stream \<Rightarrow> crypto_stream \<Rightarrow> bool" where
  "same_keys a b \<longleftrightarrow> cs_key a = cs_key b \<and> cs_write_key a = cs_write_key b \<and> cs_iv a = cs_iv b"

lemma same_keys_refl [simp]: "same_keys a a"
  by (simp add: same_keys_def)

lemma same_keys_write_key: "same_keys a b \<Longrightarrow> write_key_of a = write_key_of b"
  by (cases "cs_write_key b") (auto simp: same_keys_def write_key_of_def)

lemma write_key_of_upd [simp]:
  "write_key_of (cs\<lparr>cs_pending := x\<rparr>) = write_key_of cs" "write_key_of (cs\<lparr>cs_enc := y\<rparr>) = write_key_of cs"
  "write_key_of (cs\<lparr>iv_written := k\<rparr>) = write_key_of cs"
  by (cases "cs_write_key cs", simp_all add: write_key_of_def)+

lemma same_keys_enc_start:
  assumes "same_keys a b"
  shows "enc_start aes a = enc_start aes b"
  using same_keys_write_key [OF assms] assms by (simp add: enc_start_def same_keys_def)

lemma same_keys_enc_text: "same_keys a b \<Longrightarrow> enc_text aes a = enc_text aes b"
  by (simp add: fun_eq_iff enc_text_def same_keys_enc_start)

lemma ensure_enc_inv:
  assumes "write_inv aes cs t todo sent" "ensure_enc aes cs t = (r, cs', t')"
  shows "write_inv aes cs' t' todo sent \<and> same_keys cs' cs \<and> (r = ReadyOk () \<longrightarrow> cs_enc cs' \<noteq> None)"
proof (cases "cs_enc cs")
  case None
  obtain p k t1 where w: "write_from (cs_iv cs) (iv_written cs) t = (p, k, t1)" by (metis prod_cases3)
  have "k \<le> length (cs_iv cs) \<and> wr_out t1 = take k (cs_iv cs) \<and> (p = ReadyOk () \<longrightarrow> k = length (cs_iv cs))"
    using write_from_out [OF w, of "[]"] assms(1) None by (simp add: write_inv_def)
  then show ?thesis
    using assms None w
    by (cases p) (auto simp: ensure_enc_def write_inv_def same_keys_def enc_text_def enc_start_def
        Let_def cfb.app_Nil)
next
  case (Some e)
  then show ?thesis using assms by (auto simp: ensure_enc_def)
qed

lemma encrypt_once_inv:
  assumes "write_inv aes cs t (b # todo) sent" "cs_enc cs \<noteq> None"
  shows "write_inv aes (encrypt_once aes cs b) t (b # todo) sent \<and> same_keys (encrypt_once aes cs b) cs
       \<and> cs_enc (encrypt_once aes cs b) \<noteq> None \<and> cs_pending (encrypt_once aes cs b) \<noteq> None"
  using assms
  by (auto simp: encrypt_once_def write_inv_def same_keys_def Let_def enc_text_def enc_start_def
      cfb.app_fst_append split: option.splits prod.splits)

lemma drain_pending_inv:
  assumes "write_inv aes cs t (b # todo) sent" "cs_enc cs \<noteq> None" "cs_pending cs \<noteq> None"
    and "drain_pending cs t = (r, cs', t')"
  shows "same_keys cs' cs \<and>
    (case r of ReadyOk n \<Rightarrow> n = length b \<and> write_inv aes cs' t' todo (sent @ [b])
             | _ \<Rightarrow> write_inv aes cs' t' (b # todo) sent)"
proof -
  obtain e out off where e: "cs_enc cs = Some e" "cs_pending cs = Some (out, off)"
    using assms(2,3) by auto
  let ?st = "fst (cfb_apply aes (enc_start aes cs) (concat sent))"
  let ?pre = "cs_iv cs @ enc_text aes cs (concat sent)"
  have i: "e = fst (cfb_apply aes (enc_start aes cs) (concat sent @ b))" "out = snd (cfb_apply aes ?st b)"
    "off \<le> length out" "wr_out t = ?pre @ take off out"
    using assms(1) e by (auto simp: write_inv_def)
  have len: "length out = length b" using i(2) by (simp add: length_cfb_apply)
  obtain p k t1 where w: "write_from out off t = (p, k, t1)" by (metis prod_cases3)
  have k: "k \<le> length out" "wr_out t1 = ?pre @ take k out" "p = ReadyOk () \<longrightarrow> k = length out"
    using write_from_out [OF w i(3,4)] by auto
  have full: "enc_text aes cs (concat sent @ b) = enc_text aes cs (concat sent) @ out"
    using i(2) by (simp add: enc_text_def cfb.app_snd_append)
  have upd: "enc_text aes (cs\<lparr>cs_pending := x\<rparr>) = enc_text aes cs"
    "enc_start aes (cs\<lparr>cs_pending := x\<rparr>) = enc_start aes cs" for x
    by (simp_all add: enc_text_def enc_start_def fun_eq_iff)
  show ?thesis
    using assms(4) e w k i(1,2) len full
    by (cases p) (auto simp: drain_pending_def write_inv_def same_keys_def upd)
qed

lemma poll_write_inv:
  assumes "write_inv aes cs t (b # todo) sent" "poll_write aes cs t b = (r, cs', t')"
  shows "same_keys cs' cs \<and>
    (case r of ReadyOk n \<Rightarrow> n = length b \<and> write_inv aes cs' t' todo (sent @ [b])
             | _ \<Rightarrow> write_inv aes cs' t' (b # todo) sent)"
proof -
  obtain p c1 t1 where e: "ensure_enc aes cs t = (p, c1, t1)" by (metis prod_cases3)
  note i1 = ensure_enc_inv [OF assms(1) e]
  show ?thesis
  proof (cases p)
    case (ReadyOk u)
    then have "cs_enc c1 \<noteq> None" using i1 by simp
    then have i2: "write_inv aes (encrypt_once aes c1 b) t1 (b # todo) sent"
      "same_keys (encrypt_once aes c1 b) c1"
      "cs_enc (encrypt_once aes c1 b) \<noteq> None" "cs_pending (encrypt_once aes c1 b) \<noteq> None"
      using encrypt_once_inv [of aes c1 t1 b todo sent] i1 by auto
    have "drain_pending (encrypt_once aes c1 b) t1 = (r, cs', t')"
      using assms(2) e ReadyOk by (simp add: poll_write_def)
    from drain_pending_inv [OF i2(1,3,4) this] i2(2) i1 show ?thesis
      by (auto simp: same_keys_def)
  qed (use assms(2) e i1 in \<open>auto simp: poll_write_def\<close>)
qed

lemma write_run_inv:
  assumes "write_run aes cs t bufs cs' t' todo sent" "write_inv aes cs t bufs []"
  shows "write_inv aes cs' t' todo sent \<and> same_keys cs' cs \<and> bufs = sent @ todo"
  using assms
proof (induction rule: write_run.induct)
  case (write_ready cs1 t1 b todo sent n cs2 t2)
  with poll_write_inv [of aes cs1 t1 b todo sent] show ?case by (auto simp: same_keys_def)
next
  case (write_again cs1 t1 b todo sent r cs2 t2)
  with poll_write_inv [of aes cs1 t1 b todo sent] show ?case
    by (cases r) (auto simp: same_keys_def)
qed auto

lemma write_inv_prefix:
  assumes "write_inv aes cs t todo sent"
  shows "\<exists>k. wr_out t = take k (cs_iv cs @ enc_text aes cs (concat (sent @ todo)))"
proof (cases "cs_enc cs")
  case None
  with assms have "wr_out t = take (iv_written cs) (cs_iv cs @ enc_text aes cs (concat (sent @ todo)))"
    by (simp add: write_inv_def)
  then show ?thesis by blast
next
  case (Some e)
  let ?st = "fst (cfb_apply aes (enc_start aes cs) (concat sent))"
  have all: "enc_text aes cs (concat sent @ ys) = enc_text aes cs (concat sent) @ snd (cfb_apply aes ?st ys)" for ys
    by (simp add: enc_text_def cfb.app_snd_append)
  show ?thesis
  proof (cases "cs_pending cs")
    case None
    with assms Some have "wr_out t = take (length (cs_iv cs) + length (enc_text aes cs (concat sent)))
        (cs_iv cs @ enc_text aes cs (concat (sent @ todo)))"
      by (simp add: write_inv_def all)
    then show ?thesis by blast
  next
    case p: (Some po)
    obtain out off where po: "po = (out, off)" by (cases po)
    then obtain b td where "todo = b # td" "out = snd (cfb_apply aes ?st b)" "off \<le> length out"
      "wr_out t = cs_iv cs @ enc_text aes cs (concat sent) @ take off out"
      using assms Some p by (cases todo) (auto simp: write_inv_def)
    then have "wr_out t = take (length (cs_iv cs) + length (enc_text aes cs (concat sent)) + off)
        (cs_iv cs @ enc_text aes cs (concat (sent @ todo)))"
      by (simp add: all cfb.app_snd_append)
    then show ?thesis by blast
  qed
qed

lemma write_inv_complete:
  assumes "write_inv aes cs t [] sent" "sent \<noteq> []"
  shows "wr_out t = cs_iv cs @ enc_text aes cs (concat sent)"
  using assms by (auto simp: write_inv_def split: option.splits)

section \<open>What the read side hands out\<close>

inductive read_run ::
  "aes \<Rightarrow> crypto_stream \<Rightarrow> transport \<Rightarrow> crypto_stream \<Rightarrow> transport \<Rightarrow> bytes \<Rightarrow> bool"
  for aes cs t where
  read_start: "read_run aes cs t cs t []"
| read_ready:
    "read_run aes cs t cs1 t1 got \<Longrightarrow> poll_read aes cs1 t1 cap = (ReadyOk bs, cs2, t2) \<Longrightarrow>
     read_run aes cs t cs2 t2 (got @ bs)"
| read_again:
    "read_run aes cs t cs1 t1 got \<Longrightarrow> poll_read aes cs1 t1 cap = (r, cs2, t2) \<Longrightarrow> (\<And>bs. r \<noteq> ReadyOk bs) \<Longrightarrow>
     read_run aes cs t cs2 t2 got"

fun script_data :: "rd_event list \<Rightarrow> bytes" where
  "script_data [] = []"
| "script_data (RData bs # s) = bs @ script_data s"
| "script_data (_ # s) = script_data s"

definition data_left :: "transport \<Rightarrow> bytes" where
  "data_left t = script_data (rd_script t)"

lemma inner_read_data:
  assumes "inner_read cap t = (r, t')"
  shows "data_left t = (case r of ReadyOk bs \<Rightarrow> bs | _ \<Rightarrow> []) @ data_left t'
       \<and> (case r of ReadyOk bs \<Rightarrow> length bs \<le> cap | _ \<Rightarrow> True)"
  using assms
  by (cases "(cap, rd_script t)" rule: read_script.cases)
     (auto simp: inner_read_def data_left_def split: if_splits)

definition read_inv :: "aes \<Rightarrow> bytes \<Rightarrow> crypto_stream \<Rightarrow> transport \<Rightarrow> bytes \<Rightarrow> bool" where
  "read_inv aes whole cs t got \<longleftrightarrow>
     (case cs_dec cs of
        None \<Rightarrow> got = [] \<and> iv_read cs \<le> IV_LEN \<and> length (iv_buf cs) = IV_LEN \<and>
               whole = take (iv_read cs) (iv_buf cs) @ data_left t
      | Some d \<Rightarrow> (\<exists>iv used. length iv = IV_LEN \<and> whole = iv @ used @ data_left t \<and>
               cfb_apply aes (cfb_new aes (cs_key cs) iv True) used = (d, got)))"

lemma collect_iv_inv:
  "collect_iv cs t = (r, cs', t') \<Longrightarrow> cs_dec cs = None \<Longrightarrow> read_inv aes whole cs t [] \<Longrightarrow>
     read_inv aes whole cs' t' [] \<and> cs_key cs' = cs_key cs \<and> cs_dec cs' = None \<and>
     (r = ReadyOk () \<longrightarrow> iv_read cs' = IV_LEN)"
proof (induction cs t arbitrary: r cs' t' rule: collect_iv.induct)
  case (1 cs t)
  show ?case
  proof (cases "iv_read cs < IV_LEN")
    case True
    obtain p t1 where w: "inner_read (IV_LEN - iv_read cs) t = (p, t1)" by force
    note d = inner_read_data [OF w]
    show ?thesis
    proof (cases p)
      case (ReadyOk bs)
      show ?thesis
      proof (cases "bs = []")
        case True
        then show ?thesis
          using "1.prems" \<open>iv_read cs < IV_LEN\<close> w ReadyOk d
          by (subst (asm) collect_iv.simps) (auto simp: read_inv_def)
      next
        case False
        let ?cs = "cs\<lparr>iv_buf := copy_at (iv_buf cs) (iv_read cs) bs, iv_read := iv_read cs + length bs\<rparr>"
        have "read_inv aes whole ?cs t1 []"
          using "1.prems" True d ReadyOk by (auto simp: read_inv_def copy_at_def)
        moreover have "collect_iv ?cs t1 = (r, cs', t')"
          using "1.prems"(1) True w ReadyOk False by (subst (asm) collect_iv.simps) simp
        ultimately show ?thesis
          using "1.IH" [OF True w [symmetric] ReadyOk False, of r cs' t'] "1.prems"(2) by simp
      qed
    qed (use "1.prems" True w d in \<open>subst (asm) collect_iv.simps, auto simp: read_inv_def\<close>)+
  qed (use "1.prems" in \<open>subst (asm) collect_iv.simps, auto simp: read_inv_def\<close>)
qed

lemma ensure_dec_inv:
  assumes "read_inv aes whole cs t got" "ensure_dec aes cs t = (r, cs', t')"
  shows "read_inv aes whole cs' t' got \<and> cs_key cs' = cs_key cs \<and> (r = ReadyOk () \<longrightarrow> cs_dec cs' \<noteq> None)"
proof (cases "cs_dec cs")
  case None
  then have got: "got = []" using assms(1) by (simp add: read_inv_def)
  obtain p c1 t1 where c: "collect_iv cs t = (p, c1, t1)" by (metis prod_cases3)
  note i = collect_iv_inv [OF c None, of aes whole]
  show ?thesis
  proof (cases p)
    case (ReadyOk u)
    then have iv: "length (iv_buf c1) = IV_LEN" "whole = iv_buf c1 @ data_left t1" "cs_key c1 = cs_key cs"
      using i assms(1) got by (auto simp: read_inv_def)
    moreover have "cs' = c1\<lparr>cs_dec := Some (cfb_new aes (cs_key c1) (iv_buf c1) True)\<rparr>" "t' = t1"
      using assms(2) None c ReadyOk by (auto simp: ensure_dec_def)
    moreover have "\<exists>iv used. length iv = IV_LEN \<and> whole = iv @ used @ data_left t1 \<and>
        cfb_apply aes (cfb_new aes (cs_key cs) iv True) used = (cfb_new aes (cs_key cs) (iv_buf c1) True, [])"
      by (rule exI [of _ "iv_buf c1"], rule exI [of _ "[]"]) (simp add: iv)
    ultimately show ?thesis unfolding got read_inv_def by simp
  qed (use assms None c i got in \<open>auto simp: ensure_dec_def\<close>)
next
  case (Some d)
  then show ?thesis using assms by (auto simp: ensure_dec_def)
qed

lemma read_plain_inv:
  assumes "read_inv aes whole cs t got" "cs_dec cs = Some d" "read_plain aes cs t cap = (r, cs', t')"
  shows "read_inv aes whole cs' t' (got @ (case r of ReadyOk bs \<Rightarrow> bs | _ \<Rightarrow> [])) \<and> cs_key cs' = cs_key cs
    \<and> cs_dec cs' \<noteq> None"
proof -
  obtain p t1 where w: "inner_read cap t = (p, t1)" by force
  note dl = inner_read_data [OF w]
  obtain iv used where u: "length iv = IV_LEN" "whole = iv @ used @ data_left t"
    "cfb_apply aes (cfb_new aes (cs_key cs) iv True) used = (d, got)"
    using assms(1,2) by (auto simp: read_inv_def)
  show ?thesis
  proof (cases p)
    case (ReadyOk bs)
    obtain d' out where a: "cfb_apply aes d bs = (d', out)" by force
    then have "cfb_apply aes (cfb_new aes (cs_key cs) iv True) (used @ bs) = (d', got @ out)"
      using u(3) by (simp add: cfb_apply_append)
    then have "\<exists>iv used'. length iv = IV_LEN \<and> whole = iv @ used' @ data_left t1 \<and>
        cfb_apply aes (cfb_new aes (cs_key cs) iv True) used' = (d', got @ out)"
      using u dl ReadyOk by (intro exI [of _ iv] exI [of _ "used @ bs"]) simp
    note after = this
    show ?thesis
    proof (cases "bs = []")
      case True
      then show ?thesis using assms w ReadyOk dl by (auto simp: read_plain_def read_inv_def)
    next
      case False
      then have "r = ReadyOk out" "cs' = cs\<lparr>cs_dec := Some d'\<rparr>" "t' = t1"
        using assms(2,3) w ReadyOk a by (auto simp: read_plain_def)
      with after show ?thesis by (simp add: read_inv_def)
    qed
  qed (use assms w u dl in \<open>auto simp: read_plain_def read_inv_def\<close>)
qed

lemma poll_read_inv:
  assumes "read_inv aes whole cs t got" "poll_read aes cs t cap = (r, cs', t')"
  shows "read_inv aes whole cs' t' (got @ (case r of ReadyOk bs \<Rightarrow> bs | _ \<Rightarrow> [])) \<and> cs_key cs' = cs_key cs"
proof -
  obtain p c1 t1 where e: "ensure_dec aes cs t = (p, c1, t1)" by (metis prod_cases3)
  note i1 = ensure_dec_inv [OF assms(1) e]
  show ?thesis
  proof (cases p)
    case (ReadyOk u)
    then obtain d where d: "cs_dec c1 = Some d" using i1 by auto
    have "read_plain aes c1 t1 cap = (r, cs', t')" using assms(2) e ReadyOk by (simp add: poll_read_def)
    from read_plain_inv [OF _ d this, of whole got] i1 show ?thesis by simp
  qed (use assms(2) e i1 in \<open>auto simp: poll_read_def\<close>)
qed

lemma read_run_inv:
  assumes "read_run aes cs t cs' t' got" "read_inv aes whole cs t []"
  shows "read_inv aes whole cs' t' got \<and> cs_key cs' = cs_key cs"
  using assms
proof (induction rule: read_run.induct)
  case (read_ready cs1 t1 got cap bs cs2 t2)
  with poll_read_inv [of aes whole cs1 t1 got cap] show ?case by fastforce
next
  case (read_again cs1 t1 got cap r cs2 t2)
  then show ?case using poll_read_inv [of aes whole cs1 t1 got cap r cs2 t2] by (cases r) auto
qed auto

section \<open>Cipher feedback by blocks\<close>

text \<open>The textbook form: each 16-byte block is combined with the encryption of the previous
  ciphertext block, the initialisation vector standing before the first.\<close>

function cfb_blocks :: "aes \<Rightarrow> bytes \<Rightarrow> bytes \<Rightarrow> bytes \<Rightarrow> bytes" where
  "cfb_blocks aes key prev data =
     (if data = [] then []
      else let c = map2 (XOR) (take 16 data) (aes key prev)
           in c @ cfb_blocks aes key c (drop 16 data))"
  by pat_completeness auto
termination
  by (relation "measure (\<lambda>(aes, key, prev, data). length data)") auto

declare cfb_blocks.simps [simp del]

lemma cfb_apply_within:
  assumes "\<not> cfb_decrypt c" "cfb_pos c + length xs \<le> 16" "cfb_pos c < 16 \<or> xs = []"
    "length (cfb_ks c) = 16" "length (cfb_ct c) = 16"
  shows "cfb_apply aes c xs =
    (let ys = map2 (XOR) xs (drop (cfb_pos c) (cfb_ks c))
     in (c\<lparr>cfb_ct := copy_at (cfb_ct c) (cfb_pos c) ys, cfb_pos := cfb_pos c + length xs\<rparr>, ys))"
  using assms
proof (induction xs arbitrary: c)
  case Nil
  then show ?case by (simp add: copy_at_def)
next
  case (Cons x xs)
  let ?p = "cfb_pos c"
  let ?y = "x XOR (cfb_ks c ! ?p)"
  let ?c = "c\<lparr>cfb_ct := (cfb_ct c)[?p := ?y], cfb_pos := ?p + 1\<rparr>"
  have p: "?p < 16" using Cons.prems by auto
  have b: "apply_byte aes c x = (?c, ?y)"
    using Cons.prems p by (simp add: apply_byte_def IV_LEN_def Let_def)
  have ks: "drop ?p (cfb_ks c) = cfb_ks c ! ?p # drop (Suc ?p) (cfb_ks c)"
    using p Cons.prems by (simp add: Cons_nth_drop_Suc)
  have ct: "copy_at ((cfb_ct c)[?p := ?y]) (Suc ?p) zs = copy_at (cfb_ct c) ?p (?y # zs)" for zs
    using p Cons.prems by (simp add: copy_at_def take_Suc_conv_app_nth drop_update_cancel)
  have room: "Suc ?p < 16 \<or> xs = []" using Cons.prems by (cases xs) auto
  have "cfb_apply aes ?c xs =
    (let ys = map2 (XOR) xs (drop (Suc ?p) (cfb_ks c))
     in (c\<lparr>cfb_ct := copy_at ((cfb_ct c)[?p := ?y]) (Suc ?p) ys, cfb_pos := Suc ?p + length xs\<rparr>, ys))"
    using Cons.IH [of ?c] Cons.prems room by simp
  then show ?case by (simp add: b ks ct Let_def)
qed

lemma cfb_apply_refresh:
  assumes "cfb_pos c = 16"
  shows "cfb_apply aes c (x # xs) = cfb_apply aes (refresh aes (c\<lparr>cfb_reg := cfb_ct c\<rparr>)) (x # xs)"
proof -
  have "apply_byte aes c x = apply_byte aes (refresh aes (c\<lparr>cfb_reg := cfb_ct c\<rparr>)) x"
    using assms by (simp add: apply_byte_def refresh_def IV_LEN_def)
  then show ?thesis by simp
qed

lemma cfb_apply_blocks:
  "(\<And>b. length (aes key b) = 16) \<Longrightarrow> \<not> cfb_decrypt c \<Longrightarrow> cfb_pos c = 0 \<Longrightarrow> cfb_enc c = key \<Longrightarrow> cfb_ks c = aes key prev \<Longrightarrow>
    length (cfb_ct c) = 16 \<Longrightarrow> snd (cfb_apply aes c data) = cfb_blocks aes key prev data"
proof (induction aes key prev data arbitrary: c rule: cfb_blocks.induct)
  case (1 aes key prev data)
  let ?ys = "map2 (XOR) (take 16 data) (aes key prev)"
  let ?c = "c\<lparr>cfb_ct := copy_at (cfb_ct c) 0 ?ys, cfb_pos := length (take 16 data)\<rparr>"
  show ?case
  proof (cases "data = []")
    case False
    have len: "length (aes key prev) = 16" by (rule "1.prems")
    have first: "cfb_apply aes c (take 16 data) = (?c, ?ys)"
      using cfb_apply_within [of c "take 16 data" aes] "1.prems" len by (simp add: Let_def)
    have split: "snd (cfb_apply aes c data) = ?ys @ snd (cfb_apply aes ?c (drop 16 data))"
      using cfb.app_snd_append [of aes c "take 16 data" "drop 16 data"] first by simp
    have blocks: "cfb_blocks aes key prev data = ?ys @ cfb_blocks aes key ?ys (drop 16 data)"
      using False by (simp add: cfb_blocks.simps [of aes key prev] Let_def)
    show ?thesis
    proof (cases "drop 16 data")
      case Nil
      then show ?thesis using split blocks by (simp add: cfb_blocks.simps [of aes key _ "[]"])
    next
      case (Cons x xs)
      let ?d = "refresh aes (?c\<lparr>cfb_reg := cfb_ct ?c\<rparr>)"
      have n: "16 < length data" using Cons by (metis drop_all linorder_not_le list.distinct(1))
      then have "length ?ys = 16" using len by simp
      then have ct: "cfb_ct ?c = ?ys" using "1.prems" by (simp add: copy_at_def)
      have "snd (cfb_apply aes ?d (drop 16 data)) = cfb_blocks aes key ?ys (drop 16 data)"
        using "1.IH" [OF False refl, of ?d] "1.prems" ct \<open>length ?ys = 16\<close> by (simp add: refresh_def)
      moreover have "cfb_apply aes ?c (drop 16 data) = cfb_apply aes ?d (drop 16 data)"
        unfolding Cons by (rule cfb_apply_refresh) (use n in simp)
      ultimately show ?thesis using split blocks by simp
    qed
  qed (simp add: cfb_blocks.simps)
qed

section \<open>Both ends\<close>

definition fresh_for_write :: "crypto_stream \<Rightarrow> transport \<Rightarrow> bool" where
  "fresh_for_write cs t \<longleftrightarrow> cs_enc cs = None \<and> cs_pending cs = None \<and> iv_written cs = 0 \<and> wr_out t = []"

definition fresh_for_read :: "crypto_stream \<Rightarrow> bool" where
  "fresh_for_read cs \<longleftrightarrow> cs_dec cs = None \<and> iv_read cs = 0 \<and> length (iv_buf cs) = IV_LEN"

lemma with_salt_fresh:
  "fresh_for_read (with_salt kdf iv rp wp salt)"
  "wr_out t = [] \<Longrightarrow> fresh_for_write (with_salt kdf iv rp wp salt) t"
  by (simp_all add: fresh_for_read_def fresh_for_write_def with_salt_def)

lemma fresh_write_inv: "fresh_for_write cs t \<Longrightarrow> write_inv aes cs t bufs []"
  by (simp add: fresh_for_write_def write_inv_def)

lemma fresh_read_inv: "fresh_for_read cs \<Longrightarrow> read_inv aes (data_left t) cs t []"
  by (simp add: fresh_for_read_def read_inv_def)

lemma new_in_step: "in_step (cfb_new aes key iv False) (cfb_new aes key iv True)"
  by (simp add: in_step_def cfb_new_def refresh_def)

lemma decrypt_prefix:
  assumes "snd (cfb_apply aes (cfb_new aes key iv False) xs) = ys"
  shows "snd (cfb_apply aes (cfb_new aes key iv True) (take n ys)) = take n xs"
proof -
  obtain e' where "cfb_apply aes (cfb_new aes key iv False) xs = (e', ys)"
    using assms by (cases "cfb_apply aes (cfb_new aes key iv False) xs") auto
  from cfb_apply_in_step [OF new_in_step this] obtain d' where
    "cfb_apply aes (cfb_new aes key iv True) ys = (d', xs)" by blast
  then show ?thesis by (rule cfb.app_take)
qed

lemma reader_prefix:
  assumes "read_inv aes (take m (iv @ enc)) cs t got" "length iv = IV_LEN"
    and "enc = snd (cfb_apply aes (cfb_new aes (cs_key cs) iv False) plain)"
  shows "\<exists>k. got = take k plain \<and> (data_left t = [] \<and> length (iv @ enc) \<le> m \<longrightarrow> got = plain)"
proof (cases "cs_dec cs")
  case None
  then have "got = []" and w: "take m (iv @ enc) = take (iv_read cs) (iv_buf cs) @ data_left t"
    "iv_read cs \<le> IV_LEN" "length (iv_buf cs) = IV_LEN"
    using assms(1) by (auto simp: read_inv_def)
  moreover have "plain = []" if "data_left t = []" "length (iv @ enc) \<le> m"
  proof -
    have "length (iv @ enc) \<le> IV_LEN"
      using w that by (metis append_Nil2 le_trans length_take min.cobounded1 min.cobounded2 take_all)
    then have "length enc = 0" using assms(2) by simp
    then show ?thesis using assms(3) by (simp add: length_cfb_apply)
  qed
  ultimately show ?thesis by (intro exI [of _ 0]) auto
next
  case (Some d)
  then obtain iv' used where u: "length iv' = IV_LEN" "take m (iv @ enc) = iv' @ used @ data_left t"
    "cfb_apply aes (cfb_new aes (cs_key cs) iv' True) used = (d, got)"
    using assms(1) by (auto simp: read_inv_def)
  have "IV_LEN \<le> m"
    using arg_cong [OF u(2), of length] u(1) assms(2) by (auto simp: min_def split: if_splits)
  with u(1,2) assms(2) have iv: "iv' = iv" and us: "used @ data_left t = take (m - IV_LEN) enc"
    by auto
  then have "used = take (length used) enc"
    by (metis append_eq_conv_conj take_take min.absorb_iff2 min.commute take_all_iff nle_le length_take)
  then have got: "got = take (length used) plain"
    using decrypt_prefix [OF assms(3) [symmetric], of "length used"] u(3) iv by simp
  moreover have "got = plain" if "data_left t = []" "length (iv @ enc) \<le> m"
  proof -
    have "used = enc" using us that assms(2) by simp
    then show ?thesis using got assms(3) by (simp add: length_cfb_apply)
  qed
  ultimately show ?thesis by blast
qed

section \<open>Progress\<close>

definition accepting :: "transport \<Rightarrow> nat \<Rightarrow> bool" where
  "accepting t n \<longleftrightarrow> n \<le> length (wr_script t) \<and> list_all (\<lambda>e. \<exists>k. e = WReady (Suc k)) (wr_script t)"

lemma write_from_completes:
  "accepting t (length bs - off + n) \<Longrightarrow>
     \<exists>k t'. write_from bs off t = (ReadyOk (), k, t') \<and> accepting t' n"
proof (induction bs off t rule: write_from.induct)
  case (1 bs off t)
  show ?case
  proof (cases "off < length bs")
    case True
    then obtain k s where s: "wr_script t = WReady (Suc k) # s"
      using "1.prems" by (cases "wr_script t") (auto simp: accepting_def)
    define m where "m = min (Suc k) (length (drop off bs))"
    define t1 where "t1 = t\<lparr>wr_script := s, wr_out := wr_out t @ take m (drop off bs)\<rparr>"
    have w: "inner_write (drop off bs) t = (ReadyOk m, t1)"
      using s by (simp add: inner_write_def m_def t1_def Let_def)
    have "1 \<le> m" using True by (simp add: m_def)
    then have "accepting t1 (length bs - (off + m) + n)"
      using "1.prems" s True by (auto simp: accepting_def t1_def)
    then show ?thesis
      using "1.IH" [OF True w [symmetric] refl] True w by (subst write_from.simps) simp
  next
    case False
    then show ?thesis using "1.prems" by (subst write_from.simps) (simp add: accepting_def)
  qed
qed

section \<open>Properties\<close>

text \<open>
  C3: end to end, the control channel delivers what was written. Both ends hold the same
  pass phrase and salt; the sender writes its buffers over a transport that may accept any
  part of what it is offered, stall or fail, and the receiver reads in any portions,
  through stalls, whatever the sender's transport has taken. What the receiver has handed
  out is then always a prefix of the buffers in order, and it is all of them once the
  sender is done and the transport is drained.
\<close>

theorem control_channel_delivers:
  assumes w: "write_run aes (with_salt kdf iv_w pass None salt) t_w bufs cs_w' t_w' todo sent"
    and r: "read_run aes (with_salt kdf iv_r pass wpass salt) t_r cs_r' t_r' got"
    and fresh: "wr_out t_w = []" "length iv_w = IV_LEN" "data_left t_r = wr_out t_w'"
  shows "(\<exists>k. got = take k (concat bufs)) \<and>
         (todo = [] \<and> data_left t_r' = [] \<longrightarrow> got = concat bufs)"
proof -
  let ?cs = "with_salt kdf iv_w pass None salt"
  let ?key = "derive_key kdf pass salt"
  let ?enc = "snd (cfb_apply aes (cfb_new aes ?key iv_w False) (concat bufs))"
  note wi = write_run_inv [OF w fresh_write_inv [OF with_salt_fresh(2) [OF fresh(1)]]]
  have iv: "cs_iv cs_w' = iv_w" and et: "enc_text aes cs_w' (concat bufs) = ?enc"
    using wi same_keys_enc_text [of cs_w' ?cs aes]
    by (auto simp: same_keys_def enc_text_def enc_start_def write_key_of_def with_salt_def)
  obtain m where m: "wr_out t_w' = take m (iv_w @ ?enc)"
    using wi write_inv_prefix [of aes cs_w' t_w' todo sent] iv et by auto
  note ri = read_run_inv [OF r fresh_read_inv [OF with_salt_fresh(1)]]
  have inv: "read_inv aes (take m' (iv_w @ ?enc)) cs_r' t_r' got" if "wr_out t_w' = take m' (iv_w @ ?enc)" for m'
    using ri fresh(3) that by simp
  have key: "cs_key cs_r' = ?key" using ri by (simp add: with_salt_def)
  have "got = concat bufs" if "todo = []" "data_left t_r' = []"
  proof (cases "sent = []")
    case True
    then show ?thesis
      using wi that(1) reader_prefix [where plain = "concat bufs", OF inv [OF m] fresh(2)] key by auto
  next
    case False
    then have "wr_out t_w' = take (length (iv_w @ ?enc)) (iv_w @ ?enc)"
      using write_inv_complete [of aes cs_w' t_w' sent] wi that(1) iv et by simp
    from reader_prefix [where plain = "concat bufs", OF inv [OF this] fresh(2)] key that(2) show ?thesis by auto
  qed
  then show ?thesis using reader_prefix [where plain = "concat bufs", OF inv [OF m] fresh(2)] key by auto
qed

definition ex_aes :: aes where
  "ex_aes k b = map (\<lambda>x. x + 1) b"

definition ex_kdf :: pbkdf2 where
  "ex_kdf p s i n = replicate n 7"

definition ex_sender :: crypto_stream where
  "ex_sender = with_salt ex_kdf (replicate 16 3) [1] None [2]"

definition ex_receiver :: crypto_stream where
  "ex_receiver = with_salt ex_kdf (replicate 16 9) [1] None [2]"

definition ex_out :: transport where
  "ex_out = \<lparr> rd_script = [], wr_script = [WReady 9, WPending, WReady 20, WReady 2, WReady 8], wr_out = [] \<rparr>"

definition ex_in :: transport where
  "ex_in = \<lparr> rd_script = [RData [3, 3, 3, 3, 3], RPending, RData (replicate 11 3 @ [5, 6, 7])],
     wr_script = [], wr_out = [] \<rparr>"

lemma ex_write_run:
  "\<exists>cs t. write_run ex_aes ex_sender ex_out [[1, 2, 3]] cs t [] [[1, 2, 3]] \<and>
     wr_out t = replicate 16 3 @ [5, 6, 7]"
proof -
  define p1 where "p1 = poll_write ex_aes ex_sender ex_out [1, 2, 3]"
  define p2 where "p2 = poll_write ex_aes (fst (snd p1)) (snd (snd p1)) [1, 2, 3]"
  have "fst p1 = Pending" unfolding p1_def by code_simp
  then have "write_run ex_aes ex_sender ex_out [[1, 2, 3]] (fst (snd p1)) (snd (snd p1)) [[1, 2, 3]] []"
    by (intro write_again [OF write_start, where r = Pending]) (auto simp: p1_def prod_eq_iff)
  moreover have "fst p2 = ReadyOk 3" unfolding p2_def p1_def by code_simp
  then have "poll_write ex_aes (fst (snd p1)) (snd (snd p1)) [1, 2, 3] = (ReadyOk 3, fst (snd p2), snd (snd p2))"
    by (simp add: p2_def prod_eq_iff)
  ultimately have "write_run ex_aes ex_sender ex_out [[1, 2, 3]] (fst (snd p2)) (snd (snd p2)) [] ([] @ [[1, 2, 3]])"
    by (rule write_ready)
  moreover have "wr_out (snd (snd p2)) = replicate 16 3 @ [5, 6, 7]"
    unfolding p2_def p1_def by code_simp
  ultimately show ?thesis by auto
qed

lemma ex_read_run:
  "\<exists>cs t. read_run ex_aes ex_receiver ex_in cs t [1, 2, 3] \<and> data_left t = []"
proof -
  define p1 where "p1 = poll_read ex_aes ex_receiver ex_in 10"
  define p2 where "p2 = poll_read ex_aes (fst (snd p1)) (snd (snd p1)) 10"
  have "fst p1 = Pending" unfolding p1_def by code_simp
  then have "read_run ex_aes ex_receiver ex_in (fst (snd p1)) (snd (snd p1)) []"
    by (intro read_again [OF read_start, where r = Pending and cap = 10]) (auto simp: p1_def prod_eq_iff)
  moreover have "fst p2 = ReadyOk [1, 2, 3]" unfolding p2_def p1_def by code_simp
  then have "poll_read ex_aes (fst (snd p1)) (snd (snd p1)) 10 = (ReadyOk [1, 2, 3], fst (snd p2), snd (snd p2))"
    by (simp add: p2_def prod_eq_iff)
  ultimately have "read_run ex_aes ex_receiver ex_in (fst (snd p2)) (snd (snd p2)) ([] @ [1, 2, 3])"
    by (rule read_ready)
  moreover have "data_left (snd (snd p2)) = []" unfolding p2_def p1_def by code_simp
  ultimately show ?thesis by auto
qed

theorem control_channel_delivers_witness:
  "\<exists>cs t. read_run ex_aes ex_receiver ex_in cs t [1, 2, 3] \<and> [1, 2, 3] = concat [[1, 2, 3 :: u8]]"
proof -
  obtain cw tw where w: "write_run ex_aes ex_sender ex_out [[1, 2, 3]] cw tw [] [[1, 2, 3]]"
    "wr_out tw = replicate 16 3 @ [5, 6, 7]"
    using ex_write_run by blast
  obtain cr tr where r: "read_run ex_aes ex_receiver ex_in cr tr [1, 2, 3]" "data_left tr = []"
    using ex_read_run by blast
  have "wr_out ex_out = []" "data_left ex_in = wr_out tw" "length (replicate 16 3 :: bytes) = IV_LEN"
    using w(2) by (simp_all add: ex_out_def ex_in_def data_left_def IV_LEN_def numeral_eq_Suc)
  with control_channel_delivers [OF w(1) [unfolded ex_sender_def] r(1) [unfolded ex_receiver_def]] r
  show ?thesis by blast
qed

text \<open>
  C9: the byte-wise register machine of \<open>Cfb::apply\<close> computes cipher feedback mode: from a
  fresh state its output is the block-wise definition of CFB-128 encryption, for data of
  any length.
\<close>

theorem cfb_apply_is_cfb:
  assumes "\<And>b. length (aes key b) = 16"
  shows "snd (cfb_apply aes (cfb_new aes key iv False) data) = cfb_blocks aes key iv data"
  using assms
  by (intro cfb_apply_blocks) (simp_all add: cfb_new_def refresh_def IV_LEN_def)

theorem cfb_apply_is_cfb_witness:
  "snd (cfb_apply (\<lambda>k b. replicate 16 5) (cfb_new (\<lambda>k b. replicate 16 5) [1] [2] False) [1, 2, 3])
     = cfb_blocks (\<lambda>k b. replicate 16 5) [1] [2] [1, 2, 3]"
  by (rule cfb_apply_is_cfb) simp

text \<open>How the data is cut up does not matter: whatever pieces the sender encrypts one
  after the other, a receiver in step that decrypts the concatenated ciphertext in any
  other pieces obtains the plaintext.\<close>

lemma cfb_chunking_irrelevant:
  assumes "concat ds = concat (snd (cfb.app_chunks aes (cfb_new aes key iv False) cs))"
  shows "concat (snd (cfb.app_chunks aes (cfb_new aes key iv True) ds)) = concat cs"
  using cfb.chunking_irrelevant [OF new_in_step prod.collapse [symmetric] assms prod.collapse [symmetric]]
  by simp

lemma cfb_chunking_irrelevant_example:
  "concat (snd (cfb.app_chunks (\<lambda>k b. replicate 16 5) (cfb_new (\<lambda>k b. replicate 16 5) [1] [2] True)
      [[4, 7], [6]])) = concat [[1], [2, 3]]"
  by (rule cfb_chunking_irrelevant) (simp add: apply_byte_def cfb_new_def refresh_def IV_LEN_def)

text \<open>A write does not hang while its transport makes progress: if every poll of the
  transport accepts at least one byte, one poll of the adapter sends what is left of the
  initialisation vector and the whole buffer and reports the buffer's length.\<close>

lemma poll_write_completes:
  assumes "write_inv aes cs t (b # todo) sent" "accepting t (length (cs_iv cs) + length b)"
  shows "\<exists>cs' t'. poll_write aes cs t b = (ReadyOk (length b), cs', t')"
proof -
  have "\<exists>c1 t1. ensure_enc aes cs t = (ReadyOk (), c1, t1) \<and> accepting t1 (length b)"
  proof (cases "cs_enc cs")
    case None
    have "accepting t (length (cs_iv cs) - iv_written cs + length b)"
      using assms(2) by (auto simp: accepting_def)
    from write_from_completes [OF this] None show ?thesis by (auto simp: ensure_enc_def)
  next
    case (Some e)
    then show ?thesis using assms(2) by (auto simp: ensure_enc_def accepting_def)
  qed
  then obtain c1 t1 where e: "ensure_enc aes cs t = (ReadyOk (), c1, t1)" "accepting t1 (length b)" by blast
  note i1 = ensure_enc_inv [OF assms(1) e(1)]
  let ?c = "encrypt_once aes c1 b"
  have i2: "write_inv aes ?c t1 (b # todo) sent" "cs_enc ?c \<noteq> None" "cs_pending ?c \<noteq> None"
    using encrypt_once_inv [of aes c1 t1 b todo sent] i1 by auto
  then obtain out off where p: "cs_pending ?c = Some (out, off)" "length out = length b"
    by (auto simp: write_inv_def length_cfb_apply split: option.splits)
  have "accepting t1 (length out - off + 0)" using e(2) p(2) by (auto simp: accepting_def)
  from write_from_completes [OF this] obtain k t' where "write_from out off t1 = (ReadyOk (), k, t')" by blast
  then show ?thesis using e(1) p by (simp add: poll_write_def drain_pending_def)
qed

lemma poll_write_completes_example:
  "\<exists>cs' t'. poll_write ex_aes ex_sender (ex_out\<lparr>wr_script := replicate 20 (WReady 1)\<rparr>) [1, 2]
      = (ReadyOk (length [1, 2 :: u8]), cs', t')"
  by (rule poll_write_completes [where todo = "[]" and sent = "[]"])
     (simp_all add: write_inv_def ex_sender_def with_salt_def ex_out_def accepting_def list_all_iff)

end
