(* ===== verification/Frps_Server.thy ===== *)
theory Frps_Server
  imports FrpsConfig Msg Crypto
begin

unbundle bit_operations_syntax

text \<open>
  The embedded frp server (\<open>remgr-frps/src/server.rs\<close>): statistics, authentication, the
  registry of remote ports, control connections with their proxies and work-connection
  pools, login, proxy registration, teardown, the heartbeat monitor, the first-byte
  dispatch and the datagram loops.

  The shared state behind the Rust mutexes and atomics is the record \<open>server\<close>. An
  \<open>Arc<ControlState>\<close> is the index of the control in \<open>s_heap\<close>, so that pointer equality is
  equality of indices and a control outlives its entry in the map of controls. A
  cancellation token of a proxy is a number; \<open>s_cancelled\<close> lists those cancelled on their
  own, and a token is also cancelled with its control or with the server. Sockets,
  clocks, identifiers drawn at random and the text of I/O errors are arguments.

  Messages queued for a control's writer are collected in \<open>c_out\<close>; once the control is
  cancelled the writer has stopped and nothing more is queued.
\<close>

section \<open>Data\<close>

record proxy_info =
  px_proxy_name :: string
  px_proxy_type :: string
  px_remote_port :: nat
  px_user :: string
  px_conns_total :: nat

record control =
  c_run_id :: string
  c_user :: string
  c_out :: "message list"
  c_work :: "nat list"
  c_last_active :: nat
  c_enforce_idle :: bool
  c_cancelled :: bool
  c_online :: bool
  c_proxies :: "(string \<times> nat) list"

record server =
  s_cfg :: frps_config
  s_total_logins :: u64
  s_clients_online :: u64
  s_total_user_conns :: u64
  s_bytes_in :: u64
  s_bytes_out :: u64
  s_infos :: "(string \<times> proxy_info) list"
  s_stopped :: bool
  s_controls :: "(string \<times> nat) list"
  s_heap :: "control list"
  s_tcp_ports :: "(nat \<times> string) list"
  s_udp_ports :: "(nat \<times> string) list"
  s_cancelled :: "nat list"
  s_next_token :: nat

definition shared_new :: "frps_config \<Rightarrow> server" where
  "shared_new cfg = \<lparr> s_cfg = cfg, s_total_logins = 0, s_clients_online = 0, s_total_user_conns = 0,
     s_bytes_in = 0, s_bytes_out = 0, s_infos = [], s_stopped = False, s_controls = [], s_heap = [],
     s_tcp_ports = [], s_udp_ports = [], s_cancelled = [], s_next_token = 0 \<rparr>"

definition upd_control :: "nat \<Rightarrow> (control \<Rightarrow> control) \<Rightarrow> server \<Rightarrow> server" where
  "upd_control i f s = s\<lparr>s_heap := (s_heap s)[i := f (s_heap s ! i)]\<rparr>"

definition ctl :: "server \<Rightarrow> nat \<Rightarrow> control" where
  "ctl s i = s_heap s ! i"

section \<open>Statistics\<close>

definition set_proxy :: "proxy_info \<Rightarrow> server \<Rightarrow> server" where
  "set_proxy info s = s\<lparr>s_infos := AList.update (px_proxy_name info) info (s_infos s)\<rparr>"

definition remove_proxy :: "string \<Rightarrow> server \<Rightarrow> server" where
  "remove_proxy name s = s\<lparr>s_infos := AList.delete name (s_infos s)\<rparr>"

fun string_le :: "string \<Rightarrow> string \<Rightarrow> bool" where
  "string_le [] t = True"
| "string_le (c # cs) [] = False"
| "string_le (c # cs) (d # ds) =
     (if of_char c = (of_char d :: nat) then string_le cs ds else of_char c < (of_char d :: nat))"

fun insert_info :: "proxy_info \<Rightarrow> proxy_info list \<Rightarrow> proxy_info list" where
  "insert_info i [] = [i]"
| "insert_info i (j # js) =
     (if string_le (px_proxy_name i) (px_proxy_name j) then i # j # js else j # insert_info i js)"

text \<open>The values of the map, stably sorted by proxy name.\<close>

definition snapshot :: "server \<Rightarrow> proxy_info list" where
  "snapshot s = foldr insert_info (map snd (s_infos s)) []"

section \<open>Authentication\<close>

definition auth_ok :: "(bytes \<Rightarrow> bytes) \<Rightarrow> string \<Rightarrow> int \<Rightarrow> string \<Rightarrow> bool" where
  "auth_ok md5 tok timestamp key =
     (let expect = auth_key md5 tok timestamp in
      if length expect \<noteq> length key then False
      else foldl (\<lambda>diff (a, b). diff OR (a XOR b)) 0 (zip (bytes_of expect) (bytes_of key)) = (0 :: u8))"

section \<open>The port registry\<close>

definition register_port :: "nat \<Rightarrow> string \<Rightarrow> (nat \<times> string) list \<Rightarrow> string + (nat \<times> string) list" where
  "register_port port name ports =
     (case map_of ports port of
        Some existing \<Rightarrow>
          if existing \<noteq> name
          then Err (''remote port '' @ dec_string port @ '' already used by proxy '' @ existing)
          else Ok ports
      | None \<Rightarrow> Ok (AList.update port name ports))"

definition release_port :: "nat \<Rightarrow> string \<Rightarrow> (nat \<times> string) list \<Rightarrow> (nat \<times> string) list" where
  "release_port port name ports = (if map_of ports port = Some name then AList.delete port ports else ports)"

definition register_proxy_port :: "string \<Rightarrow> nat \<Rightarrow> string \<Rightarrow> server \<Rightarrow> string + server" where
  "register_proxy_port ptype port name s =
     (if ptype = ''tcp'' then bind_result (register_port port name (s_tcp_ports s)) (\<lambda>m. Ok (s\<lparr>s_tcp_ports := m\<rparr>))
      else if ptype = ''udp'' then bind_result (register_port port name (s_udp_ports s)) (\<lambda>m. Ok (s\<lparr>s_udp_ports := m\<rparr>))
      else Ok s)"

definition release_proxy_port :: "string \<Rightarrow> nat \<Rightarrow> string \<Rightarrow> server \<Rightarrow> server" where
  "release_proxy_port ptype port name s =
     (if ptype = ''tcp'' then s\<lparr>s_tcp_ports := release_port port name (s_tcp_ports s)\<rparr>
      else if ptype = ''udp'' then s\<lparr>s_udp_ports := release_port port name (s_udp_ports s)\<rparr>
      else s)"

section \<open>The prefixed stream\<close>

record prefixed =
  pf_prefix :: "u8 option"
  pf_inner :: transport

definition prefixed_poll_read :: "nat \<Rightarrow> prefixed \<Rightarrow> bytes poll \<times> prefixed" where
  "prefixed_poll_read cap p =
     (case (if cap > 0 then pf_prefix p else None) of
        Some b \<Rightarrow> (ReadyOk [b], p\<lparr>pf_prefix := None\<rparr>)
      | None \<Rightarrow> (let (r, t) = inner_read cap (pf_inner p) in (r, p\<lparr>pf_inner := t\<rparr>)))"

section \<open>Control state\<close>

definition is_cancelled :: "server \<Rightarrow> nat \<Rightarrow> bool" where
  "is_cancelled s i \<longleftrightarrow> s_stopped s \<or> c_cancelled (ctl s i)"

definition proxy_cancelled :: "server \<Rightarrow> nat \<Rightarrow> nat \<Rightarrow> bool" where
  "proxy_cancelled s i tk \<longleftrightarrow> is_cancelled s i \<or> tk \<in> set (s_cancelled s)"

definition touch :: "nat \<Rightarrow> nat \<Rightarrow> server \<Rightarrow> server" where
  "touch now i s = upd_control i (\<lambda>c. c\<lparr>c_last_active := now\<rparr>) s"

definition idle_secs :: "nat \<Rightarrow> control \<Rightarrow> nat" where
  "idle_secs now c = now - c_last_active c"

definition send :: "nat \<Rightarrow> message \<Rightarrow> server \<Rightarrow> server" where
  "send i m s = (if is_cancelled s i then s else upd_control i (\<lambda>c. c\<lparr>c_out := c_out c @ [m]\<rparr>) s)"

text \<open>Waiting for a work connection ends with a connection, with the control's
  cancellation, or with the 20 second timeout (or a closed channel).\<close>

datatype waited = WaitGot nat | WaitCancelled | WaitTimeout

definition get_work_conn :: "nat \<Rightarrow> nat \<Rightarrow> waited \<Rightarrow> nat \<Rightarrow> server \<Rightarrow> (string + nat) \<times> server" where
  "get_work_conn now i w later s0 =
     (let s = touch now i s0 in
      case c_work (ctl s i) of
        conn # rest \<Rightarrow> (Ok conn, send i MReqWorkConn (upd_control i (\<lambda>c. c\<lparr>c_work := rest\<rparr>) s))
      | [] \<Rightarrow>
          (let s1 = send i MReqWorkConn s in
           case w of
             WaitCancelled \<Rightarrow> (Err ''control closed waiting for a work conn'', s1)
           | WaitGot conn \<Rightarrow> (Ok conn, touch later i s1)
           | WaitTimeout \<Rightarrow> (Err ''timeout waiting for work conn'', s1)))"

definition close_proxy :: "nat \<Rightarrow> string \<Rightarrow> server \<Rightarrow> server" where
  "close_proxy i name s =
     (case map_of (c_proxies (ctl s i)) name of
        None \<Rightarrow> s
      | Some tk \<Rightarrow>
          (let s1 = upd_control i (\<lambda>c. c\<lparr>c_proxies := AList.delete name (c_proxies c)\<rparr>) s;
               s2 = s1\<lparr>s_cancelled := tk # s_cancelled s1\<rparr>
           in case map_of (s_infos s2) name of
                None \<Rightarrow> s2
              | Some info \<Rightarrow>
                  release_proxy_port (px_proxy_type info) (px_remote_port info) name (remove_proxy name s2)))"

definition drop_reservation :: "nat \<Rightarrow> string \<Rightarrow> server \<Rightarrow> server" where
  "drop_reservation i name s = upd_control i (\<lambda>c. c\<lparr>c_proxies := AList.delete name (c_proxies c)\<rparr>) s"

definition close_all :: "nat \<Rightarrow> server \<Rightarrow> server" where
  "close_all i s = foldl (\<lambda>s n. close_proxy i n s) s (map fst (c_proxies (ctl s i)))"

definition forget_control :: "nat \<Rightarrow> server \<Rightarrow> server" where
  "forget_control i s =
     (let rid = c_run_id (ctl s i) in
      if map_of (s_controls s) rid = Some i then s\<lparr>s_controls := AList.delete rid (s_controls s)\<rparr> else s)"

definition go_offline :: "nat \<Rightarrow> server \<Rightarrow> server" where
  "go_offline i s =
     (if c_online (ctl s i)
      then (upd_control i (\<lambda>c. c\<lparr>c_online := False\<rparr>) s)\<lparr>s_clients_online := s_clients_online s - 1\<rparr>
      else s)"

definition teardown :: "nat \<Rightarrow> server \<Rightarrow> server" where
  "teardown i s =
     (let s1 = upd_control i (\<lambda>c. c\<lparr>c_cancelled := True, c_work := []\<rparr>) s;
          s2 = close_all i s1;
          s3 = forget_control i s2
      in go_offline i s3)"

text \<open>\<open>version.trim().split(['.', '-', '+'])\<close>.\<close>

fun split_any :: "char set \<Rightarrow> string \<Rightarrow> string list" where
  "split_any D [] = [[]]"
| "split_any D (c # cs) =
     (if c \<in> D then [] # split_any D cs
      else (case split_any D cs of [] \<Rightarrow> [[c]] | p # ps \<Rightarrow> (c # p) # ps))"

definition client_sends_heartbeats :: "string \<Rightarrow> bool" where
  "client_sends_heartbeats version =
     (case split_any {CHR ''.'', CHR ''-'', CHR ''+''} (trim version) of
        a # b # _ \<Rightarrow> (case (parse_unsigned 32 a, parse_unsigned 32 b) of
           (Some major, Some minor) \<Rightarrow> major = 0 \<and> minor < 52
         | _ \<Rightarrow> False)
      | _ \<Rightarrow> False)"

section \<open>Registering a proxy\<close>

text \<open>
  A registration passes through four phases, with an await between each and the next, so
  that anything else may happen in between: reserving the name on the control, claiming
  the port, binding the socket and answering, and recording the proxy. \<open>reg\<close> is what the
  task holds on to.
\<close>

record reg =
  r_ctl :: nat
  r_np :: new_proxy
  r_token :: nat
  r_port :: nat
  r_addr :: string

definition remote_port_of :: "new_proxy \<Rightarrow> nat option" where
  "remote_port_of np =
     (if 0 \<le> np_remote_port np \<and> np_remote_port np < 2 ^ 16 \<and> nat (np_remote_port np) \<noteq> 0
      then Some (nat (np_remote_port np)) else None)"

definition proxy_resp :: "string \<Rightarrow> string \<Rightarrow> string \<Rightarrow> message" where
  "proxy_resp name addr err = MNewProxyResp \<lparr> npr_proxy_name = name, npr_remote_addr = addr, npr_error = err \<rparr>"

definition proxy_error :: "nat \<Rightarrow> new_proxy \<Rightarrow> string \<Rightarrow> server \<Rightarrow> server" where
  "proxy_error i np err s = send i (proxy_resp (np_proxy_name np) [] err) s"

definition reserve_name :: "nat \<Rightarrow> string \<Rightarrow> nat \<Rightarrow> server \<Rightarrow> server" where
  "reserve_name i name tk s =
     (upd_control i (\<lambda>c. c\<lparr>c_proxies := AList.update name tk (c_proxies c)\<rparr>) s)\<lparr>s_next_token := Suc tk\<rparr>"

definition handle_new_proxy :: "nat \<Rightarrow> new_proxy \<Rightarrow> server \<Rightarrow> server \<times> reg option" where
  "handle_new_proxy i np s =
     (if is_cancelled s i then (s, None)
      else if map_of (c_proxies (ctl s i)) (np_proxy_name np) \<noteq> None
      then (proxy_error i np (''proxy name '' @ np_proxy_name np @ '' is already in use'') s, None)
      else
        (let tk = s_next_token s;
             s1 = reserve_name i (np_proxy_name np) tk s
         in if np_use_encryption np \<or> np_use_compression np
            then (proxy_error i np ''use_encryption/use_compression not supported by remgr-frps''
                   (drop_reservation i (np_proxy_name np) s1), None)
            else if np_proxy_type np = ''tcp'' \<or> np_proxy_type np = ''udp''
            then (s1, Some \<lparr> r_ctl = i, r_np = np, r_token = tk, r_port = 0, r_addr = [] \<rparr>)
            else (proxy_error i np (''proxy type \"'' @ np_proxy_type np @ ''\" not supported by remgr-frps'')
                   (drop_reservation i (np_proxy_name np) s1), None)))"

text \<open>\<open>start_tcp_proxy\<close> and \<open>start_udp_proxy\<close> up to the bind; they differ in the word \<open>tcp\<close> or
  \<open>udp\<close>, which is the proxy's type. \<open>parse_addr\<close> reads the socket address of the bind address
  and the port and gives its text.\<close>

definition start_proxy :: "(string \<Rightarrow> nat \<Rightarrow> string + string) \<Rightarrow> reg \<Rightarrow> server \<Rightarrow> server \<times> reg option" where
  "start_proxy parse_addr r s =
     (let i = r_ctl r; np = r_np r; name = np_proxy_name np; ty = np_proxy_type np; cfg = s_cfg s in
      case remote_port_of np of
        None \<Rightarrow> (proxy_error i np (''invalid remote port '' @ dec_string_int (np_remote_port np))
                  (drop_reservation i name s), None)
      | Some port \<Rightarrow>
          if \<not> port_allowed cfg port
          then (proxy_error i np (''remote port '' @ dec_string port @ '' not allowed'')
                 (drop_reservation i name s), None)
          else (case register_proxy_port ty port name s of
              Inl e \<Rightarrow> (proxy_error i np e (drop_reservation i name s), None)
            | Inr s1 \<Rightarrow>
                (case parse_addr (bind_addr cfg) port of
                   Inl e \<Rightarrow> (proxy_error i np (''invalid bind addr: '' @ e)
                              (drop_reservation i name (release_proxy_port ty port name s1)), None)
                 | Inr addr \<Rightarrow> (s1, Some (r\<lparr>r_port := port, r_addr := addr\<rparr>)))))"

datatype bind_error = AddrInUse | BindFailed string

text \<open>\<open>retry_while_port_busy\<close>: the \<open>n\<close>-th call of the bind closure answers \<open>bind n\<close>.\<close>

fun retry_from :: "nat \<Rightarrow> nat \<Rightarrow> (nat \<Rightarrow> bind_error + 'a) \<Rightarrow> bind_error option \<Rightarrow> bind_error + 'a" where
  "retry_from attempt 0 bnd prev =
     Err (case prev of Some e \<Rightarrow> e | None \<Rightarrow> BindFailed ''bind: no attempt made'')"
| "retry_from attempt (Suc left) bnd prev =
     (case bnd attempt of
        Inr bound \<Rightarrow> Ok bound
      | Inl AddrInUse \<Rightarrow> retry_from (Suc attempt) left bnd (Some AddrInUse)
      | Inl e \<Rightarrow> Err e)"

definition ATTEMPTS :: nat where "ATTEMPTS = 20"

definition retry_while_port_busy :: "(nat \<Rightarrow> bind_error + 'a) \<Rightarrow> bind_error + 'a" where
  "retry_while_port_busy bnd = retry_from 0 ATTEMPTS bnd None"

definition bind_error_text :: "(bind_error \<Rightarrow> string) \<Rightarrow> string \<Rightarrow> nat \<Rightarrow> bind_error \<Rightarrow> string" where
  "bind_error_text show_err ty port e = ''bind '' @ ty @ '' '' @ dec_string port @ '' failed: '' @ show_err e"

definition proxy_bound ::
  "(bind_error \<Rightarrow> string) \<Rightarrow> (nat \<Rightarrow> bind_error + unit) \<Rightarrow> reg \<Rightarrow> server \<Rightarrow> server \<times> reg option" where
  "proxy_bound show_err bnd r s =
     (let i = r_ctl r; np = r_np r; name = np_proxy_name np; ty = np_proxy_type np in
      case retry_while_port_busy bnd of
        Inl e \<Rightarrow> (proxy_error i np (bind_error_text show_err ty (r_port r) e)
                    (drop_reservation i name (release_proxy_port ty (r_port r) name s)), None)
      | Inr _ \<Rightarrow> (send i (proxy_resp name (r_addr r) []) s, Some r))"

definition proxy_finish :: "reg \<Rightarrow> server \<Rightarrow> server" where
  "proxy_finish r s =
     (let i = r_ctl r; np = r_np r; name = np_proxy_name np; ty = np_proxy_type np in
      if proxy_cancelled s i (r_token r)
      then close_proxy i name (release_proxy_port ty (r_port r) name s)
      else set_proxy \<lparr> px_proxy_name = name, px_proxy_type = ty, px_remote_port = r_port r,
             px_user = c_user (ctl s i), px_conns_total = 0 \<rparr> s)"

text \<open>The environment of the server: digest, JSON reader, address parser, error text and
  the sockets' answers to a bind, by type and port.\<close>

record env =
  e_md5 :: "bytes \<Rightarrow> bytes"
  e_from_slice :: "bytes \<Rightarrow> json option"
  e_parse_addr :: "string \<Rightarrow> nat \<Rightarrow> string + string"
  e_show_err :: "bind_error \<Rightarrow> string"
  e_bind :: "string \<Rightarrow> nat \<Rightarrow> nat \<Rightarrow> bind_error + unit"

text \<open>The rest of a registration that nothing interrupts, as the reader loop awaits it; the
  tcp and the udp function differ in the kind of socket and in the type they record.\<close>

definition run_start :: "env \<Rightarrow> reg \<Rightarrow> server \<Rightarrow> server" where
  "run_start e r1 s1 =
     (case start_proxy (e_parse_addr e) r1 s1 of
        (s2, None) \<Rightarrow> s2
      | (s2, Some r2) \<Rightarrow>
          (case proxy_bound (e_show_err e) (e_bind e (np_proxy_type (r_np r1)) (r_port r2)) r2 s2 of
             (s3, None) \<Rightarrow> s3
           | (s3, Some r3) \<Rightarrow> proxy_finish r3 s3))"

definition start_tcp_proxy :: "env \<Rightarrow> reg \<Rightarrow> server \<Rightarrow> server" where
  "start_tcp_proxy e r s = run_start e (r\<lparr>r_np := (r_np r)\<lparr>np_proxy_type := ''tcp''\<rparr>\<rparr>) s"

definition start_udp_proxy :: "env \<Rightarrow> reg \<Rightarrow> server \<Rightarrow> server" where
  "start_udp_proxy e r s = run_start e (r\<lparr>r_np := (r_np r)\<lparr>np_proxy_type := ''udp''\<rparr>\<rparr>) s"

definition new_proxy_inline :: "env \<Rightarrow> nat \<Rightarrow> new_proxy \<Rightarrow> server \<Rightarrow> server" where
  "new_proxy_inline e i np s =
     (case handle_new_proxy i np s of
        (s1, None) \<Rightarrow> s1
      | (s1, Some r1) \<Rightarrow>
          if np_proxy_type np = ''tcp'' then start_tcp_proxy e r1 s1 else start_udp_proxy e r1 s1)"

section \<open>The control's reader loop\<close>

datatype reader_end = SessionOver | ReaderErr string

definition hex_byte :: "u8 \<Rightarrow> string" where
  "hex_byte b = ''0x'' @ hex_lower [b]"

text \<open>One frame: the new state, or the reason the loop ends.\<close>

definition handle_frame :: "env \<Rightarrow> nat \<Rightarrow> nat \<Rightarrow> u8 \<times> bytes \<Rightarrow> server \<Rightarrow> server \<times> reader_end option" where
  "handle_frame e now i frame s0 =
     (let (tb, body) = frame; s = touch now i s0; doc = e_from_slice e body in
      if tb = TYPE_NEW_PROXY then
        (case Option.bind doc de_new_proxy of
           None \<Rightarrow> (s, Some (ReaderErr ''NewProxy parse''))
         | Some np \<Rightarrow> (new_proxy_inline e i np s, None))
      else if tb = TYPE_CLOSE_PROXY then
        (case Option.bind doc de_close_proxy of
           None \<Rightarrow> (s, Some (ReaderErr ''CloseProxy parse''))
         | Some cp \<Rightarrow> (close_proxy i (cp_proxy_name cp) s, None))
      else if tb = TYPE_PING then
        (case Option.bind doc de_ping of
           None \<Rightarrow> (s, Some (ReaderErr ''Ping parse''))
         | Some ping \<Rightarrow>
             (let err = (if pi_privilege_key ping = [] \<or>
                            auth_ok (e_md5 e) (token (s_cfg s)) (pi_timestamp ping) (pi_privilege_key ping)
                         then [] else ''authentication failed'')
              in (send i (MPong \<lparr> po_error = err \<rparr>) s, None)))
      else if tb = TYPE_NEW_WORK_CONN then (s, None)
      else if tb = TYPE_UDP_PACKET then (s, None)
      else if \<not> is_known_type tb then
        (s, Some (ReaderErr (''unknown frp control message type '' @ hex_byte tb)))
      else (s, None))"

text \<open>The loop over the frames of the control stream; each comes with the time it is read.
  When the frames are used up the stream is at its end, which is an error of the reader.
  Cancellation of the control is seen before the next frame.\<close>

fun control_reader_loop :: "env \<Rightarrow> nat \<Rightarrow> (nat \<times> u8 \<times> bytes) list \<Rightarrow> server \<Rightarrow> server \<times> reader_end" where
  "control_reader_loop e i [] s =
     (s, if is_cancelled s i then SessionOver else ReaderErr ''control stream: eof'')"
| "control_reader_loop e i ((now, frame) # frames) s =
     (if is_cancelled s i then (s, SessionOver)
      else case handle_frame e now i frame s of
             (s', Some stop) \<Rightarrow> (s', stop)
           | (s', None) \<Rightarrow> control_reader_loop e i frames s')"

section \<open>Login\<close>

datatype login_error = NotLogin u8 | LoginJson | AuthFailed string

text \<open>Checking a login and clearing the way for it: the session id, or the failure. On a
  wrong key the client is answered \<open>authentication failed\<close>.\<close>

definition login_begin ::
  "env \<Rightarrow> string \<Rightarrow> u8 \<times> bytes \<Rightarrow> server \<Rightarrow> (login_error + login \<times> string) \<times> server \<times> login_resp option" where
  "login_begin e uuid first s =
     (let (tb, body) = first in
      if tb \<noteq> TYPE_LOGIN then (Err (NotLogin tb), s, None)
      else case Option.bind (e_from_slice e body) de_login of
        None \<Rightarrow> (Err LoginJson, s, None)
      | Some login \<Rightarrow>
          if \<not> auth_ok (e_md5 e) (token (s_cfg s)) (lg_timestamp login) (lg_privilege_key login)
          then (Err (AuthFailed (lg_user login)), s,
                Some \<lparr> lr_version = [], lr_run_id = [], lr_error = ''authentication failed'' \<rparr>)
          else
            (let s1 = s\<lparr>s_total_logins := s_total_logins s + 1\<rparr>;
                 rid = (if lg_run_id login = [] then uuid else lg_run_id login);
                 s2 = (case map_of (s_controls s1) rid of Some old \<Rightarrow> teardown old s1 | None \<Rightarrow> s1)
             in (Ok (login, rid), s2, Some \<lparr> lr_version = ''0.51.3'', lr_run_id = rid, lr_error = [] \<rparr>)))"

definition clamp_pool :: "int \<Rightarrow> nat \<Rightarrow> nat" where
  "clamp_pool count cap = nat (max 0 (min count (int cap)))"

definition new_control :: "nat \<Rightarrow> login \<Rightarrow> string \<Rightarrow> control" where
  "new_control now login rid = \<lparr> c_run_id = rid, c_user = lg_user login, c_out = [], c_work = [],
     c_last_active = now, c_enforce_idle = client_sends_heartbeats (lg_version login),
     c_cancelled = False, c_online = True, c_proxies = [] \<rparr>"

text \<open>Once the response has been written: the control goes into the map and its pool of
  work connections is requested.\<close>

definition login_finish :: "nat \<Rightarrow> login \<Rightarrow> string \<Rightarrow> server \<Rightarrow> nat \<times> server" where
  "login_finish now login rid s =
     (let i = length (s_heap s);
          s1 = s\<lparr>s_clients_online := s_clients_online s + 1,
                 s_heap := s_heap s @ [new_control now login rid],
                 s_controls := AList.update rid i (s_controls s)\<rparr>;
          pool = clamp_pool (lg_pool_count login) (max_pool_count (s_cfg s))
      in (i, ((send i MReqWorkConn) ^^ pool) s1))"

text \<open>A whole control connection whose frames nothing interleaves with; \<open>written\<close> says
  whether the login response could be written.\<close>

definition run_control_with_login ::
  "env \<Rightarrow> string \<Rightarrow> nat \<Rightarrow> bool \<Rightarrow> u8 \<times> bytes \<Rightarrow> (nat \<times> u8 \<times> bytes) list \<Rightarrow> server \<Rightarrow> server" where
  "run_control_with_login e uuid now written first frames s =
     (case login_begin e uuid first s of
        (Inl err, s1, _) \<Rightarrow> s1
      | (Inr (login, rid), s1, _) \<Rightarrow>
          if \<not> written then s1
          else (let (i, s2) = login_finish now login rid s1;
                    (s3, _) = control_reader_loop e i frames s2
                in teardown i s3))"

section \<open>Work connections\<close>

definition work_conn_target :: "env \<Rightarrow> u8 \<times> bytes \<Rightarrow> server \<Rightarrow> string + nat" where
  "work_conn_target e first s =
     (let (tb, body) = first in
      if tb \<noteq> TYPE_NEW_WORK_CONN
      then Err (''first message on work conn is not NewWorkConn (type '' @ hex_byte tb @ '')'')
      else case Option.bind (e_from_slice e body) de_new_work_conn of
        None \<Rightarrow> Err ''NewWorkConn parse''
      | Some nwc \<Rightarrow>
          (case map_of (s_controls s) (nw_run_id nwc) of
             None \<Rightarrow> Err (''work conn for unknown run_id '' @ nw_run_id nwc)
           | Some i \<Rightarrow>
               if nw_privilege_key nwc \<noteq> [] \<and>
                  \<not> auth_ok (e_md5 e) (token (s_cfg s)) (nw_timestamp nwc) (nw_privilege_key nwc)
               then Err (''work conn privilege key invalid for run_id '' @ nw_run_id nwc)
               else Ok i))"

definition start_work_error :: "string \<Rightarrow> start_work_conn" where
  "start_work_error err = \<lparr> sw_proxy_name = [], sw_src_addr = [], sw_dst_addr = [], sw_src_port = 0,
     sw_dst_port = 0, sw_error = err \<rparr>"

definition handle_work_io_with_frame ::
  "env \<Rightarrow> nat \<Rightarrow> nat \<Rightarrow> u8 \<times> bytes \<Rightarrow> server \<Rightarrow> server \<times> start_work_conn option" where
  "handle_work_io_with_frame e now conn first s =
     (case work_conn_target e first s of
        Inl err \<Rightarrow> (s, Some (start_work_error err))
      | Inr i \<Rightarrow> (upd_control i (\<lambda>c. c\<lparr>c_work := c_work c @ [conn]\<rparr>) (touch now i s), None))"

section \<open>The server\<close>

text \<open>One tick of the heartbeat monitor.\<close>

definition heartbeat_tick :: "nat \<Rightarrow> server \<Rightarrow> server" where
  "heartbeat_tick now s =
     (let timeout = heartbeat_timeout (s_cfg s) in
      if timeout = 0 then s
      else foldl (\<lambda>s i. if c_enforce_idle (ctl s i) \<and> idle_secs now (ctl s i) > timeout
                        then teardown i s else s)
             s (map snd (s_controls s)))"

definition server_stop :: "server \<Rightarrow> server" where
  "server_stop s = foldl (\<lambda>s i. teardown i s) (s\<lparr>s_stopped := True\<rparr>) (map snd (s_controls s))"

datatype first_io = TlsAfterMarker | TlsReplay u8 | PlainReplay u8

definition sniff :: "u8 \<Rightarrow> first_io" where
  "sniff b = (if b = 0x17 then TlsAfterMarker else if b = 0x16 then TlsReplay b else PlainReplay b)"

datatype dispatch = ToControl | ToWork | BadFirst string

definition dispatch_first_frame :: "u8 \<times> bytes \<Rightarrow> dispatch" where
  "dispatch_first_frame first =
     (if fst first = TYPE_LOGIN then ToControl
      else if fst first = TYPE_NEW_WORK_CONN then ToWork
      else BadFirst (''unexpected first frp message type '' @ hex_byte (fst first)))"

section \<open>Moving bytes and datagrams\<close>

text \<open>One direction of a bridge: what each read gives and whether the write that follows
  succeeds. The result is the bytes written out and the traffic counter.\<close>

fun pump :: "(bytes option \<times> bool) list \<Rightarrow> u64 \<Rightarrow> bytes \<times> u64" where
  "pump [] counter = ([], counter)"
| "pump ((None, w) # evs) counter = ([], counter)"
| "pump ((Some bs, w) # evs) counter =
     (if bs = [] then ([], counter)
      else if \<not> w then ([], counter + of_nat (length bs))
      else (let (out, k) = pump evs (counter + of_nat (length bs)) in (bs @ out, k)))"

text \<open>The read half of a udp work connection: the datagrams it sends and the traffic count.\<close>

fun udp_read_half ::
  "(bytes \<Rightarrow> json option) \<Rightarrow> (string \<Rightarrow> bytes option) \<Rightarrow> (string \<Rightarrow> 'ip option) \<Rightarrow>
   (u8 \<times> bytes) list \<Rightarrow> u64 \<Rightarrow> (bytes \<times> 'ip \<times> nat) list \<times> u64" where
  "udp_read_half from_slice b64_decode ip_parse [] k = ([], k)"
| "udp_read_half from_slice b64_decode ip_parse ((tb, body) # frames) k =
     (if tb = TYPE_PING then udp_read_half from_slice b64_decode ip_parse frames k
      else if tb \<noteq> TYPE_UDP_PACKET then ([], k)
      else case Option.bind (from_slice body) de_udp_packet of
        None \<Rightarrow> ([], k)
      | Some pkt \<Rightarrow>
          (case udp_content b64_decode pkt of
             Inl _ \<Rightarrow> ([], k)
           | Inr content \<Rightarrow>
               (case remote_socket_addr ip_parse pkt of
                  None \<Rightarrow> udp_read_half from_slice b64_decode ip_parse frames k
                | Some remote \<Rightarrow>
                    (let (out, k') = udp_read_half from_slice b64_decode ip_parse frames
                                       (k + of_nat (length content))
                     in ((content, remote) # out, k')))))"

text \<open>The send half: each datagram received on the socket becomes one frame, until a
  receive or a write fails.\<close>

fun udp_send_half ::
  "(json \<Rightarrow> bytes option) \<Rightarrow> (bytes \<Rightarrow> string) \<Rightarrow> ('ip \<Rightarrow> string) \<Rightarrow> ('ip \<times> nat) option \<Rightarrow>
   ((bytes \<times> 'ip \<times> nat) option \<times> bool) list \<Rightarrow> u64 \<Rightarrow> bytes \<times> u64" where
  "udp_send_half to_vec b64_encode ip_text local [] k = ([], k)"
| "udp_send_half to_vec b64_encode ip_text local ((None, w) # evs) k = ([], k)"
| "udp_send_half to_vec b64_encode ip_text local ((Some (bs, src), w) # evs) k =
     (let k1 = k + of_nat (length bs) in
      case write_msg to_vec (ser_udp_packet (udp_from_content b64_encode ip_text bs local src)) TYPE_UDP_PACKET of
        Inl _ \<Rightarrow> ([], k1)
      | Inr wire \<Rightarrow>
          if \<not> w then ([], k1)
          else (let (out, k') = udp_send_half to_vec b64_encode ip_text local evs k1 in (wire @ out, k')))"

section \<open>User connections\<close>

text \<open>An accepted user connection is counted and bridged: it takes a work connection, which
  is told the proxy's name and the user's address before any byte.\<close>

definition accept_user :: "server \<Rightarrow> server" where
  "accept_user s = s\<lparr>s_total_user_conns := s_total_user_conns s + 1\<rparr>"

definition bridge_tcp_user ::
  "nat \<Rightarrow> nat \<Rightarrow> waited \<Rightarrow> nat \<Rightarrow> string \<Rightarrow> string \<times> nat \<Rightarrow> (string \<times> nat) option \<Rightarrow>
   (bytes option \<times> bool) list \<Rightarrow> (bytes option \<times> bool) list \<Rightarrow> server \<Rightarrow>
   (string + nat \<times> start_work_conn \<times> bytes \<times> bytes) \<times> server" where
  "bridge_tcp_user now i w later name peer local from_work from_user s =
     (case get_work_conn now i w later s of
        (Inl err, s1) \<Rightarrow> (Err err, s1)
      | (Inr conn, s1) \<Rightarrow>
          (let swc = \<lparr> sw_proxy_name = name, sw_src_addr = fst peer,
                       sw_dst_addr = (case local of Some a \<Rightarrow> fst a | None \<Rightarrow> []),
                       sw_src_port = snd peer, sw_dst_port = (case local of Some a \<Rightarrow> snd a | None \<Rightarrow> 0),
                       sw_error = [] \<rparr>;
               (to_user, k_in) = pump from_work (s_bytes_in s1);
               (to_work, k_out) = pump from_user (s_bytes_out s1)
           in (Ok (conn, swc, to_user, to_work), s1\<lparr>s_bytes_in := k_in, s_bytes_out := k_out\<rparr>)))"

section \<open>Starting and reporting\<close>

record server_stats =
  st_running :: bool
  st_bind :: string
  st_clients_online :: u64
  st_total_logins :: u64
  st_total_user_conns :: u64
  st_bytes_in :: u64
  st_bytes_out :: u64
  st_proxies :: "proxy_info list"

definition stats :: "bool \<Rightarrow> server \<Rightarrow> server_stats" where
  "stats running s = \<lparr> st_running = running,
     st_bind = bind_addr (s_cfg s) @ '':'' @ dec_string (server_port (s_cfg s)),
     st_clients_online = s_clients_online s, st_total_logins = s_total_logins s,
     st_total_user_conns = s_total_user_conns s, st_bytes_in = s_bytes_in s,
     st_bytes_out = s_bytes_out s, st_proxies = snapshot s \<rparr>"

text \<open>The certificate the server presents: the configured pair when both files can be read,
  an ephemeral self-signed one otherwise.\<close>

datatype tls_material = ConfiguredPem string string | EphemeralPem

definition tls_choice :: "(string \<Rightarrow> string option) \<Rightarrow> frps_config \<Rightarrow> tls_material" where
  "tls_choice read_file cfg =
     (case (tls_cert_path cfg, tls_key_path cfg) of
        (Some c, Some k) \<Rightarrow>
          if c \<noteq> [] \<and> k \<noteq> [] then
            (case (read_file c, read_file k) of
               (Some cert, Some key) \<Rightarrow> ConfiguredPem cert key
             | _ \<Rightarrow> EphemeralPem)
          else EphemeralPem
      | _ \<Rightarrow> EphemeralPem)"

datatype start_outcome = AlreadyRunning | StartFailed string | Listening string

definition server_start ::
  "(tls_material \<Rightarrow> string option) \<Rightarrow> (string \<Rightarrow> string option) \<Rightarrow> (string \<Rightarrow> nat \<Rightarrow> string + string) \<Rightarrow>
   (string \<Rightarrow> string option) \<Rightarrow> bool \<Rightarrow> frps_config \<Rightarrow> start_outcome" where
  "server_start tls_error read_file parse_addr bind_error_of running cfg =
     (if running then AlreadyRunning
      else if server_port cfg = 0 then StartFailed ''frps server_port is 0''
      else case tls_error (tls_choice read_file cfg) of
        Some e \<Rightarrow> StartFailed e
      | None \<Rightarrow>
          (case parse_addr (bind_addr cfg) (server_port cfg) of
             Inl e \<Rightarrow> StartFailed e
           | Inr addr \<Rightarrow> (case bind_error_of addr of Some e \<Rightarrow> StartFailed e | None \<Rightarrow> Listening addr)))"

end
