(* ===== verification/Frps_Control.thy ===== *)
theory Frps_Control
  imports Frps_Server
begin

unbundle bit_operations_syntax

text \<open>
  What holds of the embedded frp server: authentication is equality of keys, the port
  registry serves one name per port, a registration either succeeds entirely or leaves
  nothing behind, and the bookkeeping of controls (the online counter, the map of live
  sessions, the emptiness of a torn-down control) is an invariant of every interleaving of
  the server's atomic steps.
\<close>

named_theorems frps_frame \<open>what an operation leaves alone\<close>

section \<open>Authentication\<close>

lemma or_eq_0_iff: "(a :: u8) OR b = 0 \<longleftrightarrow> a = 0 \<and> b = 0"
  by (auto simp: bit_eq_iff bit_or_iff)

lemma xor_eq_0_iff: "(a :: u8) XOR b = 0 \<longleftrightarrow> a = b"
  by (auto simp: bit_eq_iff bit_xor_iff)

lemma diff_fold:
  "length xs = length ys \<Longrightarrow>
   foldl (\<lambda>diff (a, b). diff OR (a XOR b)) d (zip xs ys) = (0 :: u8) \<longleftrightarrow> d = 0 \<and> xs = ys"
proof (induction xs ys arbitrary: d rule: list_induct2)
  case (Cons x xs y ys)
  then show ?case by (auto simp: or_eq_0_iff xor_eq_0_iff)
qed simp

lemma auth_ok_iff: "auth_ok md5 tok ts key \<longleftrightarrow> key = auth_key md5 tok ts"
  by (auto simp: auth_ok_def Let_def diff_fold)

section \<open>The port registry\<close>

text \<open>
  What proxy registration needs of the registry: a port has at most one owner, a claim is
  refused exactly when somebody else owns the port, and a release removes only what the
  releasing name owns.
\<close>

locale port_registry =
  fixes owner :: "'r \<Rightarrow> nat \<Rightarrow> string option"
    and claim :: "nat \<Rightarrow> string \<Rightarrow> 'r \<Rightarrow> 'e + 'r"
    and release :: "nat \<Rightarrow> string \<Rightarrow> 'r \<Rightarrow> 'r"
  assumes claim_ok: "claim p n r = Inr r' \<Longrightarrow> owner r' q = (if q = p then Some n else owner r q)"
    and claim_refused: "(\<exists>e. claim p n r = Inl e) \<longleftrightarrow> (\<exists>m. owner r p = Some m \<and> m \<noteq> n)"
    and release_owner: "owner (release p n r) q = (if q = p \<and> owner r p = Some n then None else owner r q)"
begin

text \<open>An operation on behalf of a name; a refused claim changes nothing.\<close>

fun run_op :: "bool \<times> nat \<times> string \<Rightarrow> 'r \<Rightarrow> 'r" where
  "run_op (True, p, n) r = (case claim p n r of Inr r' \<Rightarrow> r' | Inl _ \<Rightarrow> r)"
| "run_op (False, p, n) r = release p n r"

lemma run_op_keeps_owner:
  assumes "owner r p = Some m" "snd (snd op) \<noteq> m"
  shows "owner (run_op op r) p = Some m"
proof (cases "(op, r)" rule: run_op.cases)
  case (1 q n r')
  then show ?thesis
    using assms claim_refused [of q n r] claim_ok [of q n r _ p] by (auto split: sum.splits)
next
  case (2 q n r')
  then show ?thesis using assms release_owner [of q n r p] by auto
qed

lemma run_ops_keep_owner:
  "owner r p = Some m \<Longrightarrow> list_all (\<lambda>op. snd (snd op) \<noteq> m) ops \<Longrightarrow> owner (fold run_op ops r) p = Some m"
  by (induction ops arbitrary: r) (auto simp: run_op_keeps_owner)

lemma claim_after_release:
  "owner r p = Some n \<Longrightarrow> \<exists>r'. claim p m (release p n r) = Inr r' \<and> owner r' p = Some m"
  using claim_refused [of p m "release p n r"] release_owner [of p n r p]
  by (cases "claim p m (release p n r)") (auto simp: claim_ok)

end

interpretation ports: port_registry "map_of" register_port release_port
proof unfold_locales
  fix p n r r' q
  assume "register_port p n r = Inr r'"
  then show "map_of r' q = (if q = p then Some n else map_of r q)"
    by (auto simp: register_port_def update_conv' split: option.splits if_splits)
next
  fix p n and r :: "(nat \<times> string) list"
  show "(\<exists>e. register_port p n r = Inl e) \<longleftrightarrow> (\<exists>m. map_of r p = Some m \<and> m \<noteq> n)"
    by (auto simp: register_port_def split: option.splits)
next
  fix p n and r :: "(nat \<times> string) list" and q
  show "map_of (release_port p n r) q = (if q = p \<and> map_of r p = Some n then None else map_of r q)"
    by (auto simp: release_port_def delete_conv')
qed

section \<open>What the operations leave alone\<close>

definition onlines :: "server \<Rightarrow> bool list" where
  "onlines s = map c_online (s_heap s)"

lemma map_upd_control:
  assumes "\<And>c. g (f c) = g c"
  shows "map g (s_heap (upd_control i f s)) = map g (s_heap s)"
proof (cases "i < length (s_heap s)")
  case True
  then have "(map g (s_heap s))[i := g (s_heap s ! i)] = map g (s_heap s)"
    by (metis list_update_id nth_map)
  then show ?thesis by (simp add: upd_control_def map_update assms)
qed (simp add: upd_control_def list_update_beyond)

lemma upd_control_simps [simp]:
  "s_cfg (upd_control i f s) = s_cfg s"
  "s_total_logins (upd_control i f s) = s_total_logins s"
  "s_clients_online (upd_control i f s) = s_clients_online s"
  "s_infos (upd_control i f s) = s_infos s"
  "s_stopped (upd_control i f s) = s_stopped s"
  "s_controls (upd_control i f s) = s_controls s"
  "s_tcp_ports (upd_control i f s) = s_tcp_ports s"
  "s_udp_ports (upd_control i f s) = s_udp_ports s"
  "s_cancelled (upd_control i f s) = s_cancelled s"
  "s_next_token (upd_control i f s) = s_next_token s"
  "length (s_heap (upd_control i f s)) = length (s_heap s)"
  by (simp_all add: upd_control_def)

lemma ctl_upd_control:
  "i < length (s_heap s) \<Longrightarrow> ctl (upd_control i f s) j = (if j = i then f (ctl s i) else ctl s j)"
  by (auto simp: ctl_def upd_control_def)

lemma ctl_field_upd [simp]:
  "ctl (s\<lparr>s_infos := a\<rparr>) = ctl s" "ctl (s\<lparr>s_controls := b\<rparr>) = ctl s" "ctl (s\<lparr>s_tcp_ports := d\<rparr>) = ctl s"
  "ctl (s\<lparr>s_udp_ports := d\<rparr>) = ctl s" "ctl (s\<lparr>s_cancelled := l\<rparr>) = ctl s" "ctl (s\<lparr>s_next_token := n\<rparr>) = ctl s"
  "ctl (s\<lparr>s_clients_online := w\<rparr>) = ctl s" "ctl (s\<lparr>s_total_logins := w\<rparr>) = ctl s" "ctl (s\<lparr>s_stopped := x\<rparr>) = ctl s"
  by (simp_all add: ctl_def fun_eq_iff)

lemma ports_frame [frps_frame]:
  "s_heap (release_proxy_port ty p n s) = s_heap s"
  "s_clients_online (release_proxy_port ty p n s) = s_clients_online s"
  "s_controls (release_proxy_port ty p n s) = s_controls s"
  "s_infos (release_proxy_port ty p n s) = s_infos s"
  "s_stopped (release_proxy_port ty p n s) = s_stopped s"
  "s_cfg (release_proxy_port ty p n s) = s_cfg s"
  "s_next_token (release_proxy_port ty p n s) = s_next_token s"
  "s_cancelled (release_proxy_port ty p n s) = s_cancelled s"
  by (simp_all add: release_proxy_port_def)

lemma register_frame:
  assumes "register_proxy_port ty p n s = Inr s'"
  shows "s_heap s' = s_heap s" "s_clients_online s' = s_clients_online s" "s_controls s' = s_controls s"
    "s_infos s' = s_infos s" "s_stopped s' = s_stopped s" "s_cfg s' = s_cfg s"
    "s_next_token s' = s_next_token s" "s_cancelled s' = s_cancelled s"
  using assms by (auto simp: register_proxy_port_def bind_result_ok_iff split: if_splits)

lemma close_proxy_heap:
  "s_heap (close_proxy i n s) = s_heap (upd_control i (\<lambda>c. c\<lparr>c_proxies := AList.delete n (c_proxies c)\<rparr>) s)"
proof (cases "map_of (c_proxies (ctl s i)) n")
  case None
  then have "n \<notin> fst ` set (c_proxies (ctl s i))" by (simp add: map_of_eq_None_iff)
  then have "(ctl s i)\<lparr>c_proxies := AList.delete n (c_proxies (ctl s i))\<rparr> = ctl s i" by simp
  then show ?thesis using None by (simp add: close_proxy_def upd_control_def ctl_def)
qed (simp add: close_proxy_def Let_def frps_frame remove_proxy_def upd_control_def split: option.splits)

lemma close_proxy_frame [frps_frame]:
  "s_clients_online (close_proxy i n s) = s_clients_online s"
  "s_controls (close_proxy i n s) = s_controls s"
  "s_stopped (close_proxy i n s) = s_stopped s"
  "s_cfg (close_proxy i n s) = s_cfg s"
  "s_next_token (close_proxy i n s) = s_next_token s"
  by (simp_all add: close_proxy_def Let_def frps_frame remove_proxy_def split: option.splits)

definition drop_names :: "string list \<Rightarrow> (string \<times> nat) list \<Rightarrow> (string \<times> nat) list" where
  "drop_names ns l = filter (\<lambda>(k, v). k \<notin> set ns) l"

lemma close_many_heap:
  "i < length (s_heap s) \<Longrightarrow>
   s_heap (foldl (\<lambda>s n. close_proxy i n s) s ns) =
     s_heap (upd_control i (\<lambda>c. c\<lparr>c_proxies := drop_names ns (c_proxies c)\<rparr>) s)"
proof (induction ns arbitrary: s)
  case Nil
  have "drop_names [] l = l" for l by (simp add: drop_names_def)
  then show ?case by (simp add: upd_control_def ctl_def)
next
  case (Cons n ns)
  let ?c = "ctl s i"
  have del: "drop_names ns (AList.delete n l) = drop_names (n # ns) l" for l
    unfolding drop_names_def AList.delete_eq by (auto intro!: filter_cong)
  have len: "i < length (s_heap (close_proxy i n s))" using Cons.prems by (simp add: close_proxy_heap)
  have "ctl (close_proxy i n s) i = ?c\<lparr>c_proxies := AList.delete n (c_proxies ?c)\<rparr>"
    using Cons.prems by (simp add: ctl_def close_proxy_heap upd_control_def)
  then show ?case
    using Cons.IH [OF len] Cons.prems
    by (simp add: upd_control_def ctl_def close_proxy_heap del)
qed

lemma close_many_frame [frps_frame]:
  "s_clients_online (foldl (\<lambda>s n. close_proxy i n s) s ns) = s_clients_online s"
  "s_controls (foldl (\<lambda>s n. close_proxy i n s) s ns) = s_controls s"
  "s_stopped (foldl (\<lambda>s n. close_proxy i n s) s ns) = s_stopped s"
  "s_cfg (foldl (\<lambda>s n. close_proxy i n s) s ns) = s_cfg s"
  "s_next_token (foldl (\<lambda>s n. close_proxy i n s) s ns) = s_next_token s"
  by (induction ns arbitrary: s) (simp_all add: frps_frame)

lemma drop_all_names: "drop_names (map fst l) l = []"
  by (auto simp: drop_names_def filter_empty_conv image_iff split: prod.splits) (metis fst_conv)

definition torn :: "control \<Rightarrow> control" where
  "torn c = c\<lparr>c_cancelled := True, c_work := [], c_proxies := [], c_online := False\<rparr>"

lemma close_all_heap:
  assumes "i < length (s_heap s)"
  shows "s_heap (close_all i s) = (s_heap s)[i := (ctl s i)\<lparr>c_proxies := []\<rparr>]"
  using close_many_heap [OF assms, of "map fst (c_proxies (ctl s i))"] drop_all_names [of "c_proxies (ctl s i)"]
  by (simp add: close_all_def upd_control_def ctl_def)

lemma close_all_frame [frps_frame]:
  "s_clients_online (close_all i s) = s_clients_online s" "s_controls (close_all i s) = s_controls s"
  "s_stopped (close_all i s) = s_stopped s" "s_cfg (close_all i s) = s_cfg s"
  "s_next_token (close_all i s) = s_next_token s"
  by (simp_all add: close_all_def frps_frame)

lemma teardown_effect:
  assumes "i < length (s_heap s)"
  shows "s_heap (teardown i s) = (s_heap s)[i := torn (ctl s i)]"
    and "s_clients_online (teardown i s) = s_clients_online s - (if c_online (ctl s i) then 1 else 0)"
    and "s_controls (teardown i s) =
      (if map_of (s_controls s) (c_run_id (ctl s i)) = Some i
       then AList.delete (c_run_id (ctl s i)) (s_controls s) else s_controls s)"
    and "s_stopped (teardown i s) = s_stopped s" "s_cfg (teardown i s) = s_cfg s"
proof -
  define s1 where "s1 = upd_control i (\<lambda>c. c\<lparr>c_cancelled := True, c_work := []\<rparr>) s"
  define s3 where "s3 = forget_control i (close_all i s1)"
  have "i < length (s_heap s1)" using assms by (simp add: s1_def)
  then have h3: "s_heap s3 = (s_heap s)[i := (ctl s i)\<lparr>c_cancelled := True, c_work := [], c_proxies := []\<rparr>]"
    using assms by (simp add: s3_def forget_control_def Let_def close_all_heap s1_def upd_control_def ctl_def)
  have c3: "ctl s3 i = (ctl s i)\<lparr>c_cancelled := True, c_work := [], c_proxies := []\<rparr>"
    using assms by (simp add: ctl_def h3)
  have ctl1: "ctl (close_all i s1) i = (ctl s i)\<lparr>c_cancelled := True, c_work := [], c_proxies := []\<rparr>"
    using assms by (simp add: ctl_def close_all_heap s1_def upd_control_def)
  have f3: "s_clients_online s3 = s_clients_online s" "s_stopped s3 = s_stopped s" "s_cfg s3 = s_cfg s"
    "s_controls s3 = (if map_of (s_controls s) (c_run_id (ctl s i)) = Some i
       then AList.delete (c_run_id (ctl s i)) (s_controls s) else s_controls s)"
    by (simp_all add: s3_def forget_control_def Let_def frps_frame s1_def [symmetric] ctl1)
       (simp_all add: s1_def)
  have t: "teardown i s = go_offline i s3"
    by (simp add: teardown_def s1_def s3_def Let_def)
  have off: "(ctl s i)\<lparr>c_cancelled := True, c_work := [], c_proxies := []\<rparr> = torn (ctl s i)"
    if "\<not> c_online (ctl s i)"
    using that by (cases "ctl s i") (simp add: torn_def)
  show "s_heap (teardown i s) = (s_heap s)[i := torn (ctl s i)]"
  proof (cases "c_online (ctl s i)")
    case True
    then show ?thesis using assms by (simp add: t go_offline_def c3 h3 upd_control_def torn_def)
  next
    case False
    then show ?thesis using off by (simp add: t go_offline_def c3 h3) (simp add: torn_def)
  qed
  show "s_clients_online (teardown i s) = s_clients_online s - (if c_online (ctl s i) then 1 else 0)"
    by (simp add: t go_offline_def c3 f3)
  show "s_controls (teardown i s) = (if map_of (s_controls s) (c_run_id (ctl s i)) = Some i
       then AList.delete (c_run_id (ctl s i)) (s_controls s) else s_controls s)"
    by (simp add: t go_offline_def f3)
  show "s_stopped (teardown i s) = s_stopped s" "s_cfg (teardown i s) = s_cfg s"
    by (simp_all add: t go_offline_def f3)
qed

section \<open>The bookkeeping of controls\<close>

definition control_ok :: "control \<Rightarrow> bool" where
  "control_ok c \<longleftrightarrow> (c_cancelled c \<longleftrightarrow> \<not> c_online c) \<and> (c_cancelled c \<longrightarrow> c_proxies c = []) \<and>
     distinct (map fst (c_proxies c))"

definition controls_ok :: "server \<Rightarrow> bool" where
  "controls_ok s \<longleftrightarrow> distinct (map fst (s_controls s)) \<and>
     (\<forall>(rid, i) \<in> set (s_controls s). i < length (s_heap s) \<and> c_run_id (ctl s i) = rid \<and> c_online (ctl s i))"

definition server_inv :: "server \<Rightarrow> bool" where
  "server_inv s \<longleftrightarrow> s_clients_online s = of_nat (length (filter id (onlines s))) \<and>
     controls_ok s \<and> list_all control_ok (s_heap s)"

lemma server_inv_frame:
  "s_heap s' = s_heap s \<Longrightarrow> s_clients_online s' = s_clients_online s \<Longrightarrow> s_controls s' = s_controls s \<Longrightarrow>
     server_inv s' = server_inv s"
  by (simp add: server_inv_def controls_ok_def onlines_def ctl_def)

lemma controls_ok_frame:
  assumes "controls_ok s" "s_controls s' = s_controls s"
    "map c_run_id (s_heap s') = map c_run_id (s_heap s)" "onlines s' = onlines s"
  shows "controls_ok s'"
proof -
  have len: "length (s_heap s') = length (s_heap s)" using assms(3) by (metis length_map)
  have "c_run_id (ctl s' j) = c_run_id (ctl s j) \<and> c_online (ctl s' j) = c_online (ctl s j)"
    if "j < length (s_heap s)" for j
    using assms(3,4) that len unfolding ctl_def onlines_def by (metis nth_map)
  then show ?thesis using assms(1,2) len by (fastforce simp: controls_ok_def)
qed

lemma server_inv_upd:
  assumes "server_inv s" "\<And>c. c_online (f c) = c_online c" "\<And>c. c_run_id (f c) = c_run_id c"
    and "i < length (s_heap s) \<Longrightarrow> control_ok (f (ctl s i))"
  shows "server_inv (upd_control i f s)"
proof -
  have maps: "onlines (upd_control i f s) = onlines s"
    "map c_run_id (s_heap (upd_control i f s)) = map c_run_id (s_heap s)"
    using map_upd_control [of c_online f] map_upd_control [of c_run_id f] assms(2,3)
    by (simp_all add: onlines_def)
  have "list_all control_ok (s_heap (upd_control i f s))"
    using assms(1,4) by (cases "i < length (s_heap s)")
      (auto simp: server_inv_def list_all_iff upd_control_def ctl_def list_update_beyond
        dest!: set_update_subset_insert [THEN subsetD])
  then show ?thesis
    using assms(1) maps controls_ok_frame [of s "upd_control i f s"] by (auto simp: server_inv_def)
qed

lemma control_ok_at: "server_inv s \<Longrightarrow> i < length (s_heap s) \<Longrightarrow> control_ok (ctl s i)"
  by (simp add: server_inv_def list_all_iff ctl_def)

lemma control_ok_delete:
  "control_ok c \<Longrightarrow> control_ok (c\<lparr>c_proxies := AList.delete n (c_proxies c)\<rparr>)"
  by (auto simp: control_ok_def distinct_delete)

lemma control_ok_other [simp]:
  "control_ok (c\<lparr>c_out := m\<rparr>) = control_ok c" "control_ok (c\<lparr>c_work := w\<rparr>) = control_ok c"
  "control_ok (c\<lparr>c_last_active := t\<rparr>) = control_ok c"
  by (simp_all add: control_ok_def)

lemma send_inv: "server_inv s \<Longrightarrow> server_inv (send i m s)"
  by (auto simp: send_def intro!: server_inv_upd control_ok_at)

lemma touch_inv: "server_inv s \<Longrightarrow> server_inv (touch now i s)"
  by (auto simp: touch_def intro!: server_inv_upd control_ok_at)

lemma drop_reservation_inv: "server_inv s \<Longrightarrow> server_inv (drop_reservation i n s)"
  unfolding drop_reservation_def by (rule server_inv_upd) (auto intro!: control_ok_delete control_ok_at)

lemma close_proxy_inv: "server_inv s \<Longrightarrow> server_inv (close_proxy i n s)"
  using drop_reservation_inv [of s i n]
    server_inv_frame [of "close_proxy i n s" "drop_reservation i n s"]
  by (simp add: drop_reservation_def close_proxy_heap frps_frame)

lemma release_inv: "server_inv (release_proxy_port ty p n s) = server_inv s"
  by (rule server_inv_frame) (simp_all add: frps_frame)

lemma register_inv: "register_proxy_port ty p n s = Inr s' \<Longrightarrow> server_inv s' = server_inv s"
  by (rule server_inv_frame) (simp_all add: register_frame)

lemma set_proxy_inv: "server_inv (set_proxy info s) = server_inv s"
  by (rule server_inv_frame) (simp_all add: set_proxy_def)

lemma proxy_error_inv: "server_inv s \<Longrightarrow> server_inv (proxy_error i np e s)"
  by (simp add: proxy_error_def send_inv)

lemma reserve_inv:
  assumes "server_inv s" "\<not> is_cancelled s i"
  shows "server_inv (reserve_name i n tk s)"
proof -
  have "server_inv (upd_control i (\<lambda>c. c\<lparr>c_proxies := AList.update n tk (c_proxies c)\<rparr>) s)"
    using assms control_ok_at [OF assms(1), of i]
    by (intro server_inv_upd) (auto simp: control_ok_def is_cancelled_def distinct_update)
  then show ?thesis
    using server_inv_frame [of "reserve_name i n tk s"] by (simp add: reserve_name_def)
qed

lemmas inv_intros = send_inv touch_inv drop_reservation_inv close_proxy_inv proxy_error_inv reserve_inv

lemma handle_new_proxy_inv: "server_inv s \<Longrightarrow> server_inv (fst (handle_new_proxy i np s))"
  by (auto simp: handle_new_proxy_def Let_def intro!: inv_intros)

lemma start_proxy_inv: "server_inv s \<Longrightarrow> server_inv (fst (start_proxy pa r s))"
  by (auto simp: start_proxy_def Let_def release_inv register_inv split: option.splits sum.splits intro!: inv_intros)

lemma proxy_bound_inv: "server_inv s \<Longrightarrow> server_inv (fst (proxy_bound se b r s))"
  by (auto simp: proxy_bound_def Let_def release_inv split: sum.splits intro!: inv_intros)

lemma proxy_finish_inv: "server_inv s \<Longrightarrow> server_inv (proxy_finish r s)"
  by (auto simp: proxy_finish_def Let_def release_inv set_proxy_inv intro!: inv_intros)

lemma get_work_conn_inv: "server_inv s \<Longrightarrow> server_inv (snd (get_work_conn now i w later s))"
proof -
  assume "server_inv s"
  then have t: "server_inv (touch now i s)" by (rule touch_inv)
  then have "server_inv (upd_control i (\<lambda>c. c\<lparr>c_work := x\<rparr>) (touch now i s))" for x
    by (rule server_inv_upd) (auto intro!: control_ok_at t)
  with t show ?thesis
    by (auto simp: get_work_conn_def Let_def split: list.splits waited.splits intro!: inv_intros)
qed

lemma work_io_inv: "server_inv s \<Longrightarrow> server_inv (fst (handle_work_io_with_frame e now conn first s))"
proof -
  assume inv: "server_inv s"
  have "server_inv (upd_control i (\<lambda>c. c\<lparr>c_work := c_work c @ [conn]\<rparr>) (touch now i s))" for i
    using touch_inv [OF inv, of now i] by (rule server_inv_upd) (auto intro!: control_ok_at touch_inv inv)
  with inv show ?thesis by (simp add: handle_work_io_with_frame_def split: sum.splits)
qed

lemma filter_id_update:
  "i < length bs \<Longrightarrow> bs ! i \<Longrightarrow> length (filter id bs) = Suc (length (filter id (bs[i := False])))"
  by (induction bs arbitrary: i) (auto split: nat.splits)

lemma teardown_onlines: "i < length (s_heap s) \<Longrightarrow> onlines (teardown i s) = (onlines s)[i := False]"
  by (simp add: onlines_def teardown_effect(1) map_update torn_def)

lemma teardown_count:
  assumes inv: "server_inv s" and i: "i < length (s_heap s)"
  shows "s_clients_online (teardown i s) = of_nat (length (filter id (onlines (teardown i s))))"
proof (cases "c_online (ctl s i)")
  case True
  then have "onlines s ! i" using i by (simp add: onlines_def ctl_def)
  then show ?thesis
    using filter_id_update [of i "onlines s"] inv i True
    unfolding teardown_onlines [OF i] by (simp add: teardown_effect(2) [OF i] server_inv_def onlines_def)
next
  case False
  then have "(onlines s)[i := False] = onlines s"
    using i by (metis (full_types) ctl_def list_update_id nth_map onlines_def)
  then show ?thesis using inv False i by (simp add: teardown_effect(2) [OF i] teardown_onlines server_inv_def)
qed

lemma teardown_controls:
  assumes inv: "server_inv s" and i: "i < length (s_heap s)"
  shows "controls_ok (teardown i s)"
proof -
  let ?s = "teardown i s"
  note eff = teardown_effect [OF i]
  have old: "distinct (map fst (s_controls s))"
    "j < length (s_heap s) \<and> c_run_id (ctl s j) = rid \<and> c_online (ctl s j)"
    if "(rid, j) \<in> set (s_controls s)" for rid j
    using inv that by (auto simp: server_inv_def controls_ok_def)
  have "distinct (map fst (s_controls ?s))"
    using inv by (auto simp: eff(3) server_inv_def controls_ok_def distinct_delete)
  moreover have "j < length (s_heap ?s) \<and> c_run_id (ctl ?s j) = rid \<and> c_online (ctl ?s j)"
    if e: "(rid, j) \<in> set (s_controls ?s)" for rid j
  proof -
    have e': "(rid, j) \<in> set (s_controls s)"
      using e by (auto simp: eff(3) AList.delete_eq split: if_splits)
    have "j \<noteq> i"
    proof
      assume "j = i"
      with old [OF e'] e' have "map_of (s_controls s) rid = Some i" "rid = c_run_id (ctl s i)"
        by auto
      with e \<open>j = i\<close> show False by (auto simp: eff(3) AList.delete_eq)
    qed
    with old(2) [OF e'] show ?thesis by (simp add: ctl_def eff(1))
  qed
  ultimately show ?thesis by (auto simp: controls_ok_def)
qed

lemma teardown_inv:
  assumes inv: "server_inv s" and i: "i < length (s_heap s)"
  shows "server_inv (teardown i s)"
proof -
  have "control_ok (torn (ctl s i))" by (simp add: control_ok_def torn_def)
  then have "list_all control_ok (s_heap (teardown i s))"
    using inv
    by (auto simp: teardown_effect(1) [OF i] server_inv_def list_all_iff dest!: set_update_subset_insert [THEN subsetD])
  with teardown_count [OF assms] teardown_controls [OF assms] show ?thesis by (simp add: server_inv_def)
qed

lemma send_n_inv: "server_inv s \<Longrightarrow> server_inv ((send i m ^^ n) s)"
  by (induction n) (auto intro: send_inv)

lemma login_finish_inv:
  assumes inv: "server_inv s"
  shows "server_inv (snd (login_finish now login rid s))"
proof -
  let ?i = "length (s_heap s)"
  define s1 where "s1 = s\<lparr>s_clients_online := s_clients_online s + 1,
                 s_heap := s_heap s @ [new_control now login rid],
                 s_controls := AList.update rid ?i (s_controls s)\<rparr>"
  have "control_ok (new_control now login rid)" by (simp add: control_ok_def new_control_def)
  moreover have "onlines s1 = onlines s @ [True]" by (simp add: s1_def onlines_def new_control_def)
  moreover have "controls_ok s1"
  proof -
    have old: "controls_ok s" using inv by (simp add: server_inv_def)
    then have d: "distinct (map fst (s_controls s1))"
      by (simp add: s1_def controls_ok_def distinct_update)
    have "j < length (s_heap s1) \<and> c_run_id (ctl s1 j) = r \<and> c_online (ctl s1 j)"
      if "(r, j) \<in> set (s_controls s1)" for r j
    proof -
      have "map_of (s_controls s1) r = Some j" using d that by simp
      then have "(r = rid \<and> j = ?i) \<or> (r, j) \<in> set (s_controls s)"
        by (auto simp: s1_def update_conv' split: if_splits dest: map_of_SomeD)
      then show ?thesis
        using old by (auto simp: controls_ok_def s1_def ctl_def nth_append new_control_def)
    qed
    with d show ?thesis by (auto simp: controls_ok_def)
  qed
  ultimately have "server_inv s1"
    using inv by (simp add: server_inv_def s1_def)
  then show ?thesis by (simp add: login_finish_def Let_def s1_def send_n_inv)
qed

lemma teardown_length [frps_frame]: "i < length (s_heap s) \<Longrightarrow> length (s_heap (teardown i s)) = length (s_heap s)"
  by (simp add: teardown_effect)

lemma controls_in_heap: "server_inv s \<Longrightarrow> (rid, i) \<in> set (s_controls s) \<Longrightarrow> i < length (s_heap s)"
  by (auto simp: server_inv_def controls_ok_def)

lemma login_begin_inv:
  assumes "server_inv s"
  shows "server_inv (fst (snd (login_begin e uuid first s)))"
proof -
  have i1: "server_inv (s\<lparr>s_total_logins := n\<rparr>)" for n
    using assms server_inv_frame [of "s\<lparr>s_total_logins := n\<rparr>" s] by simp
  have "server_inv (teardown old (s\<lparr>s_total_logins := n\<rparr>))" if "map_of (s_controls s) rid = Some old" for n old rid
    using that by (intro teardown_inv [OF i1]) (auto dest!: map_of_SomeD controls_in_heap [OF assms])
  with assms i1 show ?thesis
    by (auto simp: login_begin_def Let_def split: option.splits prod.splits)
qed

lemma foldl_teardown_inv:
  assumes "server_inv s" "list_all (\<lambda>i. i < length (s_heap s)) is"
  shows "server_inv (foldl (\<lambda>s i. if P i s then teardown i s else s) s is)
       \<and> length (s_heap (foldl (\<lambda>s i. if P i s then teardown i s else s) s is)) = length (s_heap s)"
  using assms
proof (induction "is" arbitrary: s)
  case (Cons i "is")
  then have "server_inv (if P i s then teardown i s else s)"
    "length (s_heap (if P i s then teardown i s else s)) = length (s_heap s)"
    by (auto intro: teardown_inv simp: frps_frame)
  with Cons show ?case by (simp del: split_paired_All)
qed simp

lemma control_ids_in_heap: "server_inv s \<Longrightarrow> list_all (\<lambda>i. i < length (s_heap s)) (map snd (s_controls s))"
  by (auto simp: list_all_iff dest: controls_in_heap)

lemma heartbeat_tick_inv: "server_inv s \<Longrightarrow> server_inv (heartbeat_tick now s)"
  using foldl_teardown_inv [OF _ control_ids_in_heap, of s
      "\<lambda>i s'. c_enforce_idle (ctl s' i) \<and> idle_secs now (ctl s' i) > heartbeat_timeout (s_cfg s)"]
  by (simp add: heartbeat_tick_def Let_def)

lemma server_stop_inv:
  assumes "server_inv s"
  shows "server_inv (server_stop s)"
proof -
  have "server_inv (s\<lparr>s_stopped := True\<rparr>)"
    using assms server_inv_frame [of "s\<lparr>s_stopped := True\<rparr>" s] by simp
  from foldl_teardown_inv [OF this control_ids_in_heap [OF this], of "\<lambda>_ _. True"]
  show ?thesis by (simp add: server_stop_def)
qed

section \<open>Interleavings\<close>

text \<open>
  The atomic steps of the server between two awaits: a login may be checked and completed,
  a registration passes its phases with anything in between, frames and timers act on any
  control at any time, and a control may be torn down at any moment. A state is the shared
  record and the registrations in flight.
\<close>

datatype phase = Reserved | Claimed | Answered

definition advance :: "phase \<times> reg \<Rightarrow> phase \<Rightarrow> reg option \<Rightarrow> (phase \<times> reg) list \<Rightarrow> (phase \<times> reg) list" where
  "advance old ph next q = (case next of None \<Rightarrow> remove1 old q | Some r \<Rightarrow> (ph, r) # remove1 old q)"

inductive frps_step :: "env \<Rightarrow> server \<Rightarrow> (phase \<times> reg) list \<Rightarrow> server \<Rightarrow> (phase \<times> reg) list \<Rightarrow> bool" for e where
  step_login: "login_begin e uuid first s = (res, s', resp) \<Longrightarrow> frps_step e s q s' q"
| step_login_done: "login_finish now login rid s = (i, s') \<Longrightarrow> frps_step e s q s' q"
| step_reserve: "handle_new_proxy i np s = (s', next) \<Longrightarrow>
     frps_step e s q s' (case next of None \<Rightarrow> q | Some r \<Rightarrow> (Reserved, r) # q)"
| step_claim: "(Reserved, r) \<in> set q \<Longrightarrow> start_proxy pa r s = (s', next) \<Longrightarrow>
     frps_step e s q s' (advance (Reserved, r) Claimed next q)"
| step_bound: "(Claimed, r) \<in> set q \<Longrightarrow> proxy_bound se b r s = (s', next) \<Longrightarrow>
     frps_step e s q s' (advance (Claimed, r) Answered next q)"
| step_finish: "(Answered, r) \<in> set q \<Longrightarrow> frps_step e s q (proxy_finish r s) (remove1 (Answered, r) q)"
| step_close: "frps_step e s q (close_proxy i name s) q"
| step_frame: "frps_step e s q (send i m (touch now i s)) q"
| step_work_in: "handle_work_io_with_frame e now conn first s = (s', resp) \<Longrightarrow> frps_step e s q s' q"
| step_work_out: "get_work_conn now i w later s = (res, s') \<Longrightarrow> frps_step e s q s' q"
| step_tick: "frps_step e s q (heartbeat_tick now s) q"
| step_teardown: "i < length (s_heap s) \<Longrightarrow> frps_step e s q (teardown i s) q"
| step_stop: "frps_step e s q (server_stop s) q"

inductive_cases frps_stepE: "frps_step e s q s' q'"

inductive frps_reach :: "env \<Rightarrow> frps_config \<Rightarrow> server \<Rightarrow> (phase \<times> reg) list \<Rightarrow> bool" for e cfg where
  reach_init: "frps_reach e cfg (shared_new cfg) []"
| reach_step: "frps_reach e cfg s q \<Longrightarrow> frps_step e s q s' q' \<Longrightarrow> frps_reach e cfg s' q'"

lemma shared_new_inv: "server_inv (shared_new cfg)"
  by (simp add: server_inv_def shared_new_def onlines_def controls_ok_def)

lemma frps_step_inv:
  assumes "frps_step e s q s' q'" "server_inv s"
  shows "server_inv s'"
  using assms
proof (induction rule: frps_step.induct)
  case (step_login uuid first s res s' resp q)
  then show ?case using login_begin_inv [of s e uuid first] by simp
next
  case (step_login_done now login rid s i s' q)
  then show ?case using login_finish_inv [of s now login rid] by simp
next
  case (step_reserve i np s s' nxt q)
  then show ?case using handle_new_proxy_inv [of s i np] by simp
next
  case (step_claim r q pa s s' nxt)
  then show ?case using start_proxy_inv [of s pa r] by simp
next
  case (step_bound r q se b s s' nxt)
  then show ?case using proxy_bound_inv [of s se b r] by simp
next
  case (step_work_in now conn first s s' resp q)
  then show ?case using work_io_inv [of s e now conn first] by simp
next
  case (step_work_out now i w later s res s' q)
  then show ?case using get_work_conn_inv [of s now i w later] by simp
qed (auto intro: proxy_finish_inv close_proxy_inv send_inv touch_inv heartbeat_tick_inv teardown_inv server_stop_inv)

interpretation frps: safe_system "\<lambda>(s, q) (s', q'). frps_step e s q s' q'" "\<lambda>(s, _). server_inv s"
  "\<lambda>(s, q). s = shared_new cfg \<and> q = []" for e cfg
  by unfold_locales (auto intro: frps_step_inv shared_new_inv)

lemma frps_reach_steps:
  "frps_reach e cfg s q \<Longrightarrow> (\<lambda>(s, q) (s', q'). frps_step e s q s' q')\<^sup>*\<^sup>* (shared_new cfg, []) (s, q)"
  by (induction rule: frps_reach.induct) (auto intro: rtranclp.rtrancl_into_rtrancl)

lemma frps_reach_inv: "frps_reach e cfg s q \<Longrightarrow> server_inv s"
  using frps.reachable_inv [OF _ frps_reach_steps] by auto

section \<open>Heartbeats and stopping\<close>

lemma foldl_teardown_ctl:
  assumes "distinct is" "list_all (\<lambda>i. i < length (s_heap s)) is" "j < length (s_heap s)"
  shows "ctl (foldl (\<lambda>s i. if P (ctl s i) then teardown i s else s) s is) j =
    (if j \<in> set is \<and> P (ctl s j) then torn (ctl s j) else ctl s j)"
  using assms
proof (induction "is" arbitrary: s)
  case (Cons i "is")
  let ?t = "if P (ctl s i) then teardown i s else s"
  have len: "length (s_heap ?t) = length (s_heap s)" using Cons.prems by (simp add: frps_frame)
  have at: "ctl ?t k = (if k = i \<and> P (ctl s i) then torn (ctl s i) else ctl s k)" if "k < length (s_heap s)" for k
    using Cons.prems that by (auto simp: ctl_def teardown_effect(1))
  have "ctl (foldl (\<lambda>s i. if P (ctl s i) then teardown i s else s) ?t is) j =
      (if j \<in> set is \<and> P (ctl ?t j) then torn (ctl ?t j) else ctl ?t j)"
    using Cons.prems len by (intro Cons.IH) auto
  then show ?case using Cons.prems at [of j] by auto
qed simp

lemma control_ids_distinct: "server_inv s \<Longrightarrow> distinct (map snd (s_controls s))"
proof -
  assume "server_inv s"
  then have d: "distinct (map fst (s_controls s))"
    and r: "\<And>rid i. (rid, i) \<in> set (s_controls s) \<Longrightarrow> c_run_id (ctl s i) = rid"
    by (auto simp: server_inv_def controls_ok_def)
  have "inj_on snd (set (s_controls s))" using r by (auto intro!: inj_onI) (metis)
  then show ?thesis using d by (simp add: distinct_map)
qed

lemma foldl_teardown_controls:
  assumes "server_inv s" "list_all (\<lambda>i. i < length (s_heap s)) is" "snd ` set (s_controls s) \<subseteq> set is"
  shows "s_controls (foldl (\<lambda>s i. teardown i s) s is) = []"
  using assms
proof (induction "is" arbitrary: s)
  case (Cons i "is")
  have i: "i < length (s_heap s)" using Cons.prems by simp
  have inv: "server_inv (teardown i s)" using Cons.prems(1) i by (rule teardown_inv)
  have "j \<in> set is" if e: "(rid, j) \<in> set (s_controls (teardown i s))" for rid j
  proof -
    have "c_online (ctl (teardown i s) j)" using e inv by (auto simp: server_inv_def controls_ok_def)
    then have "j \<noteq> i" using i by (auto simp: ctl_def teardown_effect(1) torn_def)
    moreover have "(rid, j) \<in> set (s_controls s)"
      using e i by (auto simp: teardown_effect(3) AList.delete_eq split: if_splits)
    then have "j \<in> set (i # is)" using Cons.prems(3) by force
    ultimately show ?thesis by simp
  qed
  then show ?case
    using Cons.prems i inv by (simp, intro Cons.IH) (auto simp: frps_frame)
qed simp

section \<open>A registration, start to end\<close>

lemma start_by_type:
  assumes "np_proxy_type (r_np r) = ''tcp'' \<or> np_proxy_type (r_np r) = ''udp''"
  shows "(if np_proxy_type (r_np r) = ''tcp'' then start_tcp_proxy e r s else start_udp_proxy e r s) = run_start e r s"
proof -
  have "r\<lparr>r_np := (r_np r)\<lparr>np_proxy_type := ty\<rparr>\<rparr> = r" if "np_proxy_type (r_np r) = ty" for ty
    using that by simp
  then have "np_proxy_type (r_np r) = ''tcp'' \<Longrightarrow> start_tcp_proxy e r s = run_start e r s"
    and "np_proxy_type (r_np r) = ''udp'' \<Longrightarrow> start_udp_proxy e r s = run_start e r s"
    unfolding start_tcp_proxy_def start_udp_proxy_def by metis+
  then show ?thesis using assms by auto
qed

lemma new_proxy_inline_cases:
  "new_proxy_inline e i np s =
     (case handle_new_proxy i np s of
        (s1, None) \<Rightarrow> s1
      | (s1, Some r1) \<Rightarrow>
          (case start_proxy (e_parse_addr e) r1 s1 of
             (s2, None) \<Rightarrow> s2
           | (s2, Some r2) \<Rightarrow>
               (case proxy_bound (e_show_err e) (e_bind e (np_proxy_type np) (r_port r2)) r2 s2 of
                  (s3, None) \<Rightarrow> s3
                | (s3, Some r3) \<Rightarrow> proxy_finish r3 s3)))"
proof (cases "handle_new_proxy i np s")
  case (Pair s1 o1)
  show ?thesis
  proof (cases o1)
    case (Some r)
    then have "r_np r = np" "np_proxy_type np = ''tcp'' \<or> np_proxy_type np = ''udp''"
      using Pair by (auto simp: handle_new_proxy_def Let_def split: if_splits)
    then show ?thesis
      using start_by_type [of r e s1] Pair Some by (simp add: new_proxy_inline_def run_start_def)
  qed (use Pair in \<open>simp add: new_proxy_inline_def\<close>)
qed

definition ports_of :: "string \<Rightarrow> server \<Rightarrow> (nat \<times> string) list" where
  "ports_of ty s = (if ty = ''tcp'' then s_tcp_ports s else if ty = ''udp'' then s_udp_ports s else [])"

lemma ports_of_upd [simp]:
  "ports_of ty (upd_control i f s) = ports_of ty s" "ports_of ty (s\<lparr>s_infos := x\<rparr>) = ports_of ty s"
  "ports_of ty (s\<lparr>s_cancelled := l\<rparr>) = ports_of ty s"
  by (simp_all add: ports_of_def)

lemma drop_reserve:
  assumes "i < length (s_heap s)" "map_of (c_proxies (ctl s i)) n = None"
  shows "drop_reservation i n (reserve_name i n tk s) = s\<lparr>s_next_token := Suc tk\<rparr>"
proof -
  have "AList.delete n (AList.update n tk (c_proxies (ctl s i))) = c_proxies (ctl s i)"
    using assms(2) by (simp add: delete_update_same map_of_eq_None_iff)
  moreover have "(s_heap s)[i := (ctl s i)\<lparr>c_proxies := c_proxies (ctl s i)\<rparr>] = s_heap s"
    by (simp add: ctl_def)
  ultimately show ?thesis
    using assms(1) by (simp add: drop_reservation_def reserve_name_def upd_control_def ctl_def)
qed

lemma drop_reservation_ports:
  "drop_reservation i n (s\<lparr>s_tcp_ports := m\<rparr>) = (drop_reservation i n s)\<lparr>s_tcp_ports := m\<rparr>"
  "drop_reservation i n (s\<lparr>s_udp_ports := m\<rparr>) = (drop_reservation i n s)\<lparr>s_udp_ports := m\<rparr>"
  by (simp_all add: drop_reservation_def upd_control_def)

lemma release_register:
  assumes "register_proxy_port ty p n s = Inr s'" "map_of (ports_of ty s) p \<noteq> Some n"
  shows "release_proxy_port ty p n s' = s"
proof -
  have "release_port p n m = m0" if "register_port p n m0 = Inr m" "map_of m0 p \<noteq> Some n" for m m0
    using that by (auto simp: register_port_def release_port_def update_conv' delete_update_same
        map_of_eq_None_iff split: option.splits if_splits)
  then show ?thesis
    using assms by (auto simp: register_proxy_port_def release_proxy_port_def ports_of_def bind_result_ok_iff
        split: if_splits)
qed

lemma register_refusal_text: "register_proxy_port ty p n s = Inl e \<Longrightarrow> e \<noteq> []"
  by (auto simp: register_proxy_port_def register_port_def split: if_splits option.splits)

text \<open>A registration that fails after reserving its name gives back the name and the port,
  provided the port did not already belong to a proxy of the same name.\<close>

lemma start_proxy_cases:
  assumes "map_of (ports_of (np_proxy_type (r_np r)) s) port \<noteq> Some (np_proxy_name (r_np r))"
    and "remote_port_of (r_np r) = Some port"
    and "start_proxy pa r s = (s', next)"
  shows "case next of
      None \<Rightarrow> \<exists>err. err \<noteq> [] \<and> s' = proxy_error (r_ctl r) (r_np r) err (drop_reservation (r_ctl r) (np_proxy_name (r_np r)) s)
    | Some r' \<Rightarrow> \<exists>addr. r' = r\<lparr>r_port := port, r_addr := addr\<rparr> \<and> port_allowed (s_cfg s) port \<and>
        register_proxy_port (np_proxy_type (r_np r)) port (np_proxy_name (r_np r)) s = Inr s'"
  using assms release_register [of "np_proxy_type (r_np r)" port "np_proxy_name (r_np r)" s]
  by (auto simp: start_proxy_def Let_def dest: register_refusal_text split: if_splits sum.splits)

lemma start_proxy_no_port:
  assumes "remote_port_of (r_np r) = None" "start_proxy pa r s = (s', next)"
  shows "next = None \<and>
    (\<exists>err. err \<noteq> [] \<and> s' = proxy_error (r_ctl r) (r_np r) err (drop_reservation (r_ctl r) (np_proxy_name (r_np r)) s))"
  using assms by (auto simp: start_proxy_def Let_def)

text \<open>The state after a registration that succeeds.\<close>

definition registered :: "nat \<Rightarrow> new_proxy \<Rightarrow> nat \<Rightarrow> string \<Rightarrow> server \<Rightarrow> server \<Rightarrow> bool" where
  "registered i np port addr s s' \<longleftrightarrow>
     c_out (ctl s' i) = c_out (ctl s i) @ [proxy_resp (np_proxy_name np) addr []] \<and>
     c_proxies (ctl s' i) = AList.update (np_proxy_name np) (s_next_token s) (c_proxies (ctl s i)) \<and>
     s_infos s' = AList.update (np_proxy_name np)
       \<lparr> px_proxy_name = np_proxy_name np, px_proxy_type = np_proxy_type np, px_remote_port = port,
         px_user = c_user (ctl s i), px_conns_total = 0 \<rparr> (s_infos s) \<and>
     register_port port (np_proxy_name np) (ports_of (np_proxy_type np) s) = Inr (ports_of (np_proxy_type np) s') \<and>
     (\<forall>ty. ty \<noteq> np_proxy_type np \<longrightarrow> ports_of ty s' = ports_of ty s) \<and>
     s_cancelled s' = s_cancelled s \<and> length (s_heap s') = length (s_heap s)"

lemma reserve_fields:
  assumes "i < length (s_heap s)"
  shows "ctl (reserve_name i n tk s) i = (ctl s i)\<lparr>c_proxies := AList.update n tk (c_proxies (ctl s i))\<rparr>"
    "ports_of ty (reserve_name i n tk s) = ports_of ty s" "s_infos (reserve_name i n tk s) = s_infos s"
    "s_cancelled (reserve_name i n tk s) = s_cancelled s" "s_cfg (reserve_name i n tk s) = s_cfg s"
    "is_cancelled (reserve_name i n tk s) i = is_cancelled s i"
    "length (s_heap (reserve_name i n tk s)) = length (s_heap s)"
  using assms by (simp_all add: reserve_name_def ctl_upd_control ports_of_def is_cancelled_def)

lemma register_ports:
  assumes "register_proxy_port ty p n s = Inr s'" "ty = ''tcp'' \<or> ty = ''udp''"
  shows "register_port p n (ports_of ty s) = Inr (ports_of ty s')"
    "ty' \<noteq> ty \<Longrightarrow> ports_of ty' s' = ports_of ty' s" "ctl s' = ctl s" "is_cancelled s' i = is_cancelled s i"
  using assms by (auto simp: register_proxy_port_def ports_of_def bind_result_ok_iff is_cancelled_def split: if_splits)

lemma finish_registered:
  assumes i: "i < length (s_heap s)" "\<not> is_cancelled s i" "s_next_token s \<notin> set (s_cancelled s)"
    and ty: "np_proxy_type np = ''tcp'' \<or> np_proxy_type np = ''udp''"
    and reg: "register_proxy_port (np_proxy_type np) port (np_proxy_name np)
        (reserve_name i (np_proxy_name np) (s_next_token s) s) = Inr s1"
    and r: "r_ctl r = i" "r_np r = np" "r_token r = s_next_token s" "r_port r = port" "r_addr r = addr"
  shows "registered i np port addr s (proxy_finish r (send i (proxy_resp (np_proxy_name np) addr []) s1))"
proof -
  note f = register_frame [OF reg] reserve_fields [OF i(1)]
  note p = register_ports [OF reg ty]
  have len: "i < length (s_heap s1)" using f i(1) by simp
  have nc: "\<not> is_cancelled s1 i" using p(4) f i(2) by simp
  let ?s2 = "send i (proxy_resp (np_proxy_name np) addr []) s1"
  have s2: "?s2 = upd_control i (\<lambda>c. c\<lparr>c_out := c_out c @ [proxy_resp (np_proxy_name np) addr []]\<rparr>) s1"
    using nc by (simp add: send_def)
  have live: "\<not> proxy_cancelled ?s2 i (r_token r)"
    using nc i(3) f r len by (simp add: proxy_cancelled_def is_cancelled_def s2 ctl_upd_control)
  show ?thesis
    using live r f p len i(1)
    by (simp add: proxy_finish_def registered_def set_proxy_def s2 ctl_upd_control Let_def)
qed

lemma proxy_error_resp: "proxy_error i np err s = send i (proxy_resp (np_proxy_name np) [] err) s"
  by (simp add: proxy_error_def)

lemma new_proxy_inline_reserved:
  assumes i: "i < length (s_heap s)" "\<not> is_cancelled s i" "s_next_token s \<notin> set (s_cancelled s)"
    and free: "map_of (c_proxies (ctl s i)) (np_proxy_name np) = None"
      "\<And>port. remote_port_of np = Some port \<Longrightarrow>
         map_of (ports_of (np_proxy_type np) s) port \<noteq> Some (np_proxy_name np)"
    and r: "handle_new_proxy i np s = (s1, Some r)"
  shows "(\<exists>err n. err \<noteq> [] \<and> new_proxy_inline e i np s =
            send i (proxy_resp (np_proxy_name np) [] err) (s\<lparr>s_next_token := n\<rparr>)) \<or>
         (\<exists>port addr. remote_port_of np = Some port \<and> port_allowed (s_cfg s) port \<and>
            registered i np port addr s (new_proxy_inline e i np s))"
proof -
  let ?n = "np_proxy_name np" and ?ty = "np_proxy_type np"
  have s1: "s1 = reserve_name i ?n (s_next_token s) s" and ty: "?ty = ''tcp'' \<or> ?ty = ''udp''"
    and rr: "r = \<lparr> r_ctl = i, r_np = np, r_token = s_next_token s, r_port = 0, r_addr = [] \<rparr>"
    using r by (auto simp: handle_new_proxy_def Let_def split: if_splits)
  have drop: "drop_reservation i ?n s1 = s\<lparr>s_next_token := Suc (s_next_token s)\<rparr>"
    unfolding s1 using i(1) free(1) by (rule drop_reserve)
  obtain s2 o2 where st: "start_proxy (e_parse_addr e) r s1 = (s2, o2)" by force
  show ?thesis
  proof (cases "remote_port_of np")
    case None
    then obtain err where "err \<noteq> []" "s2 = proxy_error i np err (s\<lparr>s_next_token := Suc (s_next_token s)\<rparr>)" "o2 = None"
      using start_proxy_no_port [OF _ st] rr drop by auto
    then show ?thesis using r st by (auto simp: new_proxy_inline_cases proxy_error_resp)
  next
    case (Some port)
    have "map_of (ports_of ?ty s1) port \<noteq> Some ?n"
      using free(2) [OF Some] i(1) by (simp add: s1 reserve_fields)
    note c = start_proxy_cases [OF _ _ st, of port, unfolded rr reg.simps, OF this Some]
    show ?thesis
    proof (cases o2)
      case None
      then show ?thesis using c r st drop by (auto simp: new_proxy_inline_cases proxy_error_resp)
    next
      case (Some r2)
      then obtain addr where r2: "r2 = r\<lparr>r_port := port, r_addr := addr\<rparr>" "port_allowed (s_cfg s) port"
        and reg: "register_proxy_port ?ty port ?n s1 = Inr s2"
        using c i(1) by (auto simp: rr s1 reserve_fields)
      show ?thesis
      proof (cases "retry_while_port_busy (e_bind e ?ty port)")
        case (Inl be)
        have "release_proxy_port ?ty port ?n s2 = s1"
          using release_register [OF reg] free(2) [OF \<open>remote_port_of np = Some port\<close>] i(1)
          by (simp add: s1 reserve_fields)
        then show ?thesis
          using r st Some r2 Inl drop rr
          by (auto simp: new_proxy_inline_cases proxy_bound_def proxy_error_resp bind_error_text_def Let_def)
      next
        case (Inr u)
        then have "new_proxy_inline e i np s = proxy_finish r2 (send i (proxy_resp ?n addr []) s2)"
          using r st Some r2 rr by (simp add: new_proxy_inline_cases proxy_bound_def Let_def)
        moreover have "registered i np port addr s (proxy_finish r2 (send i (proxy_resp ?n addr []) s2))"
          using i ty reg r2 rr by (intro finish_registered) (simp_all add: s1)
        ultimately show ?thesis using r2(2) \<open>remote_port_of np = Some port\<close> by auto
      qed
    qed
  qed
qed

section \<open>A server to run\<close>

definition ex_env :: env where
  "ex_env = \<lparr> e_md5 = (\<lambda>b. take 2 b), e_from_slice = (\<lambda>b. None),
     e_parse_addr = (\<lambda>a p. Ok (a @ '':'' @ dec_string p)), e_show_err = (\<lambda>e. ''busy''),
     e_bind = (\<lambda>ty p n. if n < 2 then Err AddrInUse else Ok ()) \<rparr>"

definition ex_np :: new_proxy where
  "ex_np = \<lparr> np_proxy_name = ''web'', np_proxy_type = ''tcp'', np_use_encryption = False,
     np_use_compression = False, np_bandwidth_limit = [], np_bandwidth_limit_mode = [], np_group = [],
     np_group_key = [], np_metas = None, np_annotations = None, np_remote_port = 6000,
     np_custom_domains = None, np_subdomain = [], np_sk = [], np_multiplexer = [] \<rparr>"

definition ex_one :: server where
  "ex_one = snd (login_finish 5 login_example ''r1'' (shared_new default_frps_config))"

definition ex_two :: server where
  "ex_two = snd (login_finish 6 login_example ''r2'' (new_proxy_inline ex_env 0 ex_np ex_one))"

lemmas ex_frps = ex_one_def login_finish_def shared_new_def default_frps_config_def frps_defaults
  login_example_def ex_np_def new_control_def clamp_pool_def send_def is_cancelled_def ctl_def upd_control_def

lemma ex_bind: "retry_while_port_busy (e_bind ex_env ty p) = Ok ()"
  by (simp add: retry_while_port_busy_def ATTEMPTS_def ex_env_def numeral_eq_Suc)

lemma ex_parse_addr: "e_parse_addr ex_env a p = Ok (a @ '':'' @ dec_string p)"
  by (simp add: ex_env_def)

lemma ex_registered:
  "registered 0 ex_np 6000 (''0.0.0.0'' @ '':'' @ dec_string 6000) ex_one (new_proxy_inline ex_env 0 ex_np ex_one)"
  by (simp add: registered_def new_proxy_inline_cases handle_new_proxy_def start_proxy_def remote_port_of_def
      port_allowed_def register_proxy_port_def register_port_def proxy_bound_def ex_bind proxy_finish_def
      set_proxy_def proxy_cancelled_def reserve_name_def ports_of_def ex_parse_addr Let_def ex_frps)

section \<open>Properties\<close>




lemma ex_one_reach: "frps_reach ex_env default_frps_config ex_one []"
  unfolding ex_one_def
  by (rule reach_step [OF reach_init step_login_done [OF prod.collapse [symmetric]]])


text \<open>Closing a proxy that was registered undoes the registration: the port registry and
  the statistics are as before, the name is gone from the control and its token is
  cancelled, so that its listener stops.\<close>

lemma register_close_roundtrip:
  assumes "registered i np port addr s s'" "i < length (s_heap s)"
    and "np_proxy_type np = ''tcp'' \<or> np_proxy_type np = ''udp''"
    and "map_of (ports_of (np_proxy_type np) s) port = None"
    and "map_of (s_infos s) (np_proxy_name np) = None" "map_of (c_proxies (ctl s i)) (np_proxy_name np) = None"
  shows "let t = close_proxy i (np_proxy_name np) s' in
     s_tcp_ports t = s_tcp_ports s \<and> s_udp_ports t = s_udp_ports s \<and> s_infos t = s_infos s \<and>
     c_proxies (ctl t i) = c_proxies (ctl s i) \<and> s_next_token s \<in> set (s_cancelled t)"
proof -
  let ?n = "np_proxy_name np" and ?ty = "np_proxy_type np" and ?t = "close_proxy i (np_proxy_name np) s'"
  note g = assms(1) [unfolded registered_def]
  have len: "i < length (s_heap s')" using g assms(2) by simp
  have ports: "ports_of ?ty s' = AList.update port ?n (ports_of ?ty s)"
    using g assms(4) by (auto simp: register_port_def split: option.splits)
  have freed: "release_port port ?n (ports_of ?ty s') = ports_of ?ty s"
    using assms(4) by (simp add: ports release_port_def update_conv' delete_update_same map_of_eq_None_iff)
  have proxies: "c_proxies (ctl ?t i) = c_proxies (ctl s i)"
    using g assms(6) len
    by (simp add: ctl_def close_proxy_heap upd_control_def delete_update_same map_of_eq_None_iff)
  have info: "map_of (s_infos s') ?n = Some \<lparr> px_proxy_name = ?n, px_proxy_type = ?ty, px_remote_port = port,
         px_user = c_user (ctl s i), px_conns_total = 0 \<rparr>"
    using g by (simp add: update_conv')
  have tk: "map_of (c_proxies (ctl s' i)) ?n = Some (s_next_token s)" using g by (simp add: update_conv')
  have "s_infos ?t = s_infos s" "s_next_token s \<in> set (s_cancelled ?t)"
    using tk info g assms(5)
    by (simp_all add: close_proxy_def Let_def frps_frame remove_proxy_def delete_update_same map_of_eq_None_iff)
  moreover have "s_tcp_ports ?t = s_tcp_ports s" "s_udp_ports ?t = s_udp_ports s"
    using tk info g assms(3) freed
    by (auto simp: close_proxy_def Let_def release_proxy_port_def remove_proxy_def ports_of_def split: if_splits)
  ultimately show ?thesis using proxies by (simp add: Let_def)
qed

lemma register_close_roundtrip_example:
  "let t = close_proxy 0 (np_proxy_name ex_np) (new_proxy_inline ex_env 0 ex_np ex_one) in
     s_tcp_ports t = s_tcp_ports ex_one \<and> s_udp_ports t = s_udp_ports ex_one \<and> s_infos t = s_infos ex_one \<and>
     c_proxies (ctl t 0) = c_proxies (ctl ex_one 0) \<and> s_next_token ex_one \<in> set (s_cancelled t)"
  by (rule register_close_roundtrip [OF ex_registered]) (simp_all add: ex_frps ports_of_def)

fun registry_op :: "bool \<times> nat \<times> string \<Rightarrow> (nat \<times> string) list \<Rightarrow> (nat \<times> string) list" where
  "registry_op (True, p, n) r = (case register_port p n r of Inr r' \<Rightarrow> r' | Inl _ \<Rightarrow> r)"
| "registry_op (False, p, n) r = release_port p n r"

lemma registry_op_run: "registry_op op r = ports.run_op op r"
  by (cases "(op, r)" rule: registry_op.cases) auto

text \<open>The port of a proxy cannot be taken or freed by proxies of other names: whatever
  sequence of claims and releases other names make, its owner stays.\<close>

lemma port_owner_stable:
  assumes "map_of r p = Some m" "list_all (\<lambda>op. snd (snd op) \<noteq> m) ops"
  shows "map_of (fold registry_op ops r) p = Some m"
  using ports.run_ops_keep_owner [OF assms] by (simp add: registry_op_run [abs_def])

lemma port_owner_stable_example:
  "map_of (fold registry_op [(True, 6000, ''b''), (False, 6000, ''b''), (True, 6001, ''b'')] [(6000, ''a'')]) 6000
     = Some ''a''"
  by (rule port_owner_stable) simp_all

text \<open>
  C22: a login is accepted exactly when the first message is a Login whose key is the
  digest of the configured token and the timestamp; a refused one changes nothing of the
  server, and only a wrong key is answered.
\<close>

theorem login_accepted_iff:
  "(is_ok (fst (login_begin e uuid (tb, body) s)) \<longleftrightarrow>
      tb = TYPE_LOGIN \<and> (\<exists>l. Option.bind (e_from_slice e body) de_login = Some l \<and>
        lg_privilege_key l = auth_key (e_md5 e) (token (s_cfg s)) (lg_timestamp l))) \<and>
   (is_ok (fst (login_begin e uuid (tb, body) s)) \<or> fst (snd (login_begin e uuid (tb, body) s)) = s)"
  by (auto simp: login_begin_def Let_def auth_ok_iff split: option.splits)

text \<open>One tick of the heartbeat monitor closes exactly the sessions in the map whose client
  is known to send heartbeats and which have been idle for longer than the timeout, and
  none when the timeout is zero; every other control is untouched.\<close>

lemma heartbeat_tick_exact:
  assumes "frps_reach e cfg s q" "j < length (s_heap s)"
  shows "ctl (heartbeat_tick now s) j =
    (if heartbeat_timeout (s_cfg s) \<noteq> 0 \<and> j \<in> set (map snd (s_controls s)) \<and>
        c_enforce_idle (ctl s j) \<and> now - c_last_active (ctl s j) > heartbeat_timeout (s_cfg s)
     then torn (ctl s j) else ctl s j)"
proof -
  have inv: "server_inv s" using assms(1) by (rule frps_reach_inv)
  show ?thesis
    using foldl_teardown_ctl [OF control_ids_distinct [OF inv] control_ids_in_heap [OF inv] assms(2),
        where P = "\<lambda>c. c_enforce_idle c \<and> idle_secs now c > heartbeat_timeout (s_cfg s)"]
    by (simp add: heartbeat_tick_def Let_def idle_secs_def)
qed

lemma heartbeat_tick_exact_example:
  "ctl (heartbeat_tick 1000 ex_one) 0 =
    (if heartbeat_timeout (s_cfg ex_one) \<noteq> 0 \<and> 0 \<in> set (map snd (s_controls ex_one)) \<and>
        c_enforce_idle (ctl ex_one 0) \<and> 1000 - c_last_active (ctl ex_one 0) > heartbeat_timeout (s_cfg ex_one)
     then torn (ctl ex_one 0) else ctl ex_one 0)"
  by (rule heartbeat_tick_exact [OF ex_one_reach]) (simp add: ex_frps)

text \<open>Stopping the server empties the session map, takes every session that was in it
  offline without proxies, and from then on every registration is refused silently.\<close>

lemma server_stop_clears:
  assumes "frps_reach e cfg s q"
  shows "s_controls (server_stop s) = [] \<and>
    (\<forall>i \<in> set (map snd (s_controls s)). ctl (server_stop s) i = torn (ctl s i)) \<and>
    (\<forall>i np. handle_new_proxy i np (server_stop s) = (server_stop s, None))"
proof -
  have inv: "server_inv s" using assms by (rule frps_reach_inv)
  let ?s = "s\<lparr>s_stopped := True\<rparr>"
  have inv': "server_inv ?s" using inv server_inv_frame [of ?s s] by simp
  have "s_controls (server_stop s) = []"
    using foldl_teardown_controls [OF inv' control_ids_in_heap [OF inv']] by (simp add: server_stop_def)
  moreover have "ctl (server_stop s) i = torn (ctl s i)" if "i \<in> set (map snd (s_controls s))" for i
    using foldl_teardown_ctl [OF control_ids_distinct [OF inv'] control_ids_in_heap [OF inv'],
        where P = "\<lambda>_. True" and j = i] that controls_in_heap [OF inv]
    by (auto simp: server_stop_def)
  moreover have "s_stopped (server_stop s)"
  proof -
    have "s_stopped (foldl (\<lambda>s i. teardown i s) t is)"
      if "s_stopped t" "list_all (\<lambda>i. i < length (s_heap t)) is" for t "is"
      using that by (induction "is" arbitrary: t) (auto simp: teardown_effect(4) frps_frame)
    then show ?thesis using control_ids_in_heap [OF inv'] by (simp add: server_stop_def)
  qed
  ultimately show ?thesis by (simp add: handle_new_proxy_def is_cancelled_def)
qed

lemma server_stop_clears_example:
  "s_controls (server_stop ex_one) = [] \<and> ctl (server_stop ex_one) 0 = torn (ctl ex_one 0) \<and>
     handle_new_proxy 0 ex_np (server_stop ex_one) = (server_stop ex_one, None)"
proof -
  have "0 \<in> set (map snd (s_controls ex_one))" by (simp add: ex_frps)
  with server_stop_clears [OF ex_one_reach] show ?thesis by blast
qed

text \<open>
  C10: tearing down a control that a newer login has replaced leaves the newer session in
  place: the session map is unchanged, and so is every other control. Tearing a control
  down twice moves the online counter once.
\<close>

theorem teardown_keeps_replacement:
  assumes "i < length (s_heap s)" "map_of (s_controls s) (c_run_id (ctl s i)) = Some j" "j \<noteq> i"
  shows "s_controls (teardown i s) = s_controls s \<and> (\<forall>k. k \<noteq> i \<longrightarrow> ctl (teardown i s) k = ctl s k) \<and>
    s_clients_online (teardown i (teardown i s)) = s_clients_online (teardown i s)"
proof -
  have "ctl (teardown i s) i = torn (ctl s i)" using assms(1) by (simp add: ctl_def teardown_effect(1))
  then show ?thesis
    using assms teardown_effect(2) [of i "teardown i s"]
    by (auto simp: teardown_effect ctl_def torn_def)
qed

definition ex_replaced :: server where
  "ex_replaced = snd (login_finish 9 login_example ''r1'' ex_one)"

theorem teardown_keeps_replacement_witness:
  "s_controls (teardown 0 ex_replaced) = s_controls ex_replaced \<and>
    ctl (teardown 0 ex_replaced) 1 = ctl ex_replaced 1 \<and>
    s_clients_online (teardown 0 (teardown 0 ex_replaced)) = s_clients_online (teardown 0 ex_replaced)"
  using teardown_keeps_replacement [of 0 ex_replaced 1] by (simp add: ex_replaced_def ex_frps)

lemma torn_not_mapped:
  assumes "server_inv s" "i < length (s_heap s)"
  shows "i \<notin> set (map snd (s_controls (teardown i s)))"
proof
  assume "i \<in> set (map snd (s_controls (teardown i s)))"
  then have "c_online (ctl (teardown i s) i)"
    using teardown_inv [OF assms] by (auto simp: server_inv_def controls_ok_def)
  then show False using assms(2) by (simp add: ctl_def teardown_effect(1) torn_def)
qed

lemma new_proxy_inline_inv:
  assumes "server_inv s"
  shows "server_inv (new_proxy_inline e i np s)"
proof -
  obtain s1 o1 where h: "handle_new_proxy i np s = (s1, o1)" by force
  have i1: "server_inv s1" using handle_new_proxy_inv [OF assms, of i np] h by simp
  show ?thesis
  proof (cases o1)
    case (Some r1)
    obtain s2 o2 where st: "start_proxy (e_parse_addr e) r1 s1 = (s2, o2)" by force
    have i2: "server_inv s2" using start_proxy_inv [OF i1, of "e_parse_addr e" r1] st by simp
    show ?thesis
    proof (cases o2)
      case (Some r2)
      let ?b = "proxy_bound (e_show_err e) (e_bind e (np_proxy_type np) (r_port r2)) r2 s2"
      have "server_inv (fst ?b)" by (rule proxy_bound_inv [OF i2])
      then show ?thesis
        using h st \<open>o1 = Some r1\<close> Some proxy_finish_inv
        by (auto simp: new_proxy_inline_cases split: prod.splits option.splits)
    qed (use h st i2 Some in \<open>simp add: new_proxy_inline_cases\<close>)
  qed (use h i1 in \<open>simp add: new_proxy_inline_cases\<close>)
qed

lemma handle_frame_inv:
  assumes "server_inv s"
  shows "server_inv (fst (handle_frame e now i frame s))"
  using touch_inv [OF assms, of now i]
  by (auto simp: handle_frame_def Let_def split: prod.splits option.splits
      intro!: new_proxy_inline_inv close_proxy_inv send_inv)

lemma send_length [frps_frame]: "length (s_heap (send i m s)) = length (s_heap s)"
  by (simp add: send_def)

lemma new_proxy_length [frps_frame]: "length (s_heap (new_proxy_inline e i np s)) = length (s_heap s)"
proof -
  have c: "length (s_heap (close_proxy j n t)) = length (s_heap t)" for j n t
    by (simp add: close_proxy_heap)
  have "length (s_heap (fst (handle_new_proxy i np s))) = length (s_heap s)"
    by (simp add: handle_new_proxy_def Let_def proxy_error_def frps_frame drop_reservation_def reserve_name_def)
  moreover have "length (s_heap (fst (start_proxy pa r t))) = length (s_heap t)" for pa r t
    by (auto simp: start_proxy_def Let_def proxy_error_def frps_frame drop_reservation_def register_frame
        split: option.splits sum.splits)
  moreover have "length (s_heap (fst (proxy_bound se b r t))) = length (s_heap t)" for se b r t
    by (auto simp: proxy_bound_def Let_def proxy_error_def frps_frame drop_reservation_def split: sum.splits)
  moreover have "length (s_heap (proxy_finish r t)) = length (s_heap t)" for r t
    by (simp add: proxy_finish_def Let_def c frps_frame set_proxy_def)
  ultimately show ?thesis
    unfolding new_proxy_inline_cases by (auto split: prod.splits option.splits) (metis fst_conv)+
qed

lemma handle_frame_length [frps_frame]: "length (s_heap (fst (handle_frame e now i frame s))) = length (s_heap s)"
  by (auto simp: handle_frame_def Let_def touch_def frps_frame close_proxy_heap split: prod.splits option.splits)

lemma reader_loop_inv:
  "server_inv s \<Longrightarrow> server_inv (fst (control_reader_loop e i frames s)) \<and>
     length (s_heap (fst (control_reader_loop e i frames s))) = length (s_heap s)"
proof (induction e i frames s rule: control_reader_loop.induct)
  case (2 e i now frame frames s)
  obtain s' st where h: "handle_frame e now i frame s = (s', st)" by force
  have "server_inv s'" "length (s_heap s') = length (s_heap s)"
    using handle_frame_inv [OF "2.prems", of e now i frame] handle_frame_length [of e now i frame s] h by auto
  with "2.IH" [OF _ h [symmetric]] "2.prems" h show ?case by (cases st) auto
qed simp

text \<open>A control connection leaves nothing behind: whatever frames the client sends and
  however the reader loop ends, when the connection's task returns its control is offline,
  cancelled, without proxies and no longer in the session map.\<close>

lemma control_leaves_nothing:
  assumes "frps_reach e cfg s q"
    and "login_begin e uuid first s = (Ok (login, rid), s1, resp)"
  shows "let i = length (s_heap s1); t = run_control_with_login e uuid now True first frames s in
     \<not> c_online (ctl t i) \<and> c_cancelled (ctl t i) \<and> c_proxies (ctl t i) = [] \<and>
     i \<notin> set (map snd (s_controls t))"
proof -
  have inv: "server_inv s1"
    using login_begin_inv [OF frps_reach_inv [OF assms(1)], of e uuid first] assms(2) by simp
  let ?i = "length (s_heap s1)"
  let ?s2 = "snd (login_finish now login rid s1)"
  have i: "fst (login_finish now login rid s1) = ?i" by (simp add: login_finish_def Let_def)
  have inv2: "server_inv ?s2" by (rule login_finish_inv [OF inv])
  have len2: "?i < length (s_heap ?s2)"
  proof -
    have "length (s_heap ((send j m ^^ n) t)) = length (s_heap t)" for j m n t
      by (induction n) (simp_all add: frps_frame)
    then show ?thesis by (simp add: login_finish_def Let_def)
  qed
  let ?s3 = "fst (control_reader_loop e ?i frames ?s2)"
  have inv3: "server_inv ?s3" and len3: "?i < length (s_heap ?s3)"
    using reader_loop_inv [OF inv2, of e ?i frames] len2 by auto
  have t: "run_control_with_login e uuid now True first frames s = teardown ?i ?s3"
    using assms(2) i by (simp add: run_control_with_login_def Let_def case_prod_beta)
  have "ctl (teardown ?i ?s3) ?i = torn (ctl ?s3 ?i)"
    using len3 by (simp add: ctl_def teardown_effect(1))
  then show ?thesis
    unfolding Let_def t using torn_not_mapped [OF inv3 len3] by (simp add: torn_def)
qed

definition ex_login_env :: env where
  "ex_login_env = ex_env\<lparr>e_md5 := (\<lambda>b. []),
     e_from_slice := (\<lambda>b. Some (ser_login (login_example\<lparr>lg_privilege_key := []\<rparr>)))\<rparr>"

lemma ex_login_read: "de_login (ser_login (login_example\<lparr>lg_privilege_key := []\<rparr>)) = Some (login_example\<lparr>lg_privilege_key := []\<rparr>)"
  by (rule de_login_ser) (simp add: login_example_def i64_def map_ok_def)

lemma control_leaves_nothing_example:
  "let i = length (s_heap (shared_new default_frps_config));
       t = run_control_with_login ex_login_env ''u'' 3 True (TYPE_LOGIN, []) [(4, TYPE_PING, [])]
             (shared_new default_frps_config) in
     \<not> c_online (ctl t i) \<and> c_cancelled (ctl t i) \<and> c_proxies (ctl t i) = [] \<and>
     i \<notin> set (map snd (s_controls t))"
proof -
  let ?s = "shared_new default_frps_config"
  have "login_begin ex_login_env ''u'' (TYPE_LOGIN, []) ?s =
      (Ok (login_example\<lparr>lg_privilege_key := []\<rparr>, ''u''), ?s\<lparr>s_total_logins := 1\<rparr>,
       Some \<lparr> lr_version = ''0.51.3'', lr_run_id = ''u'', lr_error = [] \<rparr>)"
    by (simp add: login_begin_def ex_login_env_def ex_login_read auth_ok_iff auth_key_def hex_lower_def)
       (simp add: login_example_def shared_new_def Let_def)
  from control_leaves_nothing [OF reach_init this, of 3 "[(4, TYPE_PING, [])]"]
  show ?thesis by (simp add: Let_def shared_new_def)
qed

lemma retry_from_outcome:
  "(\<exists>k < left. (\<forall>j < k. b (a + j) = Err AddrInUse) \<and> b (a + k) \<noteq> Err AddrInUse \<and> retry_from a left b p = b (a + k)) \<or>
   ((\<forall>j < left. b (a + j) = Err AddrInUse) \<and>
     retry_from a left b p = Err (if left = 0 then (case p of Some e \<Rightarrow> e | None \<Rightarrow> BindFailed ''bind: no attempt made'')
                                  else AddrInUse))"
proof (induction left arbitrary: a p)
  case (Suc left)
  show ?case
  proof (cases "b a = Err AddrInUse")
    case True
    have shift: "(\<forall>j < Suc k. b (a + j) = Err AddrInUse) \<longleftrightarrow> (\<forall>j < k. b (Suc a + j) = Err AddrInUse)" for k
      using True by (simp add: All_less_Suc2)
    from Suc.IH [of "Suc a" "Some AddrInUse"] show ?thesis
    proof (elim disjE exE conjE)
      fix k assume "k < left" "\<forall>j < k. b (Suc a + j) = Err AddrInUse" "b (Suc a + k) \<noteq> Err AddrInUse"
        "retry_from (Suc a) left b (Some AddrInUse) = b (Suc a + k)"
      then show ?thesis using True shift [of k] by (intro disjI1 exI [of _ "Suc k"]) simp
    next
      assume "\<forall>j < left. b (Suc a + j) = Err AddrInUse"
        "retry_from (Suc a) left b (Some AddrInUse) =
           Err (if left = 0 then case Some AddrInUse of Some e \<Rightarrow> e | None \<Rightarrow> BindFailed ''bind: no attempt made'' else AddrInUse)"
      then show ?thesis using True shift [of left] by (intro disjI2) (auto split: if_splits)
    qed
  next
    case False
    then show ?thesis by (intro disjI1 exI [of _ 0]) (auto split: sum.splits bind_error.splits)
  qed
qed simp

lemma retry_outcome_raw:
  "(\<exists>k < 20. (\<forall>j < k. b j = Err AddrInUse) \<and> b k \<noteq> Err AddrInUse \<and> retry_while_port_busy b = b k) \<or>
   ((\<forall>j < 20. b j = Err AddrInUse) \<and> retry_while_port_busy b = Err AddrInUse)"
  using retry_from_outcome [of 20 b 0 None] by (simp add: retry_while_port_busy_def ATTEMPTS_def)

text \<open>
  C25: binding a proxy port is tried at most twenty times and only while the port is busy:
  the outcome is the first answer that is not \<open>AddrInUse\<close>, or \<open>AddrInUse\<close> when all twenty
  attempts met it.
\<close>

theorem retry_outcome:
  "(\<exists>k < 20. (\<forall>j < k. b j = Err AddrInUse) \<and> b k \<noteq> Err AddrInUse \<and> retry_while_port_busy b = b k) \<or>
   ((\<forall>j < 20. b j = Err AddrInUse) \<and> retry_while_port_busy b = Err AddrInUse)"
  by (rule retry_outcome_raw)

theorem retry_outcome_witness:
  "retry_while_port_busy (e_bind ex_env ''tcp'' 6000) = e_bind ex_env ''tcp'' 6000 2"
proof -
  have b: "e_bind ex_env ''tcp'' 6000 n = (if n < 2 then Err AddrInUse else Ok ())" for n
    by (simp add: ex_env_def)
  have "\<not> (\<forall>j < 20. e_bind ex_env ''tcp'' 6000 j = Err AddrInUse)" by (auto simp: b intro!: exI [of _ 2])
  with retry_outcome [of "e_bind ex_env ''tcp'' 6000"] show ?thesis by (auto simp: b split: if_splits)
qed

definition prefixed_left :: "prefixed \<Rightarrow> bytes" where
  "prefixed_left p = (case pf_prefix p of Some b \<Rightarrow> [b] | None \<Rightarrow> []) @ data_left (pf_inner p)"

fun prefixed_reads :: "nat list \<Rightarrow> prefixed \<Rightarrow> bytes \<times> prefixed" where
  "prefixed_reads [] p = ([], p)"
| "prefixed_reads (cap # caps) p =
     (case prefixed_poll_read cap p of
        (ReadyOk bs, p') \<Rightarrow> (let (out, p'') = prefixed_reads caps p' in (bs @ out, p''))
      | (_, p') \<Rightarrow> prefixed_reads caps p')"

lemma prefixed_poll_read_left:
  assumes "prefixed_poll_read cap p = (r, p')"
  shows "(case r of ReadyOk bs \<Rightarrow> bs | _ \<Rightarrow> []) @ prefixed_left p' = prefixed_left p"
proof (cases "if cap > 0 then pf_prefix p else None")
  case (Some b)
  then show ?thesis using assms by (auto simp: prefixed_poll_read_def prefixed_left_def split: if_splits)
next
  case None
  obtain q t where q: "inner_read cap (pf_inner p) = (q, t)" by force
  have cap: "pf_prefix p \<noteq> None \<Longrightarrow> cap = 0" using None by (auto split: if_splits)
  have "r = q" "p' = p\<lparr>pf_inner := t\<rparr>" using assms None q by (auto simp: prefixed_poll_read_def)
  then show ?thesis
    using inner_read_data [OF q] cap by (cases q; cases "pf_prefix p") (auto simp: prefixed_left_def)
qed

text \<open>Replaying the sniffed first byte loses nothing: whatever the sizes of the buffers it
  is read with, empty ones included, the bytes handed out followed by what is still to come
  are the first byte followed by the connection's own data.\<close>

lemma prefixed_lossless:
  "fst (prefixed_reads caps p) @ prefixed_left (snd (prefixed_reads caps p)) = prefixed_left p"
proof (induction caps arbitrary: p)
  case (Cons cap caps)
  obtain r p' where r: "prefixed_poll_read cap p = (r, p')" by force
  from prefixed_poll_read_left [OF r] Cons [of p'] r show ?case
    by (cases r) (auto split: prod.splits)
qed simp

lemma split_any_append: "d \<in> D \<Longrightarrow> (\<And>c. c \<in> set p \<Longrightarrow> c \<notin> D) \<Longrightarrow> split_any D (p @ d # s) = p # split_any D s"
  by (induction p) auto

lemma split_any_not_Nil [simp]: "split_any D s \<noteq> []"
  by (induction s) (auto split: list.splits)

text \<open>A client is judged by the idle monitor exactly when its version says it sends
  heartbeats: for a version that starts with two numbers, those before 0.52.\<close>

lemma heartbeats_by_version:
  assumes "major < 2 ^ 32" "minor < 2 ^ 32"
  shows "client_sends_heartbeats (dec_string major @ ''.'' @ dec_string minor @ ''.'' @ dec_string patch)
           \<longleftrightarrow> major = 0 \<and> minor < 52"
proof -
  let ?D = "{CHR ''.'', CHR ''-'', CHR ''+''}"
  let ?v = "dec_string major @ ''.'' @ dec_string minor @ ''.'' @ dec_string patch"
  have nd: "c \<notin> ?D" if "c \<in> set (dec_string n)" for c n
    using dec_string_digit [OF that] by (auto dest: is_digit_neq)
  have "trim ?v = ?v"
  proof (rule trim_id)
    fix c assume "c \<in> set ?v"
    then have "is_digit c \<or> c = CHR ''.''" by (auto dest: dec_string_digit)
    then show "\<not> is_ws c" using is_digit_neq(7) by (auto simp: is_ws_def)
  qed
  moreover have "split_any ?D ?v = dec_string major # dec_string minor # split_any ?D (dec_string patch)"
    using split_any_append [of "CHR ''.''" ?D "dec_string major" "dec_string minor @ ''.'' @ dec_string patch"]
      split_any_append [of "CHR ''.''" ?D "dec_string minor" "dec_string patch"] nd by simp
  ultimately show ?thesis using assms by (simp add: client_sends_heartbeats_def)
qed

lemma heartbeats_by_version_example:
  "client_sends_heartbeats (dec_string 0 @ ''.'' @ dec_string 51 @ ''.'' @ dec_string 3) \<longleftrightarrow> (0 :: nat) = 0 \<and> (51 :: nat) < 52"
  by (rule heartbeats_by_version) simp_all

text \<open>Proxy names are unique per control only, and the statistics are keyed by the bare
  name: when two clients hold proxies of one name, closing the second client's takes the
  statistics entry and frees the remote port that belong to the first, whose proxy stays
  registered.\<close>

lemma close_proxy_frees_namesake:
  assumes "i < length (s_heap s)" "j < length (s_heap s)" "i \<noteq> j"
    and "map_of (c_proxies (ctl s i)) name = Some tki" "map_of (c_proxies (ctl s j)) name = Some tkj"
    and "map_of (s_infos s) name = Some info" "px_proxy_type info = ''tcp''"
    and "map_of (s_tcp_ports s) (px_remote_port info) = Some name"
  shows "let t = close_proxy j name s in
     map_of (s_tcp_ports t) (px_remote_port info) = None \<and> map_of (s_infos t) name = None \<and>
     map_of (c_proxies (ctl t i)) name = Some tki"
proof -
  have "ctl (close_proxy j name s) i = ctl s i"
    using assms(1-3) by (simp add: ctl_def close_proxy_heap upd_control_def)
  then show ?thesis
    using assms by (simp add: close_proxy_def Let_def release_proxy_port_def remove_proxy_def release_port_def delete_conv')
qed

definition ex_namesakes :: server where
  "ex_namesakes = ex_replaced\<lparr>
     s_heap := map (\<lambda>c. c\<lparr>c_proxies := [(''web'', 7)]\<rparr>) (s_heap ex_replaced),
     s_infos := [(''web'', \<lparr> px_proxy_name = ''web'', px_proxy_type = ''tcp'', px_remote_port = 6000,
        px_user = ''first'', px_conns_total = 0 \<rparr>)],
     s_tcp_ports := [(6000, ''web''), (6001, ''web'')]\<rparr>"

lemma close_proxy_frees_namesake_example:
  "let t = close_proxy 1 ''web'' ex_namesakes in
     map_of (s_tcp_ports t) (px_remote_port \<lparr> px_proxy_name = ''web'', px_proxy_type = ''tcp'', px_remote_port = 6000,
        px_user = ''first'', px_conns_total = 0 \<rparr>) = None \<and> map_of (s_infos t) ''web'' = None \<and>
     map_of (c_proxies (ctl t 0)) ''web'' = Some 7"
  by (rule close_proxy_frees_namesake [where i = 0])
     (simp_all add: ex_namesakes_def ex_replaced_def ex_frps)

text \<open>A client that registers a name and port already held by another client's proxy of the
  same name is not refused at the registry; its bind then fails on the busy port, and
  backing out frees the first client's reservation.\<close>

lemma failed_namesake_frees_port:
  assumes "i < length (s_heap s)" "\<not> is_cancelled s i" "map_of (c_proxies (ctl s i)) (np_proxy_name np) = None"
    and "np_proxy_type np = ''tcp''" "\<not> np_use_encryption np" "\<not> np_use_compression np"
    and "remote_port_of np = Some port" "port_allowed (s_cfg s) port"
    and "map_of (s_tcp_ports s) port = Some (np_proxy_name np)"
    and "e_parse_addr e (bind_addr (s_cfg s)) port = Ok addr"
    and "\<And>n. e_bind e ''tcp'' port n = Err AddrInUse"
  shows "map_of (s_tcp_ports (new_proxy_inline e i np s)) port = None"
proof -
  have busy: "retry_while_port_busy (e_bind e ''tcp'' port) = Err AddrInUse"
    using retry_outcome_raw [of "e_bind e ''tcp'' port"] assms(11) by auto
  have tcp: "s_tcp_ports (send k m t) = s_tcp_ports t" for k m t by (simp add: send_def)
  show ?thesis
    using assms busy
    by (simp add: new_proxy_inline_cases handle_new_proxy_def start_proxy_def proxy_bound_def reserve_name_def
        register_proxy_port_def register_port_def release_proxy_port_def release_port_def delete_conv'
        proxy_error_def drop_reservation_def tcp Let_def)
qed

lemma failed_namesake_frees_port_example:
  "map_of (s_tcp_ports (new_proxy_inline (ex_env\<lparr>e_bind := \<lambda>ty p n. Err AddrInUse\<rparr>) 0 ex_np
      (ex_one\<lparr>s_tcp_ports := [(6000, ''web'')]\<rparr>))) 6000 = None"
  by (rule failed_namesake_frees_port [where addr = "''0.0.0.0'' @ '':'' @ dec_string 6000"])
     (simp_all add: ex_frps ex_env_def remote_port_of_def port_allowed_def)

end
