(* ===== verification/Rustdesk.thy ===== *)
theory Rustdesk
  imports RemgrConfig
begin

text \<open>
  The RustDesk module (\<open>remgr/src/modules/rustdesk.rs\<close>): the server key on disk and how it is
  resolved, the port check, the start-up probe and the module's start and stop. The two
  servers and the key generator come from the vendored sources: the generator is a function
  on the files of the working directory, a server task is whether it has ended.
\<close>

section \<open>The server key\<close>

definition SECRET_FILE :: string where "SECRET_FILE = ''id_ed25519''"
definition PUBLIC_FILE :: string where "PUBLIC_FILE = ''id_ed25519.pub''"
definition MIN_SECRET_KEY_LEN :: nat where "MIN_SECRET_KEY_LEN = 60"

text \<open>The readable files and the working directory of the process. The generator is given the
  directory it runs in; a directory that cannot be read or entered is an outcome of the
  environment, as are the rounds of the start-up probe: which ports accept a connection, which
  of the two tasks have ended, and the first round past the deadline.\<close>

record key_world =
  kw_cwd :: "string option"
  kw_files :: "string \<rightharpoonup> string"

record rustdesk_env =
  re_can_enter :: "string \<Rightarrow> bool"
  re_gen_sk :: "string option \<Rightarrow> (string \<rightharpoonup> string) \<Rightarrow> (string \<rightharpoonup> string)"
  re_listening :: "nat \<Rightarrow> nat \<Rightarrow> bool"
  re_finished :: "nat \<Rightarrow> bool \<times> bool"
  re_deadline :: nat

definition key_path :: "host \<Rightarrow> string \<Rightarrow> string" where
  "key_path h nm = path_join h (data_dir h) nm"

definition disk_keys :: "host \<Rightarrow> key_world \<Rightarrow> string \<times> string" where
  "disk_keys h w =
     (let read = (\<lambda>nm. case kw_files w (key_path h nm) of Some s \<Rightarrow> trim s | None \<Rightarrow> [])
      in (read PUBLIC_FILE, read SECRET_FILE))"

text \<open>The guard remembers the directory to return to; \<open>None\<close> when there is nothing to restore.\<close>

definition cwd_enter :: "rustdesk_env \<Rightarrow> string \<Rightarrow> key_world \<Rightarrow> string option \<times> key_world" where
  "cwd_enter env dir w =
     (if \<not> re_can_enter env dir then (None, w) else (kw_cwd w, w\<lparr>kw_cwd := Some dir\<rparr>))"

definition cwd_drop :: "rustdesk_env \<Rightarrow> string option \<Rightarrow> key_world \<Rightarrow> key_world" where
  "cwd_drop env guard w =
     (case guard of
        None \<Rightarrow> w
      | Some prev \<Rightarrow> if re_can_enter env prev then w\<lparr>kw_cwd := Some prev\<rparr> else w)"

definition generate_key_pair :: "host \<Rightarrow> rustdesk_env \<Rightarrow> key_world \<Rightarrow> key_world" where
  "generate_key_pair h env w =
     (case cwd_enter env (data_dir h) w of
        (guard, w1) \<Rightarrow> cwd_drop env guard (w1\<lparr>kw_files := re_gen_sk env (kw_cwd w1) (kw_files w1)\<rparr>))"

datatype rustdesk_error =
    RdDisabled
  | PortsTooLow
  | PortsTooHigh
  | PortShared nat
  | NoServerKey
  | PublicKeyConfigured nat
  | TaskExited
  | NotListening "nat list"

definition resolve_key ::
  "host \<Rightarrow> rustdesk_env \<Rightarrow> rustdesk_config \<Rightarrow> key_world \<Rightarrow> (rustdesk_error + string) \<times> key_world" where
  "resolve_key h env c w =
     (let (disk_pub, disk_sk) = disk_keys h w; key = trim (rc_key c) in
      if key = [] \<or> key = disk_pub \<or> key = disk_sk then
        (let w' = generate_key_pair h env w; (pub_after, sk_after) = disk_keys h w' in
         if pub_after = [] \<or> sk_after = [] then (Err NoServerKey, w') else (Ok sk_after, w'))
      else if length key < MIN_SECRET_KEY_LEN then (Err (PublicKeyConfigured (length key)), w)
      else (Ok key, w))"

section \<open>Ports\<close>

definition hbbs_group :: "rustdesk_config \<Rightarrow> nat list" where
  "hbbs_group c = [rc_hbbs_port c, rc_hbbs_port c - 1, rc_hbbs_port c + 2]"

definition relay_group :: "rustdesk_config \<Rightarrow> nat list" where
  "relay_group c = [rc_relay_port c, rc_relay_port c + 2]"

definition check_ports :: "rustdesk_config \<Rightarrow> rustdesk_error + unit" where
  "check_ports c =
     (if rc_hbbs_port c < 2 \<or> rc_relay_port c < 2 then Err PortsTooLow
      else if rc_hbbs_port c > 65533 \<or> rc_relay_port c > 65533 then Err PortsTooHigh
      else case List.find (\<lambda>p. p \<in> set (relay_group c)) (hbbs_group c) of
        Some p \<Rightarrow> Err (PortShared p)
      | None \<Rightarrow> Ok ())"

definition probe_ports :: "rustdesk_config \<Rightarrow> nat list" where
  "probe_ports c = remdups_adj (sort [rc_hbbs_port c, rc_relay_port c, rc_hbbs_port c - 1,
     rc_hbbs_port c + 2, rc_relay_port c + 2])"

section \<open>The module\<close>

record rustdesk_handle =
  rd_cancelled :: bool
  rd_hbbs_finished :: bool
  rd_hbbr_finished :: bool
  rd_key :: string

definition rd_alive :: "rustdesk_handle \<Rightarrow> bool" where
  "rd_alive h \<longleftrightarrow> \<not> rd_cancelled h \<and> \<not> rd_hbbs_finished h \<and> \<not> rd_hbbr_finished h"

text \<open>The loop that waits for the ports; its result is the round in which they all answered.\<close>

function wait_listening :: "rustdesk_env \<Rightarrow> nat list \<Rightarrow> nat \<Rightarrow> rustdesk_error + nat" where
  "wait_listening env ports n =
     (let missing = filter (\<lambda>p. \<not> re_listening env n p) ports in
      if missing = [] then Ok n
      else if fst (re_finished env n) \<or> snd (re_finished env n) then Err TaskExited
      else if n \<ge> re_deadline env then Err (NotListening missing)
      else wait_listening env ports (n + 1))"
  by pat_completeness auto
termination by (relation "measure (\<lambda>(env, ports, n). re_deadline env + 1 - n)") auto

declare wait_listening.simps [simp del]

record rustdesk_module =
  rm_run :: "rustdesk_handle option"
  rm_keys :: key_world

definition rd_running :: "rustdesk_module \<Rightarrow> bool" where
  "rd_running m = (case rm_run m of Some h \<Rightarrow> rd_alive h | None \<Rightarrow> False)"

text \<open>A stale handle is dropped before anything else is tried; a start that fails cancels the
  tasks it spawned.\<close>

definition rustdesk_start ::
  "host \<Rightarrow> rustdesk_env \<Rightarrow> rustdesk_config \<Rightarrow> rustdesk_module \<Rightarrow> (rustdesk_error + unit) \<times> rustdesk_module" where
  "rustdesk_start h env c m0 =
     (if rd_running m0 then (Ok (), m0)
      else
        (let m = m0\<lparr>rm_run := None\<rparr> in
         if \<not> rc_enabled c then (Err RdDisabled, m)
         else case check_ports c of
           Inl e \<Rightarrow> (Err e, m)
         | Inr _ \<Rightarrow>
             (case resolve_key h env c (rm_keys m) of
                (Inl e, w) \<Rightarrow> (Err e, m\<lparr>rm_keys := w\<rparr>)
              | (Inr key, w) \<Rightarrow>
                  (case wait_listening env (probe_ports c) 0 of
                     Inl e \<Rightarrow> (Err e, m\<lparr>rm_keys := w\<rparr>)
                   | Inr n \<Rightarrow>
                       (Ok (), m\<lparr>rm_keys := w, rm_run := Some \<lparr> rd_cancelled = False,
                          rd_hbbs_finished = fst (re_finished env n),
                          rd_hbbr_finished = snd (re_finished env n), rd_key = key \<rparr>\<rparr>)))))"

definition rustdesk_stop :: "rustdesk_module \<Rightarrow> rustdesk_module" where
  "rustdesk_stop m = m\<lparr>rm_run := None\<rparr>"

record rustdesk_report =
  rs_enabled :: bool
  rs_running :: bool
  rs_relay_port :: nat
  rs_hbbs_port :: nat
  rs_nat_test_port :: nat
  rs_websocket_port :: nat
  rs_relay_websocket_port :: nat
  rs_public_key :: string
  rs_key_set :: bool

definition rustdesk_status :: "host \<Rightarrow> rustdesk_config \<Rightarrow> rustdesk_module \<Rightarrow> rustdesk_report" where
  "rustdesk_status h c m =
     (let running = rd_running m; (disk_pub, disk_sk) = disk_keys h (rm_keys m);
          configured = trim (rc_key c);
          using_disk = (configured = [] \<or> configured = disk_pub \<or> configured = disk_sk);
          public_key = (if using_disk then disk_pub else [])
      in \<lparr> rs_enabled = rc_enabled c, rs_running = running,
           rs_relay_port = rc_relay_port c, rs_hbbs_port = rc_hbbs_port c,
           rs_nat_test_port = rc_hbbs_port c - 1,
           rs_websocket_port = min 65535 (rc_hbbs_port c + 2),
           rs_relay_websocket_port = min 65535 (rc_relay_port c + 2),
           rs_public_key = public_key,
           rs_key_set = (running \<or> configured \<noteq> [] \<or> public_key \<noteq> []) \<rparr>)"

section \<open>Properties\<close>

lemma check_ports_ok_iff:
  "check_ports c = Ok () \<longleftrightarrow>
     2 \<le> rc_hbbs_port c \<and> 2 \<le> rc_relay_port c \<and> rc_hbbs_port c \<le> 65533 \<and> rc_relay_port c \<le> 65533 \<and>
     set (hbbs_group c) \<inter> set (relay_group c) = {}"
  by (auto simp: check_ports_def find_None_iff find_Some_iff disjoint_iff split: option.splits
      dest!: find_Some_iff [THEN iffD1] intro: nth_mem)

lemma probe_ports_set [simp]:
  "set (probe_ports c) = set (hbbs_group c) \<union> set (relay_group c)"
  by (auto simp: probe_ports_def hbbs_group_def relay_group_def)

text \<open>The port check accepts exactly the configurations whose five ports, derived ones
  included, are distinct and lie between 1 and 65535 (with the relay's main port at least 2).\<close>

lemma rustdesk_ports_checked:
  "check_ports c = Ok () \<longleftrightarrow>
     distinct (hbbs_group c @ relay_group c) \<and>
     list_all (\<lambda>p. 1 \<le> p \<and> p \<le> 65535) (hbbs_group c @ relay_group c) \<and> 2 \<le> rc_relay_port c"
  unfolding check_ports_ok_iff by (auto simp: hbbs_group_def relay_group_def)

lemma generate_key_pair_cwd:
  "kw_cwd w = Some p \<Longrightarrow> re_can_enter env p \<Longrightarrow> kw_cwd (generate_key_pair h env w) = Some p"
  by (simp add: generate_key_pair_def cwd_enter_def cwd_drop_def split: option.splits)

lemma wait_listening_ok:
  "wait_listening env ports n = Ok k \<Longrightarrow> n \<le> k \<and> list_all (re_listening env k) ports"
  by (induction env ports n rule: wait_listening.induct)
     (subst (asm) (2) wait_listening.simps, auto simp: Let_def filter_empty_conv list_all_iff split: if_splits)

lemma resolve_key_ok:
  assumes "resolve_key h env c w = (Ok key, w')"
  shows "key \<noteq> [] \<and>
    (let (pub, sk) = disk_keys h w'; configured = trim (rc_key c)
     in configured = [] \<or> configured = pub \<or> configured = sk \<longrightarrow> key = sk)"
  using assms
  by (auto simp: resolve_key_def Let_def MIN_SECRET_KEY_LEN_def split: if_splits prod.splits)

text \<open>A start that reports success, by its parts.\<close>

lemma rustdesk_start_ok:
  assumes "rustdesk_start h env c m = (Ok (), m')" "\<not> rd_running m"
  obtains key w n where "rc_enabled c" "check_ports c = Ok ()"
    "resolve_key h env c (rm_keys m) = (Ok key, w)" "wait_listening env (probe_ports c) 0 = Ok n"
    "m' = m\<lparr>rm_keys := w, rm_run := Some \<lparr> rd_cancelled = False, rd_hbbs_finished = fst (re_finished env n),
       rd_hbbr_finished = snd (re_finished env n), rd_key = key \<rparr>\<rparr>"
  using assms by (auto simp: rustdesk_start_def Let_def split: if_splits sum.splits prod.splits)

lemma rustdesk_start_err:
  assumes "rustdesk_start h env c m = (Err e, m')"
  shows "rm_run m' = None"
  using assms by (auto simp: rustdesk_start_def Let_def split: if_splits sum.splits prod.splits)

text \<open>After a start that succeeded, every port the two servers use accepted a connection, the
  servers run with a key that is not empty, and when the console shows a public key, the key in
  use is the secret half of that same pair on disk. A configured secret is never shown.\<close>

lemma rustdesk_shows_served_key:
  assumes "rustdesk_start h env c m = (Ok (), m')" "\<not> rd_running m"
  shows "\<exists>handle k. rm_run m' = Some handle \<and> rd_key handle \<noteq> [] \<and>
      list_all (re_listening env k) (hbbs_group c @ relay_group c) \<and>
      (rs_public_key (rustdesk_status h c m') = [] \<or>
       (rs_public_key (rustdesk_status h c m'), rd_key handle) = disk_keys h (rm_keys m'))"
proof -
  from assms obtain key w n where k: "resolve_key h env c (rm_keys m) = (Ok key, w)"
    and n: "wait_listening env (probe_ports c) 0 = Ok n"
    and m': "m' = m\<lparr>rm_keys := w, rm_run := Some \<lparr> rd_cancelled = False,
       rd_hbbs_finished = fst (re_finished env n), rd_hbbr_finished = snd (re_finished env n), rd_key = key \<rparr>\<rparr>"
    by (rule rustdesk_start_ok)
  have "list_all (re_listening env n) (hbbs_group c @ relay_group c)"
    using wait_listening_ok [OF n] by (simp add: list_all_iff)
  then show ?thesis
    using resolve_key_ok [OF k]
    by (intro exI [of _ "the (rm_run m')"] exI [of _ n])
       (auto simp: m' rustdesk_status_def Let_def split: prod.splits)
qed

text \<open>A relay task that died because another process holds its ports goes unnoticed when that
  process answers the probe: the start reports success for a module that is not running.\<close>

lemma rustdesk_start_masked_conflict:
  assumes "rc_enabled c" "check_ports c = Ok ()" "resolve_key h env c (rm_keys m) = (Ok key, w)"
    "rm_run m = None" "\<And>p. re_listening env 0 p" "snd (re_finished env 0)"
  shows "fst (rustdesk_start h env c m) = Ok ()" "\<not> rd_running (snd (rustdesk_start h env c m))"
proof -
  have "wait_listening env (probe_ports c) 0 = Ok 0"
    by (subst wait_listening.simps) (simp add: assms(5) Let_def)
  then show "fst (rustdesk_start h env c m) = Ok ()" "\<not> rd_running (snd (rustdesk_start h env c m))"
    using assms by (auto simp: rustdesk_start_def rd_running_def rd_alive_def)
qed

text \<open>A host with a key pair on disk whose servers come up in the second round.\<close>

definition ex_rustdesk_env :: rustdesk_env where
  "ex_rustdesk_env = \<lparr> re_can_enter = (\<lambda>_. True), re_gen_sk = (\<lambda>_ fs. fs),
     re_listening = (\<lambda>n p. n > 0), re_finished = (\<lambda>_. (False, False)), re_deadline = 50 \<rparr>"

definition ex_rustdesk :: rustdesk_module where
  "ex_rustdesk = \<lparr> rm_run = None, rm_keys = \<lparr> kw_cwd = Some ''/'', kw_files =
     [key_path ex_host PUBLIC_FILE \<mapsto> ''PUB'', key_path ex_host SECRET_FILE \<mapsto> ''SECRET''] \<rparr> \<rparr>"

definition ex_rustdesk_config :: rustdesk_config where
  "ex_rustdesk_config = default_rustdesk\<lparr>rc_enabled := True\<rparr>"

lemma ex_rustdesk_keys: "disk_keys ex_host (rm_keys ex_rustdesk) = (''PUB'', ''SECRET'')"
  by code_simp

lemma ex_rustdesk_start: "fst (rustdesk_start ex_host ex_rustdesk_env ex_rustdesk_config ex_rustdesk) = Ok ()"
proof -
  have "check_ports ex_rustdesk_config = Ok ()"
    unfolding check_ports_ok_iff
    by (simp add: ex_rustdesk_config_def default_rustdesk_def hbbs_group_def relay_group_def)
  moreover have "wait_listening ex_rustdesk_env ports 0 = Ok (if ports = [] then 0 else 1)" for ports
    by (simp add: wait_listening.simps [of _ _ 0] wait_listening.simps [of _ _ "Suc 0"] ex_rustdesk_env_def Let_def
        filter_empty_conv)
  moreover have "generate_key_pair ex_host ex_rustdesk_env (rm_keys ex_rustdesk) = rm_keys ex_rustdesk"
    by (simp add: generate_key_pair_def cwd_enter_def cwd_drop_def ex_rustdesk_env_def ex_rustdesk_def)
  moreover have "rc_enabled ex_rustdesk_config" "trim (rc_key ex_rustdesk_config) = []"
    by (simp_all add: ex_rustdesk_config_def default_rustdesk_def trim_def trim_start_def trim_end_def)
  ultimately show ?thesis
    by (simp add: rustdesk_start_def resolve_key_def ex_rustdesk_keys)
qed

lemma rustdesk_shows_served_key_example:
  "\<exists>handle. rm_run (snd (rustdesk_start ex_host ex_rustdesk_env ex_rustdesk_config ex_rustdesk)) = Some handle \<and>
     rd_key handle \<noteq> []"
proof -
  have "\<not> rd_running ex_rustdesk" by (simp add: rd_running_def ex_rustdesk_def)
  with ex_rustdesk_start show ?thesis
    using rustdesk_shows_served_key [of ex_host ex_rustdesk_env ex_rustdesk_config ex_rustdesk]
    by (metis prod.collapse)
qed

end
