(* ===== verification/Easytier.thy ===== *)
theory Easytier
  imports Net Msg RemgrConfig
begin

text \<open>
  The EasyTier module (\<open>remgr/src/modules/easytier.rs\<close>): the TOML text of the node, the
  credentials of the embedded dashboard, the machine id, and the module's start, stop and
  status. The embedded web server, the node library, the driver probe and the password hash
  are outcomes and functions of the environment.
\<close>

section \<open>The node's configuration text\<close>

definition DEFAULT_NODE_NAME :: string where "DEFAULT_NODE_NAME = ''remgr-node''"

definition quote_char :: char where "quote_char = CHR 0x22"
definition backslash :: char where "backslash = CHR 0x5C"

text \<open>Control characters are U+0000 to U+001F, U+007F and U+0080 to U+009F; the last group
  takes two bytes in UTF-8.\<close>

definition is_c0 :: "char \<Rightarrow> bool" where
  "is_c0 c \<longleftrightarrow> (of_char c :: nat) < 32 \<or> (of_char c :: nat) = 127"

definition is_c1 :: "char \<Rightarrow> char \<Rightarrow> bool" where
  "is_c1 c d \<longleftrightarrow> (of_char c :: nat) = 194 \<and> 128 \<le> (of_char d :: nat) \<and> (of_char d :: nat) < 160"

definition escape_char :: "char \<Rightarrow> string" where
  "escape_char c =
     (if c = quote_char then [backslash, quote_char]
      else if c = backslash then [backslash, backslash]
      else if is_c0 c then []
      else [c])"

fun toml_string :: "string \<Rightarrow> string" where
  "toml_string [] = []"
| "toml_string [c] = escape_char c"
| "toml_string (c # d # cs) =
     (if is_c1 c d then toml_string cs else escape_char c @ toml_string (d # cs))"

definition line_end :: string where "line_end = [CHR 0x0A]"

definition quoted :: "string \<Rightarrow> string" where
  "quoted s = [quote_char] @ toml_string s @ [quote_char]"

definition build_instance_toml :: "easytier_config \<Rightarrow> string" where
  "build_instance_toml c =
     (let listeners = concat (map (\<lambda>l. ''  '' @ quoted l @ '','' @ line_end) (ec_listeners c));
          node_name = (if ec_node_name c = [] then DEFAULT_NODE_NAME else ec_node_name c);
          ip_part = (if ec_virtual_ipv4 c = [] then ''dhcp = true''
                     else ''ipv4 = '' @ quoted (ec_virtual_ipv4 c) @ line_end @ ''dhcp = false'')
      in ''listeners = ['' @ line_end @ listeners @ '']'' @ line_end @
         ''instance_name = '' @ quoted node_name @ line_end @
         ''hostname = '' @ quoted node_name @ line_end @
         ip_part @ line_end @
         ''[network_identity]'' @ line_end @
         ''network_name = '' @ quoted (ec_network_name c) @ line_end @
         ''network_secret = '' @ quoted (ec_network_secret c) @ line_end @
         ''[flags]'' @ line_end @
         ''default_protocol = '' @ quoted ''tcp'' @ line_end @
         ''latency_first = true'' @ line_end)"

section \<open>The environment and the module's state\<close>

datatype easytier_error =
    EtDisabled
  | DbDirFailed
  | BadApiAddr string
  | WebNotStarted string
  | BadInstanceToml
  | MissingDriver string

text \<open>The library calls a start makes: the outcome of each attempt to start the web server
  (\<open>None\<close> is success), whether a text is a valid node configuration, the driver that is
  missing, whether the node instance starts; the digest and the password hash; which database
  calls succeed; whether a background task returns; which files can be written; random draws.\<close>

record easytier_env =
  ee_db_dir :: bool
  ee_web :: "nat \<Rightarrow> string option"
  ee_toml :: "string \<Rightarrow> bool"
  ee_loads :: "string \<Rightarrow> bool"
  ee_instance :: bool
  ee_md5 :: "bytes \<Rightarrow> bytes"
  ee_verify :: "string \<Rightarrow> string \<Rightarrow> bool"
  ee_hash :: "string \<Rightarrow> string"
  ee_db_ok :: "nat \<Rightarrow> bool"
  ee_task_ok :: "nat \<Rightarrow> bool"
  ee_write_ok :: "string \<Rightarrow> bool"
  ee_draws :: "nat list"
  ee_uuid :: "string \<Rightarrow> bool"
  ee_new_uuid :: string

text \<open>The files the module keeps, those among them that are readable by the owner only, and
  the accounts of the dashboard with the hash of each password.\<close>

record et_world =
  ew_files :: "string \<rightharpoonup> string"
  ew_private :: "string set"
  ew_users :: "string \<rightharpoonup> string"

section \<open>The dashboard's accounts\<close>

definition get_user_password_hash :: "string \<Rightarrow> et_world \<Rightarrow> string option" where
  "get_user_password_hash user w = ew_users w user"

text \<open>Replacing the hash of an account that exists; the answer says whether it does.\<close>

definition set_user_password :: "string \<Rightarrow> string \<Rightarrow> et_world \<Rightarrow> bool \<times> et_world" where
  "set_user_password user hash w =
     (case ew_users w user of
        None \<Rightarrow> (False, w)
      | Some _ \<Rightarrow> (True, w\<lparr>ew_users := (ew_users w)(user \<mapsto> hash)\<rparr>))"

text \<open>Names are unique: inserting one that exists is an error and changes nothing.\<close>

definition create_user :: "string \<Rightarrow> string \<Rightarrow> et_world \<Rightarrow> bool \<times> et_world" where
  "create_user user hash w =
     (if ew_users w user = None then (True, w\<lparr>ew_users := (ew_users w)(user \<mapsto> hash)\<rparr>) else (False, w))"

definition dashboard_credential :: "easytier_env \<Rightarrow> string \<Rightarrow> string" where
  "dashboard_credential env password = hex_lower (ee_md5 env (bytes_of password))"

definition DEFAULT_DASHBOARD_PASSWORD :: string where "DEFAULT_DASHBOARD_PASSWORD = ''admin''"

definition pw_file :: "host \<Rightarrow> string" where
  "pw_file h = path_join h (run_dir h) ''easytier_dashboard_password''"

definition demo_file :: "host \<Rightarrow> string" where
  "demo_file h = path_join h (run_dir h) ''easytier_dashboard_password_user''"

text \<open>The password a file records, if it records one.\<close>

definition stored_password :: "string \<Rightarrow> et_world \<Rightarrow> string option" where
  "stored_password path w =
     (case ew_files w path of
        None \<Rightarrow> None
      | Some s \<Rightarrow> if trim s = [] then None else Some (trim s))"

text \<open>Writing a password file: a write that fails is ignored; the mode is restricted on unix.\<close>

definition record_password :: "host \<Rightarrow> easytier_env \<Rightarrow> string \<Rightarrow> string \<Rightarrow> et_world \<Rightarrow> et_world" where
  "record_password h env path password w =
     (let w' = (if ee_write_ok env path then w\<lparr>ew_files := (ew_files w)(path \<mapsto> password @ line_end)\<rparr> else w)
      in if \<not> h_windows h \<and> ew_files w' path \<noteq> None then w'\<lparr>ew_private := insert path (ew_private w')\<rparr> else w')"

text \<open>Whether the recorded password still opens the \<open>admin\<close> account: database call 0 and
  background task 0.\<close>

definition admin_usable :: "host \<Rightarrow> easytier_env \<Rightarrow> et_world \<Rightarrow> bool" where
  "admin_usable h env w =
     (case stored_password (pw_file h) w of
        None \<Rightarrow> False
      | Some pw \<Rightarrow>
          (case (if ee_db_ok env 0 then get_user_password_hash ''admin'' w else None) of
             None \<Rightarrow> False
           | Some hash \<Rightarrow> ee_task_ok env 0 \<and> ee_verify env (dashboard_credential env pw) hash))"

text \<open>Installing the default password: replace the hash (call 1), or create the account
  (call 2) when that did not change one.\<close>

definition install_admin :: "host \<Rightarrow> easytier_env \<Rightarrow> et_world \<Rightarrow> et_world" where
  "install_admin h env w =
     (if \<not> ee_task_ok env 1 then w
      else
        (let hash = ee_hash env (dashboard_credential env DEFAULT_DASHBOARD_PASSWORD);
             (replaced, w1) = (if ee_db_ok env 1 then set_user_password ''admin'' hash w else (False, w));
             (installed, w2) = (if replaced then (True, w1)
                                else if ee_db_ok env 2 then create_user ''admin'' hash w1 else (False, w1))
         in if installed then record_password h env (pw_file h) DEFAULT_DASHBOARD_PASSWORD w2 else w2))"

definition bootstrap_admin :: "host \<Rightarrow> easytier_env \<Rightarrow> et_world \<Rightarrow> et_world" where
  "bootstrap_admin h env w = (if admin_usable h env w then w else install_admin h env w)"

definition ALPH :: string where
  "ALPH = ''abcdefghjkmnpqrstuvwxyzABCDEFGHJKMNPQRSTUVWXYZ23456789''"

definition demo_password :: "easytier_env \<Rightarrow> string" where
  "demo_password env = map (\<lambda>i. ALPH ! (i mod length ALPH)) (take 14 (ee_draws env))"

text \<open>The demo account is rotated while it still has its published password: database calls 3
  and 4, background tasks 2 and 3.\<close>

definition demo_default :: "easytier_env \<Rightarrow> et_world \<Rightarrow> bool" where
  "demo_default env w =
     (case (if ee_db_ok env 3 then get_user_password_hash ''user'' w else None) of
        None \<Rightarrow> False
      | Some hash \<Rightarrow> ee_task_ok env 2 \<and> ee_verify env (dashboard_credential env ''user'') hash)"

definition rotate_demo :: "host \<Rightarrow> easytier_env \<Rightarrow> et_world \<Rightarrow> et_world" where
  "rotate_demo h env w =
     (if \<not> demo_default env w \<or> \<not> ee_task_ok env 3 \<or> \<not> ee_db_ok env 4 then w
      else
        (let hash = ee_hash env (dashboard_credential env (demo_password env));
             (_, w1) = set_user_password ''user'' hash w
         in record_password h env (demo_file h) (demo_password env) w1))"

section \<open>Start, stop and status\<close>

definition WEB_START_ATTEMPTS :: nat where "WEB_START_ATTEMPTS = 24"

fun start_web_from :: "(nat \<Rightarrow> string option) \<Rightarrow> nat \<Rightarrow> nat \<Rightarrow> string \<Rightarrow> string + nat" where
  "start_web_from web 0 attempt last_err = Err last_err"
| "start_web_from web (Suc left) attempt last_err =
     (case web attempt of None \<Rightarrow> Ok attempt | Some e \<Rightarrow> start_web_from web left (attempt + 1) e)"

definition start_web :: "(nat \<Rightarrow> string option) \<Rightarrow> string + nat" where
  "start_web web = start_web_from web WEB_START_ATTEMPTS 0 ''no attempt was made''"

definition machine_id_path :: "host \<Rightarrow> easytier_config \<Rightarrow> string" where
  "machine_id_path h c = path_join h (parent (ec_db_path c)) ''machine_id''"

text \<open>The stored id when it is well formed, otherwise a new one, recorded if that works.\<close>

definition machine_id :: "host \<Rightarrow> easytier_env \<Rightarrow> easytier_config \<Rightarrow> et_world \<Rightarrow> string \<times> et_world" where
  "machine_id h env c w =
     (let path = machine_id_path h c;
          fresh = (ee_new_uuid env,
                   if ee_write_ok env path then w\<lparr>ew_files := (ew_files w)(path \<mapsto> ee_new_uuid env)\<rparr> else w)
      in case ew_files w path of
           Some s \<Rightarrow> if ee_uuid env (trim s) then (trim s, w) else fresh
         | None \<Rightarrow> fresh)"

text \<open>The first driver library that cannot be loaded.\<close>

definition missing_windows_driver :: "(string \<Rightarrow> bool) \<Rightarrow> string option" where
  "missing_windows_driver loads =
     map_option (\<lambda>dll. dll @ '' is not installed'')
       (List.find (\<lambda>dll. \<not> loads dll) [''Packet.dll'', ''wpcap.dll'', ''wintun.dll''])"

record easytier_handle =
  eh_machine_id :: string
  eh_node_instance :: bool

text \<open>Registrations lists the machine ids of the registration tasks that are running.\<close>

record easytier_module =
  em_run :: "easytier_handle option"
  em_world :: et_world
  em_registrations :: "string list"

definition wants_node :: "easytier_config \<Rightarrow> bool" where
  "wants_node c \<longleftrightarrow> ec_node_enabled c \<and> ec_network_name c \<noteq> []"

text \<open>The registration of the node with the configuration server, as a task that runs until the
  handle's token is cancelled (one that cannot register only logs and counts until then), and
  the network instance: on Windows a missing driver is an
  error, an instance that does not start is only logged.\<close>

definition register_node :: "string \<Rightarrow> easytier_module \<Rightarrow> easytier_module" where
  "register_node mid m = m\<lparr>em_registrations := mid # em_registrations m\<rparr>"

definition start_node :: "host \<Rightarrow> easytier_env \<Rightarrow> easytier_config \<Rightarrow> easytier_error + bool" where
  "start_node h env c =
     (if \<not> wants_node c then Ok False
      else case (if h_windows h then missing_windows_driver (ee_loads env) else None) of
        Some missing \<Rightarrow> Err (MissingDriver missing)
      | None \<Rightarrow> Ok (ee_instance env))"

definition easytier_start ::
  "host \<Rightarrow> easytier_env \<Rightarrow> easytier_config \<Rightarrow> easytier_module \<Rightarrow> (easytier_error + unit) \<times> easytier_module" where
  "easytier_start h env c m =
     (if em_run m \<noteq> None then (Ok (), m)
      else if \<not> ec_enabled c then (Err EtDisabled, m)
      else if \<not> ee_db_dir env then (Err DbDirFailed, m)
      else if parse_ip (ec_api_addr c) = None then (Err (BadApiAddr (ec_api_addr c)), m)
      else case start_web (ee_web env) of
        Inl cause \<Rightarrow> (Err (WebNotStarted cause), m)
      | Inr _ \<Rightarrow>
          if wants_node c \<and> \<not> ee_toml env (build_instance_toml c) then (Err BadInstanceToml, m)
          else
            (let (mid, w) = machine_id h env c (rotate_demo h env (bootstrap_admin h env (em_world m)));
                 m1 = register_node mid (m\<lparr>em_world := w\<rparr>)
             in case start_node h env c of
                  Inl e \<Rightarrow> (Err e, m1)
                | Inr node \<Rightarrow> (Ok (), m1\<lparr>em_run := Some \<lparr> eh_machine_id = mid, eh_node_instance = node \<rparr>\<rparr>)))"

text \<open>Stopping cancels the registration task of the handle.\<close>

definition easytier_stop :: "easytier_module \<Rightarrow> easytier_module" where
  "easytier_stop m =
     (case em_run m of
        None \<Rightarrow> m
      | Some hdl \<Rightarrow> m\<lparr>em_run := None, em_registrations := remove1 (eh_machine_id hdl) (em_registrations m)\<rparr>)"

definition easytier_running :: "easytier_module \<Rightarrow> bool" where
  "easytier_running m \<longleftrightarrow> em_run m \<noteq> None"

definition node_state :: "easytier_config \<Rightarrow> easytier_module \<Rightarrow> string" where
  "node_state c m =
     (if \<not> ec_node_enabled c then ''off''
      else if \<not> ec_enabled c then ''disabled''
      else case em_run m of
        None \<Rightarrow> ''stopped''
      | Some hdl \<Rightarrow>
          if trim (ec_network_name c) = [] then ''no_network''
          else if eh_node_instance hdl then ''running''
          else ''failed'')"

section \<open>Reading a quoted value back\<close>

text \<open>A TOML basic string up to its closing quote: the two escapes the writer produces are
  resolved, a control character or any other escape is an error.\<close>

fun read_basic :: "string \<Rightarrow> (string \<times> string) option" where
  "read_basic [] = None"
| "read_basic (c # cs) =
     (if c = quote_char then Some ([], cs)
      else if c = backslash then
        (case cs of
           d # ds \<Rightarrow>
             if d = quote_char \<or> d = backslash
             then map_option (\<lambda>(v, rest). (d # v, rest)) (read_basic ds) else None
         | [] \<Rightarrow> None)
      else if is_c0 c then None
      else map_option (\<lambda>(v, rest). (c # v, rest)) (read_basic cs))"

fun read_quoted :: "string \<Rightarrow> (string \<times> string) option" where
  "read_quoted (c # cs) = (if c = quote_char then read_basic cs else None)"
| "read_quoted [] = None"

text \<open>The value without its control characters.\<close>

fun without_controls :: "string \<Rightarrow> string" where
  "without_controls [] = []"
| "without_controls [c] = (if is_c0 c then [] else [c])"
| "without_controls (c # d # cs) =
     (if is_c1 c d then without_controls cs
      else if is_c0 c then without_controls (d # cs)
      else c # without_controls (d # cs))"

lemma quote_facts [simp]:
  "quote_char \<noteq> backslash" "backslash \<noteq> quote_char" "\<not> is_c0 quote_char" "\<not> is_c0 backslash"
  by (simp_all add: quote_char_def backslash_def is_c0_def)

lemma read_basic_escape:
  "read_basic (escape_char c @ t) =
     (if is_c0 c then read_basic t else map_option (\<lambda>(v, rest). (c # v, rest)) (read_basic t))"
  by (auto simp: escape_char_def)

lemma read_basic_toml:
  "read_basic (toml_string s @ quote_char # rest) = Some (without_controls s, rest)"
  by (induction s rule: toml_string.induct) (simp_all add: read_basic_escape)

text \<open>Whatever a configured value contains, its quoted form in the node's TOML text reads
  back as the value without its control characters, and the text after it is left alone: a
  quote or a backslash in a name or a secret can not end the string.\<close>

lemma toml_value_roundtrip:
  "read_quoted (quoted s @ rest) = Some (without_controls s, rest)"
  by (simp add: quoted_def read_basic_toml)

section \<open>The dashboard's password\<close>

lemma record_password_users [simp]: "ew_users (record_password h env path pw w) = ew_users w"
  by (simp add: record_password_def Let_def)

lemma record_password_files:
  "ee_write_ok env path \<Longrightarrow> ew_files (record_password h env path pw w) = (ew_files w)(path \<mapsto> pw @ line_end)"
  by (simp add: record_password_def Let_def)

lemma record_password_private:
  "ee_write_ok env path \<Longrightarrow> \<not> h_windows h \<Longrightarrow> path \<in> ew_private (record_password h env path pw w)"
  by (simp add: record_password_def Let_def)

lemma rotate_demo_keeps:
  "user \<noteq> ''user'' \<Longrightarrow> ew_users (rotate_demo h env w) user = ew_users w user"
  by (auto simp: rotate_demo_def set_user_password_def Let_def split: option.splits)

lemma rotate_demo_files:
  "path \<noteq> demo_file h \<Longrightarrow> ew_files (rotate_demo h env w) path = ew_files w path"
  by (auto simp: rotate_demo_def set_user_password_def record_password_def Let_def split: option.splits)

lemma machine_id_users [simp]: "ew_users (snd (machine_id h env c w)) = ew_users w"
  by (simp add: machine_id_def Let_def split: option.splits)

lemma machine_id_files:
  "path \<noteq> machine_id_path h c \<Longrightarrow> ew_files (snd (machine_id h env c w)) path = ew_files w path"
  by (simp add: machine_id_def Let_def split: option.splits)

text \<open>Whether the recorded password opens the account, leaving failures of the database and
  of background tasks aside.\<close>

definition admin_opens :: "host \<Rightarrow> easytier_env \<Rightarrow> et_world \<Rightarrow> bool" where
  "admin_opens h env w \<longleftrightarrow>
     (case (stored_password (pw_file h) w, ew_users w ''admin'') of
        (Some pw, Some hash) \<Rightarrow> ee_verify env (dashboard_credential env pw) hash
      | _ \<Rightarrow> False)"

lemma admin_usable_opens: "admin_usable h env w \<Longrightarrow> admin_opens h env w"
  by (auto simp: admin_usable_def admin_opens_def get_user_password_hash_def split: option.splits if_splits)

lemma stored_default: "ew_files w p = Some (DEFAULT_DASHBOARD_PASSWORD @ line_end) \<Longrightarrow>
    stored_password p w = Some DEFAULT_DASHBOARD_PASSWORD"
  by (simp add: stored_password_def DEFAULT_DASHBOARD_PASSWORD_def line_end_def trim_def trim_start_def
      trim_end_def is_ws_def)

lemma install_admin_opens:
  assumes ok: "\<And>d. ee_verify env d (ee_hash env d)" "ee_task_ok env 1" "ee_db_ok env 1" "ee_db_ok env 2"
    "ee_write_ok env (pw_file h)"
  shows "admin_opens h env (install_admin h env w)"
  using ok
  by (auto simp: install_admin_def admin_opens_def set_user_password_def create_user_def Let_def
      record_password_files stored_default split: option.splits)

text \<open>A start that reaches the registration, by its effects on the files and accounts.\<close>

lemma easytier_start_ok:
  assumes "easytier_start h env c m = (Ok (), m')" "em_run m = None"
  shows "\<exists>mid w. machine_id h env c (rotate_demo h env (bootstrap_admin h env (em_world m))) = (mid, w) \<and>
    m' = m\<lparr>em_world := w, em_registrations := mid # em_registrations m,
           em_run := Some \<lparr> eh_machine_id = mid, eh_node_instance = (wants_node c \<and> ee_instance env) \<rparr>\<rparr> \<and>
    ec_enabled c \<and> parse_ip (ec_api_addr c) \<noteq> None \<and> (wants_node c \<longrightarrow> ee_toml env (build_instance_toml c))"
  using assms by (auto simp: easytier_start_def start_node_def register_node_def Let_def split: if_splits sum.splits prod.splits option.splits)

lemma easytier_start_err:
  "easytier_start h env c m = (Err e, m') \<Longrightarrow> em_run m' = None"
  by (auto simp: easytier_start_def start_node_def register_node_def Let_def split: if_splits sum.splits prod.splits option.splits)

text \<open>After a start that succeeded with the database and the run directory working, the
  password recorded for the operator opens the dashboard's \<open>admin\<close> account; a password that
  already did is left as it is.\<close>

lemma dashboard_password_opens:
  assumes start: "easytier_start h env c m = (Ok (), m')" "em_run m = None"
    and verify: "\<And>d. ee_verify env d (ee_hash env d)"
    and env: "ee_task_ok env 1" "ee_db_ok env 1" "ee_db_ok env 2" "ee_write_ok env (pw_file h)"
    and paths: "machine_id_path h c \<noteq> pw_file h"
  shows "admin_opens h env (em_world m') \<and>
     (if admin_usable h env (em_world m) then ew_users (em_world m') ''admin'' = ew_users (em_world m) ''admin''
      else ew_users (em_world m') ''admin'' =
        Some (ee_hash env (dashboard_credential env DEFAULT_DASHBOARD_PASSWORD)))"
proof -
  define w1 where "w1 = bootstrap_admin h env (em_world m)"
  from easytier_start_ok [OF start] obtain mid w
    where w: "machine_id h env c (rotate_demo h env w1) = (mid, w)" and m': "em_world m' = w"
    unfolding w1_def by auto
  have "demo_file h \<noteq> pw_file h" by (simp add: demo_file_def pw_file_def path_join_def)
  then have same: "ew_users w ''admin'' = ew_users w1 ''admin''" "ew_files w (pw_file h) = ew_files w1 (pw_file h)"
    using w rotate_demo_keeps [of "''admin''" h env w1] rotate_demo_files [of "pw_file h" h env w1]
      machine_id_users [of h env c "rotate_demo h env w1"]
      machine_id_files [of "pw_file h" h c env "rotate_demo h env w1"] paths
    by auto
  then have "admin_opens h env w = admin_opens h env w1"
    by (simp add: admin_opens_def stored_password_def)
  moreover have "admin_opens h env w1"
    unfolding w1_def bootstrap_admin_def using admin_usable_opens install_admin_opens [OF verify env] by simp
  moreover have "ew_users (install_admin h env (em_world m)) ''admin'' =
      Some (ee_hash env (dashboard_credential env DEFAULT_DASHBOARD_PASSWORD))"
    using env by (auto simp: install_admin_def set_user_password_def create_user_def Let_def split: option.splits)
  ultimately show ?thesis
    using same by (simp add: m' w1_def bootstrap_admin_def)
qed

text \<open>An operator who changes the password on the dashboard, or a run directory cleared by a
  reboot, gets the default password back at the next start.\<close>

lemma changed_password_is_reset:
  assumes "stored_password (pw_file h) w = None \<or>
      (\<forall>pw hash. stored_password (pw_file h) w = Some pw \<and> ew_users w ''admin'' = Some hash \<longrightarrow>
         \<not> ee_verify env (dashboard_credential env pw) hash)"
    "ew_users w ''admin'' \<noteq> None" "ee_task_ok env 1" "ee_db_ok env 1"
  shows "ew_users (bootstrap_admin h env w) ''admin'' =
     Some (ee_hash env (dashboard_credential env ''admin''))"
proof -
  have "\<not> admin_usable h env w"
    using assms(1) by (auto simp: admin_usable_def get_user_password_hash_def split: option.splits if_splits)
  then show ?thesis
    using assms(2-) by (auto simp: bootstrap_admin_def install_admin_def set_user_password_def Let_def
        DEFAULT_DASHBOARD_PASSWORD_def)
qed

text \<open>A driver that is missing on Windows: the start fails after its registration task was
  spawned, and nothing is left that could cancel it.\<close>

lemma missing_driver_leaves_registration:
  assumes "easytier_start h env c m = (Err (MissingDriver d), m')"
  shows "em_run m' = None" "length (em_registrations m') = length (em_registrations m) + 1"
    "easytier_stop m' = m'"
  using assms by (auto simp: easytier_start_def start_node_def register_node_def easytier_stop_def Let_def split: if_splits sum.splits prod.splits option.splits)

definition ex_easytier_env :: easytier_env where
  "ex_easytier_env = \<lparr> ee_db_dir = True, ee_web = (\<lambda>n. if n < 3 then Some ''in use'' else None),
     ee_toml = (\<lambda>_. True), ee_loads = (\<lambda>_. True), ee_instance = True, ee_md5 = (\<lambda>b. b),
     ee_verify = (\<lambda>d hash. d = hash), ee_hash = (\<lambda>d. d), ee_db_ok = (\<lambda>_. True), ee_task_ok = (\<lambda>_. True),
     ee_write_ok = (\<lambda>_. True), ee_draws = [0..<14], ee_uuid = (\<lambda>s. length s = 36),
     ee_new_uuid = replicate 36 (CHR ''a'') \<rparr>"

definition ex_easytier :: easytier_module where
  "ex_easytier = \<lparr> em_run = None, em_world = \<lparr> ew_files = Map.empty, ew_private = {},
     ew_users = [''admin'' \<mapsto> ''seeded'', ''user'' \<mapsto> ''seeded''] \<rparr>, em_registrations = [] \<rparr>"

definition ex_easytier_config :: easytier_config where
  "ex_easytier_config = (default_easytier ex_host)\<lparr>ec_enabled := True, ec_api_addr := ''127.0.0.1''\<rparr>"

lemma ex_easytier_start: "fst (easytier_start ex_host ex_easytier_env ex_easytier_config ex_easytier) = Ok ()"
proof -
  have "start_web (ee_web ex_easytier_env) = Ok 3"
    by (simp add: start_web_def WEB_START_ATTEMPTS_def eval_nat_numeral ex_easytier_env_def)
  moreover have "parse_ip ''127.0.0.1'' \<noteq> None" by code_simp
  ultimately show ?thesis
    by (simp add: easytier_start_def start_node_def register_node_def ex_easytier_def ex_easytier_config_def ex_host_def ex_easytier_env_def
        split: prod.splits)
qed

lemma dashboard_password_opens_example:
  "admin_opens ex_host ex_easytier_env
     (em_world (snd (easytier_start ex_host ex_easytier_env ex_easytier_config ex_easytier)))"
proof -
  have "machine_id_path ex_host ex_easytier_config \<noteq> pw_file ex_host"
    by (simp add: machine_id_path_def pw_file_def ex_host_def path_join_def run_dir_def under_home_def home_def)
  moreover have "easytier_start ex_host ex_easytier_env ex_easytier_config ex_easytier =
      (Ok (), snd (easytier_start ex_host ex_easytier_env ex_easytier_config ex_easytier))"
    using ex_easytier_start by (metis prod.collapse)
  ultimately show ?thesis
    using dashboard_password_opens [of ex_host ex_easytier_env ex_easytier_config ex_easytier]
    by (simp add: ex_easytier_env_def ex_easytier_def)
qed

end
