(* ===== verification/Modules.thy ===== *)
theory Modules
  imports Stun Frpc_Client Frps_Control Rustdesk Easytier
begin

text \<open>
  The service modules (\<open>remgr/src/modules/\<close>) in the state they live in
  (\<open>remgr/src/state.rs\<close>): starting, stopping, restarting and reporting the five services.
  Sockets, spawned servers and libraries appear as outcomes of the environment.
\<close>

section \<open>Application state\<close>

text \<open>The frp server module: whether the server runs, and the server. Its counters and its
  configuration outlive a run.\<close>

record frps_module =
  fm_running :: bool
  fm_server :: server

record app_modules =
  am_easytier :: easytier_module
  am_stun_turn :: stun_module
  am_rustdesk :: rustdesk_module
  am_frps :: frps_module
  am_frpc :: frpc_client

text \<open>A console listener that was bound: its port and whether it speaks TLS.\<close>

datatype prepared_console = PlainListener nat | TlsListener nat

record app_state =
  ap_config :: config
  ap_snapshot :: config
  ap_disk :: files
  ap_sessions :: "string \<rightharpoonup> nat"
  ap_failures :: "nat \<times> nat"
  ap_modules :: app_modules
  ap_console_stop :: bool
  ap_pending :: "prepared_console option"
  ap_serving_port :: "nat option"
  ap_serving_tls :: bool

text \<open>Everything outside the process that a request may meet: the host, the TOML writer, the
  failures of the \<open>k\<close>-th save, at which attempts the configuration lock is free, random bytes
  and the outcomes of starting services.\<close>

record sys =
  sy_host :: host
  sy_toml :: "json \<Rightarrow> string option"
  sy_save :: "nat \<Rightarrow> nat \<Rightarrow> nat option"
  sy_free :: "nat \<Rightarrow> bool"
  sy_random :: bytes
  sy_auth_key :: "string \<Rightarrow> string \<Rightarrow> string \<Rightarrow> bytes"
  sy_turn :: "nat \<Rightarrow> turn_env"
  sy_rustdesk :: rustdesk_env
  sy_easytier :: easytier_env
  sy_tls_error :: "tls_material \<Rightarrow> string option"
  sy_read_file :: "string \<Rightarrow> string option"
  sy_bind_error :: "string \<Rightarrow> string option"

definition modules_new :: "key_world \<Rightarrow> et_world \<Rightarrow> app_modules" where
  "modules_new kw ew = \<lparr>
     am_easytier = \<lparr> em_run = None, em_world = ew, em_registrations = [] \<rparr>,
     am_stun_turn = \<lparr> sm_run = None, sm_held = {} \<rparr>,
     am_rustdesk = \<lparr> rm_run = None, rm_keys = kw \<rparr>,
     am_frps = \<lparr> fm_running = False, fm_server = Frps_Server.shared_new default_frps_config \<rparr>,
     am_frpc = client_new default_frpc_config \<rparr>"

definition app_new :: "config \<Rightarrow> files \<Rightarrow> key_world \<Rightarrow> et_world \<Rightarrow> app_state" where
  "app_new c disk kw ew = \<lparr>
     ap_config = c, ap_snapshot = c, ap_disk = disk, ap_sessions = Map.empty, ap_failures = (0, 0),
     ap_modules = modules_new kw ew,
     ap_console_stop = False, ap_pending = None, ap_serving_port = None, ap_serving_tls = False \<rparr>"

text \<open>Reading the configuration without waiting: up to twenty attempts at the lock, then the
  last configuration seen.\<close>

definition config_blocking :: "(nat \<Rightarrow> bool) \<Rightarrow> app_state \<Rightarrow> config \<times> app_state" where
  "config_blocking free s =
     (if list_ex free [0..<20] then (ap_config s, s\<lparr>ap_snapshot := ap_config s\<rparr>) else (ap_snapshot s, s))"

text \<open>Saving what is in memory; \<open>k\<close> numbers the saves of one request.\<close>

definition save_config :: "sys \<Rightarrow> nat \<Rightarrow> app_state \<Rightarrow> (config_error + unit) \<times> app_state" where
  "save_config sy k s =
     (case config_save (sy_toml sy) (sy_host sy) (sy_save sy k) (ap_config s) (ap_disk s) of
        (r, disk) \<Rightarrow> (r, s\<lparr>ap_disk := disk\<rparr>))"

datatype service = EasyTier | StunTurn | RustDesk | Frps | Frpc

text \<open>\<open>AppState::module\<close>.\<close>

definition service_of :: "string \<Rightarrow> service option" where
  "service_of nm = map_of
     [(''easytier'', EasyTier), (''stun_turn'', StunTurn), (''rustdesk'', RustDesk),
      (''frps'', Frps), (''frpc'', Frpc)] nm"

section \<open>The frp server module\<close>

datatype module_error =
    EasytierFailed easytier_error
  | StunFailed start_error
  | RustdeskFailed rustdesk_error
  | FrpsDisabled
  | FrpsFailed string
  | FrpcDisabled
  | FrpcFailed frpc_error

definition with_modules :: "(app_modules \<Rightarrow> app_modules) \<Rightarrow> app_state \<Rightarrow> app_state" where
  "with_modules f s = s\<lparr>ap_modules := f (ap_modules s)\<rparr>"

text \<open>A generated token goes into the configuration in memory; a save that fails is only
  logged.\<close>

definition pin_token :: "sys \<Rightarrow> nat \<Rightarrow> string \<Rightarrow> app_state \<Rightarrow> app_state" where
  "pin_token sy k t s =
     (let c = ap_config s; s1 = s\<lparr>ap_config := c\<lparr>cf_frps := (cf_frps c)\<lparr>token := t\<rparr>\<rparr>\<rparr>
      in snd (save_config sy k s1))"

definition frps_parse_addr :: "string \<Rightarrow> nat \<Rightarrow> string + string" where
  "frps_parse_addr addr port =
     (let t = addr @ '':'' @ dec_string port in
      case parse_socket_addr t of Some _ \<Rightarrow> Ok t | None \<Rightarrow> Err ''invalid socket address syntax'')"

text \<open>A run starts with empty tables; the counters stay.\<close>

definition fresh_run :: "server \<Rightarrow> server" where
  "fresh_run s = s\<lparr>s_stopped := False, s_controls := [], s_tcp_ports := [], s_udp_ports := []\<rparr>"

definition server_run :: "sys \<Rightarrow> frps_module \<Rightarrow> (module_error + unit) \<times> frps_module" where
  "server_run sy m =
     (case server_start (sy_tls_error sy) (sy_read_file sy) frps_parse_addr (sy_bind_error sy)
         (fm_running m) (s_cfg (fm_server m)) of
        AlreadyRunning \<Rightarrow> (Ok (), m)
      | StartFailed e \<Rightarrow> (Err (FrpsFailed e), m)
      | Listening _ \<Rightarrow> (Ok (), m\<lparr>fm_running := True, fm_server := fresh_run (fm_server m)\<rparr>))"

definition frps_start :: "sys \<Rightarrow> nat \<Rightarrow> app_state \<Rightarrow> (module_error + unit) \<times> app_state" where
  "frps_start sy k s0 =
     (let (c, s) = config_blocking (sy_free sy) s0; cfg = cf_frps c in
      if \<not> enabled cfg then (Err FrpsDisabled, s)
      else
        (let t = hex_lower (sy_random sy);
             (cfg1, s1) = (if token cfg = [] then (cfg\<lparr>token := t\<rparr>, pin_token sy k t s) else (cfg, s));
             m = am_frps (ap_modules s1);
             (r, m') = server_run sy (m\<lparr>fm_server := (fm_server m)\<lparr>s_cfg := cfg1\<rparr>\<rparr>)
         in (r, with_modules (\<lambda>ms. ms\<lparr>am_frps := m'\<rparr>) s1)))"

definition frps_stop :: "app_state \<Rightarrow> app_state" where
  "frps_stop s =
     (let m = am_frps (ap_modules s) in
      if fm_running m
      then with_modules (\<lambda>ms. ms\<lparr>am_frps := m\<lparr>fm_running := False, fm_server := server_stop (fm_server m)\<rparr>\<rparr>) s
      else s)"

section \<open>The frp client module\<close>

text \<open>The configuration reaches the client before the enabled check.\<close>

definition frpc_adopt :: "sys \<Rightarrow> app_state \<Rightarrow> frpc_config \<times> app_state" where
  "frpc_adopt sy s0 =
     (let (c, s) = config_blocking (sy_free sy) s0
      in (cf_frpc c, with_modules (\<lambda>ms. ms\<lparr>am_frpc := client_update (cf_frpc c) (am_frpc ms)\<rparr>) s))"

definition frpc_start_locked :: "sys \<Rightarrow> app_state \<Rightarrow> (module_error + unit) \<times> app_state" where
  "frpc_start_locked sy s0 =
     (let (cfg, s) = frpc_adopt sy s0 in
      if \<not> fc_enabled cfg then (Err FrpcDisabled, s)
      else case client_start (am_frpc (ap_modules s)) of
        (Inl e, m) \<Rightarrow> (Err (FrpcFailed e), with_modules (\<lambda>ms. ms\<lparr>am_frpc := m\<rparr>) s)
      | (Inr _, m) \<Rightarrow> (Ok (), with_modules (\<lambda>ms. ms\<lparr>am_frpc := m\<rparr>) s))"

definition frpc_stop :: "app_state \<Rightarrow> app_state" where
  "frpc_stop s = with_modules (\<lambda>ms. ms\<lparr>am_frpc := client_stop (am_frpc ms)\<rparr>) s"

definition frpc_apply :: "sys \<Rightarrow> app_state \<Rightarrow> (module_error + unit) \<times> app_state" where
  "frpc_apply sy s0 =
     (let s = snd (frpc_adopt sy s0) in
      if \<not> is_running (am_frpc (ap_modules s)) then (Ok (), s)
      else frpc_start_locked sy (frpc_stop s))"

section \<open>What the console is told\<close>

definition frps_tls_usable :: "(string \<Rightarrow> bool) \<Rightarrow> frps_config \<Rightarrow> bool" where
  "frps_tls_usable file_exists cfg =
     (case (tls_cert_path cfg, tls_key_path cfg) of
        (Some c, Some k) \<Rightarrow> c \<noteq> [] \<and> k \<noteq> [] \<and> file_exists c \<and> file_exists k
      | _ \<Rightarrow> False)"

record frps_module_status =
  fp_enabled :: bool
  fp_tcp_mux :: bool
  fp_token_set :: bool
  fp_tls :: bool
  fp_stats :: server_stats

definition frps_status :: "sys \<Rightarrow> (string \<Rightarrow> bool) \<Rightarrow> app_state \<Rightarrow> frps_module_status \<times> app_state" where
  "frps_status sy file_exists s0 =
     (let (c, s) = config_blocking (sy_free sy) s0; cfg = cf_frps c; m = am_frps (ap_modules s)
      in (\<lparr> fp_enabled = enabled cfg, fp_tcp_mux = tcp_mux cfg, fp_token_set = (token cfg \<noteq> []),
            fp_tls = frps_tls_usable file_exists cfg, fp_stats = stats (fm_running m) (fm_server m) \<rparr>, s))"

text \<open>The client's own status, with three settings from the configuration.\<close>

definition frpc_module_status :: "sys \<Rightarrow> nat \<Rightarrow> app_state \<Rightarrow> (bool \<times> bool \<times> nat \<times> frpc_status) \<times> app_state" where
  "frpc_module_status sy now s0 =
     (let (c, s) = config_blocking (sy_free sy) s0; cfg = cf_frpc c
      in ((fc_enabled cfg, fc_token cfg \<noteq> [], fc_pool_count cfg, client_status now (am_frpc (ap_modules s))), s))"

section \<open>The module interface\<close>

definition map_err :: "('e \<Rightarrow> 'f) \<Rightarrow> 'e + 'a \<Rightarrow> 'f + 'a" where
  "map_err f r = (case r of Inl e \<Rightarrow> Err (f e) | Inr x \<Rightarrow> Ok x)"

text \<open>\<open>status()["running"]\<close>.\<close>

fun module_running :: "service \<Rightarrow> app_state \<Rightarrow> bool" where
  "module_running EasyTier s = easytier_running (am_easytier (ap_modules s))"
| "module_running StunTurn s = stun_running (am_stun_turn (ap_modules s))"
| "module_running RustDesk s = rd_running (am_rustdesk (ap_modules s))"
| "module_running Frps s = fm_running (am_frps (ap_modules s))"
| "module_running Frpc s = is_running (am_frpc (ap_modules s))"

text \<open>A module that is already running returns before it looks at its configuration.\<close>

definition start_config :: "sys \<Rightarrow> service \<Rightarrow> app_state \<Rightarrow> config \<times> app_state" where
  "start_config sy sv s = (if module_running sv s then (ap_config s, s) else config_blocking (sy_free sy) s)"

fun module_start :: "sys \<Rightarrow> nat \<Rightarrow> service \<Rightarrow> app_state \<Rightarrow> (module_error + unit) \<times> app_state" where
  "module_start sy k EasyTier s0 =
     (let (c, s) = start_config sy EasyTier s0;
          (r, m) = easytier_start (sy_host sy) (sy_easytier sy) (cf_easytier c) (am_easytier (ap_modules s))
      in (map_err EasytierFailed r, with_modules (\<lambda>ms. ms\<lparr>am_easytier := m\<rparr>) s))"
| "module_start sy k StunTurn s0 =
     (let (c, s) = start_config sy StunTurn s0;
          (r, m) = stun_start (sy_auth_key sy) (sy_turn sy) (cf_stun_turn c) (am_stun_turn (ap_modules s))
      in (map_err StunFailed r, with_modules (\<lambda>ms. ms\<lparr>am_stun_turn := m\<rparr>) s))"
| "module_start sy k RustDesk s0 =
     (let (c, s) = start_config sy RustDesk s0;
          (r, m) = rustdesk_start (sy_host sy) (sy_rustdesk sy) (cf_rustdesk c) (am_rustdesk (ap_modules s))
      in (map_err RustdeskFailed r, with_modules (\<lambda>ms. ms\<lparr>am_rustdesk := m\<rparr>) s))"
| "module_start sy k Frps s = frps_start sy k s"
| "module_start sy k Frpc s = frpc_start_locked sy s"

fun module_stop :: "service \<Rightarrow> app_state \<Rightarrow> app_state" where
  "module_stop EasyTier s = with_modules (\<lambda>ms. ms\<lparr>am_easytier := easytier_stop (am_easytier ms)\<rparr>) s"
| "module_stop StunTurn s = with_modules (\<lambda>ms. ms\<lparr>am_stun_turn := stun_stop (am_stun_turn ms)\<rparr>) s"
| "module_stop RustDesk s = with_modules (\<lambda>ms. ms\<lparr>am_rustdesk := rustdesk_stop (am_rustdesk ms)\<rparr>) s"
| "module_stop Frps s = frps_stop s"
| "module_stop Frpc s = frpc_stop s"

text \<open>The status is asked for first, which reads the configuration.\<close>

definition module_status :: "sys \<Rightarrow> service \<Rightarrow> app_state \<Rightarrow> bool \<times> app_state" where
  "module_status sy sv s = (module_running sv s, snd (config_blocking (sy_free sy) s))"

definition restart_if_running ::
  "('s \<Rightarrow> bool \<times> 's) \<Rightarrow> ('s \<Rightarrow> 's) \<Rightarrow> ('s \<Rightarrow> ('e + unit) \<times> 's) \<Rightarrow> 's \<Rightarrow> ('e + unit) \<times> 's" where
  "restart_if_running status stop start s0 =
     (let (was_running, s) = status s0 in if \<not> was_running then (Ok (), s) else start (stop s))"

fun module_apply :: "sys \<Rightarrow> nat \<Rightarrow> service \<Rightarrow> app_state \<Rightarrow> (module_error + unit) \<times> app_state" where
  "module_apply sy k Frpc s = frpc_apply sy s"
| "module_apply sy k sv s =
     restart_if_running (module_status sy sv) (module_stop sv) (module_start sy k sv) s"

section \<open>The contract of a module\<close>

text \<open>What the console and the restart rely on: a stopped module is not running, a start that
  fails leaves a stopped module stopped, and one that succeeds leaves it running. The last law
  is under a condition \<open>honest\<close> on the environment.\<close>

locale service_module =
  fixes running :: "'s \<Rightarrow> bool"
    and stop :: "'s \<Rightarrow> 's"
    and start :: "'s \<Rightarrow> ('e + unit) \<times> 's"
    and look :: "'s \<Rightarrow> bool \<times> 's"
    and inv :: "'s \<Rightarrow> bool"
    and honest :: bool
  assumes stop_inv: "inv s \<Longrightarrow> inv (stop s)"
    and start_inv: "inv s \<Longrightarrow> inv (snd (start s))"
    and look_inv: "inv s \<Longrightarrow> inv (snd (look s))"
    and look_running: "inv s \<Longrightarrow> fst (look s) = running s \<and> running (snd (look s)) = running s"
    and stop_stops: "inv s \<Longrightarrow> \<not> running (stop s)"
    and start_fails: "inv s \<Longrightarrow> \<not> running s \<Longrightarrow> fst (start s) \<noteq> Ok () \<Longrightarrow> \<not> running (snd (start s))"
    and start_ok: "inv s \<Longrightarrow> honest \<Longrightarrow> fst (start s) = Ok () \<Longrightarrow> running (snd (start s))"
begin

lemma restart_inv: "inv s \<Longrightarrow> inv (snd (restart_if_running look stop start s))"
  by (auto simp: restart_if_running_def Let_def split_beta intro: stop_inv start_inv look_inv)

lemma restart_idle: "inv s \<Longrightarrow> \<not> running s \<Longrightarrow> fst (restart_if_running look stop start s) = Ok ()"
  using look_running [of s] by (simp add: restart_if_running_def split_beta)

lemma restart_running:
  assumes "inv s" honest
  shows "running (snd (restart_if_running look stop start s)) \<longleftrightarrow>
     running s \<and> fst (restart_if_running look stop start s) = Ok ()"
proof -
  define s1 where "s1 = stop (snd (look s))"
  have inv1: "inv s1" "\<not> running s1"
    unfolding s1_def using assms(1) by (simp_all add: look_inv stop_inv stop_stops)
  show ?thesis
    using look_running [OF assms(1)] start_ok [OF inv1(1) assms(2)] start_fails [OF inv1]
    by (auto simp: restart_if_running_def split_beta s1_def [symmetric])
qed

lemma stop_start_restarts:
  "inv s \<Longrightarrow> honest \<Longrightarrow> running (snd (start (stop s))) \<longleftrightarrow> fst (start (stop s)) = Ok ()"
  using start_ok [of "stop s"] start_fails [of "stop s"] stop_inv [of s] stop_stops [of s] by blast

end

text \<open>The invariant of the five modules: the sockets held are those of the STUN/TURN run, the
  frp server keeps its bookkeeping invariant, and a client task that has not ended is shown as
  running.\<close>

definition modules_inv :: "app_state \<Rightarrow> bool" where
  "modules_inv s \<longleftrightarrow>
     (let ms = ap_modules s in
      sm_held (am_stun_turn ms) = (case sm_run (am_stun_turn ms) of None \<Rightarrow> {} | Some h \<Rightarrow> rh_sockets h) \<and>
      server_inv (fm_server (am_frps ms)) \<and>
      (case cl_run (am_frpc ms) of
         None \<Rightarrow> True
       | Some h \<Rightarrow> cr_finished h \<or> sh_running (cl_shared (am_frpc ms))))"

text \<open>No other process answers on the ports RustDesk probes once one of its tasks has ended.\<close>

fun honest_probe :: "sys \<Rightarrow> service \<Rightarrow> bool" where
  "honest_probe sy RustDesk = (\<forall>n c. list_all (re_listening (sy_rustdesk sy) n) (probe_ports c) \<longrightarrow>
     re_finished (sy_rustdesk sy) n = (False, False))"
| "honest_probe sy sv = True"

text \<open>What \<open>apply_config\<close> does before it decides: the frp client adopts the new configuration
  even while it is stopped.\<close>

definition apply_look :: "sys \<Rightarrow> service \<Rightarrow> app_state \<Rightarrow> bool \<times> app_state" where
  "apply_look sy sv s =
     (if sv = Frpc then (let s' = snd (frpc_adopt sy s) in (module_running Frpc s', s')) else module_status sy sv s)"

lemma module_apply_restart:
  "module_apply sy k sv s = restart_if_running (apply_look sy sv) (module_stop sv) (module_start sy k sv) s"
  by (cases sv) (simp_all add: apply_look_def restart_if_running_def frpc_apply_def Let_def split_beta)

lemma with_modules_simps [simp]:
  "ap_modules (with_modules f s) = f (ap_modules s)" "ap_config (with_modules f s) = ap_config s"
  "ap_disk (with_modules f s) = ap_disk s" "ap_sessions (with_modules f s) = ap_sessions s"
  by (simp_all add: with_modules_def)

lemma config_blocking_simps [simp]:
  "ap_modules (snd (config_blocking free s)) = ap_modules s"
  "ap_config (snd (config_blocking free s)) = ap_config s"
  "ap_disk (snd (config_blocking free s)) = ap_disk s"
  "ap_sessions (snd (config_blocking free s)) = ap_sessions s"
  by (simp_all add: config_blocking_def)

lemma save_config_simps [simp]:
  "ap_modules (snd (save_config sy k s)) = ap_modules s"
  "ap_config (snd (save_config sy k s)) = ap_config s"
  "ap_sessions (snd (save_config sy k s)) = ap_sessions s"
  by (simp_all add: save_config_def split_beta)

lemma pin_token_simps [simp]:
  "ap_modules (pin_token sy k t s) = ap_modules s" "ap_sessions (pin_token sy k t s) = ap_sessions s"
  by (simp_all add: pin_token_def Let_def)

lemma start_config_modules [simp]: "ap_modules (snd (start_config sy sv s)) = ap_modules s"
  by (simp add: start_config_def)

lemma server_inv_fields [simp]:
  "server_inv (s\<lparr>s_cfg := cfg\<rparr>) = server_inv s"
  by (rule server_inv_frame) simp_all

lemma fresh_run_inv: "server_inv s \<Longrightarrow> server_inv (fresh_run s)"
  by (simp add: fresh_run_def server_inv_def controls_ok_def onlines_def)

lemma map_err_ok [simp]: "map_err f r = Ok x \<longleftrightarrow> r = Ok x"
  by (cases r) (simp_all add: map_err_def)

text \<open>The client: what its operations do to the running flag.\<close>

definition client_inv :: "frpc_client \<Rightarrow> bool" where
  "client_inv c \<longleftrightarrow> (case cl_run c of None \<Rightarrow> True | Some h \<Rightarrow> cr_finished h \<or> sh_running (cl_shared c))"

definition stun_inv :: "stun_module \<Rightarrow> bool" where
  "stun_inv m \<longleftrightarrow> sm_held m = (case sm_run m of None \<Rightarrow> {} | Some h \<Rightarrow> rh_sockets h)"

lemma modules_inv_parts:
  "modules_inv s \<longleftrightarrow> stun_inv (am_stun_turn (ap_modules s)) \<and> server_inv (fm_server (am_frps (ap_modules s))) \<and>
     client_inv (am_frpc (ap_modules s))"
  by (simp add: modules_inv_def stun_inv_def client_inv_def Let_def)

lemma rebuild_proxies_running [simp]: "sh_running (rebuild_proxies cfg s) = sh_running s"
  by (simp add: rebuild_proxies_def split_beta)

lemma client_update_running [simp]: "is_running (client_update cfg c) = is_running c"
  by (simp add: client_update_def is_running_def update_config_def)

lemma client_update_inv [simp]: "client_inv (client_update cfg c) = client_inv c"
  using client_update_running [of cfg c]
  by (simp add: client_inv_def client_update_def is_running_def split: option.splits)

lemma set_runtimes_running: "sh_running (foldl (\<lambda>s i. set_runtime i st port e s) s is') = sh_running s"
  by (induction is' arbitrary: s) (simp_all add: set_runtime_def)

lemma mark_idle_running [simp]: "sh_running (mark_all_proxies_idle s) = sh_running s"
  by (simp add: mark_all_proxies_idle_def set_runtimes_running)

lemma client_stop_spec: "\<not> is_running (client_stop c) \<and> client_inv (client_stop c)"
  by (simp add: client_stop_def is_running_def client_inv_def Let_def)

lemma client_start_spec:
  assumes "client_start c = (r, c')" "client_inv c"
  shows "client_inv c' \<and> (r = Ok () \<longrightarrow> is_running c') \<and> (r \<noteq> Ok () \<longrightarrow> is_running c' = is_running c)"
  using assms
  by (auto simp: client_start_def client_inv_def is_running_def Let_def split: option.splits if_splits sum.splits)

lemma stun_stop_inv: "stun_inv m \<Longrightarrow> stun_inv (stun_stop m) \<and> \<not> stun_running (stun_stop m)"
  by (auto simp: stun_inv_def stun_stop_def stun_running_def split: option.splits)

lemma stun_start_inv:
  assumes "stun_start k envs cfg m = (r, m')" "stun_inv m"
  shows "stun_inv m' \<and> (stun_running m' \<longleftrightarrow> r = Ok ())"
proof (cases "stun_running m")
  case True
  then show ?thesis using assms by (simp add: stun_start_def)
next
  case False
  have held: "sm_held (stun_stop m) = {}" "sm_run (stun_stop m) = None"
    using assms(2) by (auto simp: stun_inv_def stun_stop_def split: option.splits)
  show ?thesis
  proof (cases r)
    case (Inl e)
    then show ?thesis
      using stun_start_effect [OF assms(1) False] held by (simp add: stun_inv_def stun_running_def)
  next
    case (Inr u)
    then have "\<exists>h. sm_run m' = Some h \<and> rh_sockets h = sm_held m'"
      using assms(1) False held
      by (auto simp: stun_start_def Let_def split: if_splits sum.splits prod.splits)
    then show ?thesis
      using stun_start_effect [OF assms(1) False] Inr by (auto simp: stun_inv_def)
  qed
qed

lemma server_run_spec:
  assumes "server_run sy m = (r, m')" "server_inv (fm_server m)"
  shows "server_inv (fm_server m') \<and> (r = Ok () \<longrightarrow> fm_running m') \<and> (r \<noteq> Ok () \<longrightarrow> fm_running m' = fm_running m)"
  using assms
  by (auto simp: server_run_def server_start_def fresh_run_inv Let_def split: if_splits option.splits sum.splits)

lemma rustdesk_start_spec:
  assumes "rustdesk_start h env c m = (r, m')"
  shows "(r \<noteq> Ok () \<longrightarrow> \<not> rd_running m') \<and>
    ((\<forall>n. list_all (re_listening env n) (probe_ports c) \<longrightarrow> re_finished env n = (False, False)) \<longrightarrow>
       r = Ok () \<longrightarrow> rd_running m')"
proof (cases r)
  case (Inl e)
  then show ?thesis using rustdesk_start_err assms by (fastforce simp: rd_running_def)
next
  case (Inr u)
  show ?thesis
  proof (cases "rd_running m")
    case True
    then show ?thesis using assms Inr by (auto simp: rustdesk_start_def)
  next
    case False
    from assms Inr have "rustdesk_start h env c m = (Ok (), m')" by simp
    from this False obtain key w n where "wait_listening env (probe_ports c) 0 = Ok n"
      "m' = m\<lparr>rm_keys := w, rm_run := Some \<lparr> rd_cancelled = False, rd_hbbs_finished = fst (re_finished env n),
         rd_hbbr_finished = snd (re_finished env n), rd_key = key \<rparr>\<rparr>"
      by (rule rustdesk_start_ok)
    then show ?thesis
      using wait_listening_ok [of env "probe_ports c" 0 n] Inr by (auto simp: rd_running_def rd_alive_def)
  qed
qed

lemma easytier_start_spec:
  "easytier_start h env c m = (r, m') \<Longrightarrow> easytier_running m' \<longleftrightarrow> r = Ok ()"
  by (auto simp: easytier_start_def start_node_def register_node_def easytier_running_def Let_def
      split: if_splits sum.splits prod.splits option.splits)

lemma easytier_stop_spec: "\<not> easytier_running (easytier_stop m)"
  by (simp add: easytier_stop_def easytier_running_def split: option.splits)

text \<open>Each operation on the application state, as its effect on the record of modules.\<close>

definition frps_start_modules :: "sys \<Rightarrow> frps_config \<Rightarrow> frps_module \<Rightarrow> (module_error + unit) \<times> frps_module" where
  "frps_start_modules sy cfg m =
     (if \<not> enabled cfg then (Err FrpsDisabled, m)
      else server_run sy (m\<lparr>fm_server := (fm_server m)\<lparr>s_cfg :=
             if token cfg = [] then cfg\<lparr>token := hex_lower (sy_random sy)\<rparr> else cfg\<rparr>\<rparr>))"

lemma frps_start_modules_eq:
  assumes "frps_start sy k s = (r, s')"
  shows "\<exists>m. frps_start_modules sy (cf_frps (fst (config_blocking (sy_free sy) s))) (am_frps (ap_modules s)) = (r, m) \<and>
     ap_modules s' = (ap_modules s)\<lparr>am_frps := m\<rparr>"
  using assms
  by (intro exI [of _ "am_frps (ap_modules s')"])
     (auto simp: frps_start_def frps_start_modules_def Let_def split_beta split: if_splits)

lemma frps_start_spec:
  assumes "frps_start sy k s = (r, s')" "server_inv (fm_server (am_frps (ap_modules s)))"
  shows "server_inv (fm_server (am_frps (ap_modules s'))) \<and>
    (r = Ok () \<longrightarrow> module_running Frps s') \<and> (r \<noteq> Ok () \<longrightarrow> module_running Frps s' = module_running Frps s)"
proof -
  from frps_start_modules_eq [OF assms(1)] obtain m
    where m: "frps_start_modules sy (cf_frps (fst (config_blocking (sy_free sy) s))) (am_frps (ap_modules s)) = (r, m)"
      "am_frps (ap_modules s') = m" by auto
  then show ?thesis
    using assms(2) server_run_spec [of sy _ r m] by (fastforce simp: frps_start_modules_def split: if_splits)
qed

lemma frpc_adopt_modules [simp]:
  "ap_modules (snd (frpc_adopt sy s)) =
     (ap_modules s)\<lparr>am_frpc := client_update (fst (frpc_adopt sy s)) (am_frpc (ap_modules s))\<rparr>"
  by (simp add: frpc_adopt_def Let_def split_beta)

lemma frpc_start_spec:
  assumes "frpc_start_locked sy s = (r, s')" "client_inv (am_frpc (ap_modules s))"
  shows "client_inv (am_frpc (ap_modules s')) \<and> (r = Ok () \<longrightarrow> module_running Frpc s') \<and>
    (r \<noteq> Ok () \<longrightarrow> module_running Frpc s' = module_running Frpc s)"
proof -
  obtain cfg s1 where a: "frpc_adopt sy s = (cfg, s1)" by (cases "frpc_adopt sy s")
  then have m: "am_frpc (ap_modules s1) = client_update cfg (am_frpc (ap_modules s))"
    using frpc_adopt_modules [of sy s] by simp
  obtain q c where c: "client_start (am_frpc (ap_modules s1)) = (q, c)"
    by (cases "client_start (am_frpc (ap_modules s1))")
  from client_start_spec [OF this] show ?thesis
    using assms a c m by (auto simp: frpc_start_locked_def split: if_splits sum.splits)
qed

text \<open>An operation touches the record of its own module only.\<close>

definition same_others :: "service \<Rightarrow> app_modules \<Rightarrow> app_modules \<Rightarrow> bool" where
  "same_others sv a b \<longleftrightarrow>
     (sv = EasyTier \<or> am_easytier b = am_easytier a) \<and> (sv = StunTurn \<or> am_stun_turn b = am_stun_turn a) \<and>
     (sv = RustDesk \<or> am_rustdesk b = am_rustdesk a) \<and> (sv = Frps \<or> am_frps b = am_frps a) \<and>
     (sv = Frpc \<or> am_frpc b = am_frpc a)"

lemma same_others_trans: "same_others sv a b \<Longrightarrow> same_others sv b c \<Longrightarrow> same_others sv a c"
  by (auto simp: same_others_def)

lemma same_others_running:
  "same_others sv (ap_modules s) (ap_modules s') \<Longrightarrow> sv' \<noteq> sv \<Longrightarrow> module_running sv' s' = module_running sv' s"
  by (cases sv') (auto simp: same_others_def)

lemma module_stop_same: "same_others sv (ap_modules s) (ap_modules (module_stop sv s))"
  by (cases sv) (simp_all add: same_others_def frps_stop_def frpc_stop_def Let_def)

lemma frps_start_same: "same_others Frps (ap_modules s) (ap_modules (snd (frps_start sy k s)))"
  using frps_start_modules_eq [of sy k s "fst (frps_start sy k s)" "snd (frps_start sy k s)"]
  by (auto simp: same_others_def)

lemma frpc_start_same: "same_others Frpc (ap_modules s) (ap_modules (snd (frpc_start_locked sy s)))"
  using frpc_adopt_modules [of sy s]
  by (auto simp: same_others_def frpc_start_locked_def split_beta split: sum.splits)

lemma module_start_same: "same_others sv (ap_modules s) (ap_modules (snd (module_start sy k sv s)))"
proof (cases "sv \<in> {Frps, Frpc}")
  case True
  then show ?thesis using frps_start_same frpc_start_same by auto
next
  case False
  then show ?thesis by (cases sv) (simp_all add: same_others_def Let_def split_beta)
qed

lemma apply_look_same: "same_others sv (ap_modules s) (ap_modules (snd (apply_look sy sv s)))"
  by (simp add: same_others_def apply_look_def module_status_def Let_def)

lemma module_stop_inv: "modules_inv s \<Longrightarrow> modules_inv (module_stop sv s) \<and> \<not> module_running sv (module_stop sv s)"
  by (cases sv)
     (auto simp: modules_inv_parts stun_stop_inv client_stop_spec easytier_stop_spec frps_stop_def frpc_stop_def
       rd_running_def rustdesk_stop_def server_stop_inv Let_def)

lemma module_start_inv:
  assumes "modules_inv s" "module_start sy k sv s = (r, s')"
  shows "modules_inv s' \<and> (r \<noteq> Ok () \<longrightarrow> \<not> module_running sv s \<longrightarrow> \<not> module_running sv s') \<and>
    (honest_probe sy sv \<longrightarrow> r = Ok () \<longrightarrow> module_running sv s')"
proof -
  have same: "same_others sv (ap_modules s) (ap_modules s')"
    using module_start_same [of sv s sy k] assms(2) by simp
  obtain c s1 where c: "start_config sy sv s = (c, s1)" by (cases "start_config sy sv s")
  then have s1: "ap_modules s1 = ap_modules s" using start_config_modules [of sy sv s] by simp
  show ?thesis
  proof (cases sv)
    case EasyTier
    with assms c s1 same show ?thesis
      using easytier_start_spec
      by (auto simp: modules_inv_parts same_others_def Let_def split_beta) (metis prod.collapse)+
  next
    case StunTurn
    with assms c s1 same show ?thesis
      using stun_start_inv [OF prod.collapse [symmetric]]
      by (auto simp: modules_inv_parts same_others_def Let_def split_beta) 
  next
    case RustDesk
    with assms c s1 same show ?thesis
      using rustdesk_start_spec [OF prod.collapse [symmetric], of "sy_host sy" "sy_rustdesk sy" "cf_rustdesk c" "am_rustdesk (ap_modules s)"]
      by (auto simp: modules_inv_parts same_others_def Let_def split_beta)
  next
    case Frps
    with assms same show ?thesis using frps_start_spec [of sy k s r s'] by (auto simp: modules_inv_parts same_others_def)
  next
    case Frpc
    with assms same show ?thesis using frpc_start_spec [of sy s r s'] by (auto simp: modules_inv_parts same_others_def)
  qed
qed

lemma apply_look_spec:
  assumes "modules_inv s"
  shows "modules_inv (snd (apply_look sy sv s))" "fst (apply_look sy sv s) = module_running sv s"
    "module_running sv (snd (apply_look sy sv s)) = module_running sv s"
  using assms
  by (cases sv; simp add: apply_look_def module_status_def modules_inv_parts Let_def)+

interpretation svc: service_module "module_running sv" "module_stop sv" "module_start sy k sv"
  "apply_look sy sv" modules_inv "honest_probe sy sv" for sy k sv
proof unfold_locales
  fix s
  assume inv: "modules_inv s"
  obtain r s' where st: "module_start sy k sv s = (r, s')" by (cases "module_start sy k sv s")
  show "modules_inv (module_stop sv s)" "\<not> module_running sv (module_stop sv s)"
    using module_stop_inv [OF inv] by simp_all
  show "modules_inv (snd (module_start sy k sv s))"
    using module_start_inv [OF inv st] by (simp add: st)
  show "modules_inv (snd (apply_look sy sv s))"
    "fst (apply_look sy sv s) = module_running sv s \<and>
     module_running sv (snd (apply_look sy sv s)) = module_running sv s"
    using apply_look_spec [OF inv] by simp_all
  show "\<not> module_running sv (snd (module_start sy k sv s))"
    if "\<not> module_running sv s" "fst (module_start sy k sv s) \<noteq> Ok ()"
    using module_start_inv [OF inv st] that by (simp add: st)
  show "module_running sv (snd (module_start sy k sv s))"
    if "honest_probe sy sv" "fst (module_start sy k sv s) = Ok ()"
    using module_start_inv [OF inv st] that by (simp add: st)
qed

lemma module_apply_same: "same_others sv (ap_modules s) (ap_modules (snd (module_apply sy k sv s)))"
  unfolding module_apply_restart restart_if_running_def
  using apply_look_same [of sv s sy] module_stop_same [of sv "snd (apply_look sy sv s)"]
    module_start_same [of sv "module_stop sv (snd (apply_look sy sv s))" sy k]
  by (auto simp: split_beta intro: same_others_trans)

text \<open>
  C16: applying a configuration change to a service keeps the invariant of the modules and
  leaves the other four alone; the service runs afterwards exactly when it ran before and the
  restart succeeded, and a service that was stopped stays stopped without an error. For
  RustDesk this needs that no other process answers the start-up probe in its place.
\<close>

theorem apply_config_outcome:
  assumes "modules_inv s" "honest_probe sy sv" "module_apply sy k sv s = (r, s')"
  shows "modules_inv s' \<and>
    (module_running sv s' \<longleftrightarrow> module_running sv s \<and> r = Ok ()) \<and>
    (module_running sv s \<or> r = Ok ()) \<and>
    (\<forall>sv'. sv' = sv \<or> module_running sv' s' = module_running sv' s)"
  using svc.restart_inv [OF assms(1), of sy sv k] svc.restart_running [OF assms(1,2), of k]
    svc.restart_idle [OF assms(1), of sv sy k] same_others_running [OF module_apply_same [of sv s sy k]] assms(3)
  unfolding module_apply_restart by auto

definition ex_sys :: sys where
  "ex_sys = \<lparr> sy_host = ex_host, sy_toml = (\<lambda>_. Some ''x''), sy_save = (\<lambda>_ _. None), sy_free = (\<lambda>_. True),
     sy_random = replicate 16 7, sy_auth_key = (\<lambda>_ _ _. []), sy_turn = ex_turn_env, sy_rustdesk = ex_rustdesk_env,
     sy_easytier = ex_easytier_env, sy_tls_error = (\<lambda>_. None), sy_read_file = (\<lambda>_. None),
     sy_bind_error = (\<lambda>_. None) \<rparr>"

definition ex_app :: app_state where
  "ex_app = app_new (ex_config\<lparr>cf_easytier := ex_easytier_config\<rparr>) Map.empty (rm_keys ex_rustdesk) (em_world ex_easytier)"

text \<open>The same state with EasyTier running.\<close>

definition ex_app_running :: app_state where
  "ex_app_running = with_modules (\<lambda>ms. ms\<lparr>am_easytier := (am_easytier ms)\<lparr>em_run :=
     Some \<lparr> eh_machine_id = ''m'', eh_node_instance = False \<rparr>\<rparr>\<rparr>) ex_app"

lemma modules_new_inv: "modules_inv (app_new c disk kw ew)"
  by (simp add: modules_inv_parts app_new_def modules_new_def stun_inv_def client_inv_def client_new_def
      shared_new_inv)

lemma ex_app_running_inv: "modules_inv ex_app_running"
  using modules_new_inv [of "ex_config\<lparr>cf_easytier := ex_easytier_config\<rparr>" Map.empty "rm_keys ex_rustdesk"
      "em_world ex_easytier"]
  by (simp add: ex_app_running_def ex_app_def modules_inv_parts)

theorem apply_config_outcome_witness:
  "module_running EasyTier (snd (module_apply ex_sys 0 EasyTier ex_app_running)) \<longleftrightarrow>
     fst (module_apply ex_sys 0 EasyTier ex_app_running) = Ok ()"
proof -
  have "module_running EasyTier ex_app_running"
    by (simp add: ex_app_running_def easytier_running_def)
  then show ?thesis
    using apply_config_outcome [OF ex_app_running_inv, of ex_sys EasyTier 0] by (simp add: prod_eq_iff)
qed

end
