(* ===== verification/Console_Session.thy ===== *)
theory Console_Session
  imports Modules
begin

text \<open>
  Console sessions (\<open>remgr/src/console/mod.rs\<close>): cookies, the session table, the
  authentication layer in front of every route, login with its throttle, logout and the change
  of the password. The password hash is a function of the environment; one request sees one
  time.
\<close>

section \<open>Requests and answers\<close>

definition COOKIE :: string where "COOKIE = ''remgr_session''"
definition MIN_PASSWORD_LEN :: nat where "MIN_PASSWORD_LEN = 4"

datatype http_method = GET | POST | PUT | DELETE | OtherMethod string

text \<open>The parts of a request the console looks at: the first \<open>Cookie\<close> header when it is text,
  whether the CSRF header is there, and the body when it is JSON.\<close>

record request =
  rq_method :: http_method
  rq_path :: string
  rq_cookie :: "string option"
  rq_csrf :: bool
  rq_body :: "json option"

record response =
  rp_code :: nat
  rp_cookie :: "string option"
  rp_retry_after :: "nat option"
  rp_body :: json

definition reply :: "nat \<Rightarrow> json \<Rightarrow> response" where
  "reply code body = \<lparr> rp_code = code, rp_cookie = None, rp_retry_after = None, rp_body = body \<rparr>"

definition api_error :: "nat \<Rightarrow> string \<Rightarrow> response" where
  "api_error code msg = reply code (JObj [(''error'', JStr msg)])"

definition ok_reply :: response where
  "ok_reply = reply 200 (JObj [(''ok'', JBool True)])"

text \<open>What a request meets outside: the time, the password hash, whether a hashing permit was
  free, and the random bytes of a new token.\<close>

record web =
  wb_now :: nat
  wb_verify :: "string \<Rightarrow> string \<Rightarrow> bool"
  wb_hash :: "string \<Rightarrow> string option"
  wb_permit :: bool
  wb_token :: bytes

section \<open>Cookies\<close>

definition cookie_key :: string where "cookie_key = COOKIE @ ''=''"

definition drop_console_cookie :: "string \<Rightarrow> string option" where
  "drop_console_cookie raw =
     (let kept = filter (\<lambda>c. c \<noteq> [] \<and> \<not> starts_with cookie_key c) (map trim (split_on CHR '';'' raw))
      in if kept = [] then None else Some (join ''; '' kept))"

definition scope_cookie_to_et :: "string \<Rightarrow> string" where
  "scope_cookie_to_et raw =
     (let parts = map trim (split_on CHR '';'' raw);
          lower = to_ascii_lowercase;
          same_site = list_ex (\<lambda>p. starts_with ''samesite='' (lower p)) parts;
          kept = filter (\<lambda>p. \<not> starts_with ''domain='' (lower p) \<and> \<not> starts_with ''path='' (lower p)) parts
      in join ''; '' (kept @ (if same_site then [] else [''SameSite=Lax'']) @ [''Path=/et'']))"

definition session_cookie :: "app_state \<Rightarrow> string \<Rightarrow> nat \<Rightarrow> string" where
  "session_cookie s tok max_age =
     cookie_key @ tok @ ''; Path=/; HttpOnly; SameSite=Lax; Max-Age='' @ dec_string max_age @
     (if ap_serving_tls s then ''; Secure'' else [])"

definition request_token :: "string option \<Rightarrow> string option" where
  "request_token cookie =
     (let cookie = (case cookie of Some c \<Rightarrow> c | None \<Rightarrow> [])
      in case List.map_filter (\<lambda>c. strip_prefix cookie_key (trim c)) (split_on CHR '';'' cookie) of
           [] \<Rightarrow> None
         | t # _ \<Rightarrow> if t = [] then None else Some t)"

section \<open>The session table\<close>

definition sess_issue :: "nat \<Rightarrow> string \<Rightarrow> nat \<Rightarrow> (string \<rightharpoonup> nat) \<Rightarrow> (string \<rightharpoonup> nat)" where
  "sess_issue now tok expiry m =
     (\<lambda>t. case m t of Some e \<Rightarrow> if e > now then Some e else None | None \<Rightarrow> None)(tok \<mapsto> expiry)"

definition sess_check :: "nat \<Rightarrow> string option \<Rightarrow> (string \<rightharpoonup> nat) \<Rightarrow> bool \<times> (string \<rightharpoonup> nat)" where
  "sess_check now tok m =
     (case tok of
        None \<Rightarrow> (False, m)
      | Some t \<Rightarrow>
          (case m t of
             None \<Rightarrow> (False, m)
           | Some e \<Rightarrow> if e > now then (True, m) else (False, m(t := None))))"

definition sess_revoke :: "string option \<Rightarrow> (string \<rightharpoonup> nat) \<Rightarrow> (string \<rightharpoonup> nat)" where
  "sess_revoke tok m = (case tok of Some t \<Rightarrow> m(t := None) | None \<Rightarrow> m)"

definition sess_keep :: "string option \<Rightarrow> (string \<rightharpoonup> nat) \<Rightarrow> (string \<rightharpoonup> nat)" where
  "sess_keep tok m = (\<lambda>t. if Some t = tok then m t else None)"

definition new_session :: "sys \<Rightarrow> web \<Rightarrow> app_state \<Rightarrow> string \<times> app_state" where
  "new_session sy wb s0 =
     (let tok = hex_lower (wb_token wb);
          (c, s) = config_blocking (sy_free sy) s0;
          expiry = min (2 ^ 64 - 1) (wb_now wb + cc_session_ttl (cf_console c))
      in (tok, s\<lparr>ap_sessions := sess_issue (wb_now wb) tok expiry (ap_sessions s)\<rparr>))"

definition session_ok :: "web \<Rightarrow> request \<Rightarrow> app_state \<Rightarrow> bool \<times> app_state" where
  "session_ok wb rq s =
     (case sess_check (wb_now wb) (request_token (rq_cookie rq)) (ap_sessions s) of
        (b, m) \<Rightarrow> (b, s\<lparr>ap_sessions := m\<rparr>))"

section \<open>The authentication layer\<close>

definition is_public :: "string \<Rightarrow> bool" where
  "is_public path \<longleftrightarrow> path = ''/'' \<or> path = ''/api/login''"

definition needs_csrf :: "request \<Rightarrow> bool" where
  "needs_csrf rq \<longleftrightarrow> \<not> starts_with ''/et'' (rq_path rq) \<and> rq_method rq \<in> {POST, PUT, DELETE}"

definition auth_mw :: "web \<Rightarrow> (app_state \<Rightarrow> response \<times> app_state) \<Rightarrow> request \<Rightarrow> app_state \<Rightarrow> response \<times> app_state" where
  "auth_mw wb next_step rq s0 =
     (if is_public (rq_path rq) then next_step s0
      else case session_ok wb rq s0 of
        (False, s) \<Rightarrow> (api_error 401 ''unauthorized'', s)
      | (True, s) \<Rightarrow>
          if needs_csrf rq \<and> \<not> rq_csrf rq then (api_error 403 ''missing csrf header'', s) else next_step s)"

section \<open>Login and logout\<close>

definition LOGIN_MAX_FAILURES :: nat where "LOGIN_MAX_FAILURES = 10"
definition LOGIN_FAILURE_WINDOW :: nat where "LOGIN_FAILURE_WINDOW = 300"

text \<open>The window is a count and the time it started.\<close>

definition throttle_window :: "nat \<Rightarrow> nat \<times> nat \<Rightarrow> nat option \<times> (nat \<times> nat)" where
  "throttle_window now w0 =
     (let w = (if now - snd w0 \<ge> LOGIN_FAILURE_WINDOW then (0, now) else w0) in
      if fst w < LOGIN_MAX_FAILURES then (None, w)
      else (Some (max 1 (LOGIN_FAILURE_WINDOW - (now - snd w))), w))"

definition login_throttled :: "web \<Rightarrow> app_state \<Rightarrow> response option \<times> app_state" where
  "login_throttled wb s =
     (case throttle_window (wb_now wb) (ap_failures s) of
        (None, w) \<Rightarrow> (None, s\<lparr>ap_failures := w\<rparr>)
      | (Some retry, w) \<Rightarrow>
          (Some ((api_error 429 (''too many failed login attempts - wait '' @ dec_string retry @
               ''s (the correct password is always accepted)''))\<lparr>rp_retry_after := Some retry\<rparr>),
           s\<lparr>ap_failures := w\<rparr>))"

definition note_failure :: "nat \<Rightarrow> nat \<times> nat \<Rightarrow> nat \<times> nat" where
  "note_failure now w =
     (if now - snd w \<ge> LOGIN_FAILURE_WINDOW then (1, now) else (min (2 ^ 32 - 1) (fst w + 1), snd w))"

definition note_login_failure :: "web \<Rightarrow> app_state \<Rightarrow> app_state" where
  "note_login_failure wb s = s\<lparr>ap_failures := note_failure (wb_now wb) (ap_failures s)\<rparr>"

definition clear_login_failures :: "web \<Rightarrow> app_state \<Rightarrow> app_state" where
  "clear_login_failures wb s = s\<lparr>ap_failures := (0, wb_now wb)\<rparr>"

record login_req =
  lq_username :: string
  lq_password :: string

definition de_required :: "string \<Rightarrow> (json \<Rightarrow> 'a option) \<Rightarrow> (string \<times> json) list \<Rightarrow> 'a option" where
  "de_required k rd kvs = (case filter (\<lambda>(k', v). k' = k) kvs of [(_, v)] \<Rightarrow> rd v | _ \<Rightarrow> None)"

definition de_login_req :: "json \<Rightarrow> login_req option" where
  "de_login_req j = do {
     kvs \<leftarrow> struct_fields [''username'', ''password''] j;
     u \<leftarrow> de_field [''username''] de_str [] kvs;
     p \<leftarrow> de_required ''password'' de_str kvs;
     Some \<lparr> lq_username = u, lq_password = p \<rparr> }"

definition credentials_ok :: "web \<Rightarrow> console_config \<Rightarrow> login_req \<Rightarrow> bool" where
  "credentials_ok wb console rq \<longleftrightarrow>
     wb_verify wb (lq_password rq) (cc_password_hash console) \<and>
     (trim (lq_username rq) = [] \<or> trim (lq_username rq) = cc_username console)"

definition login :: "sys \<Rightarrow> web \<Rightarrow> login_req \<Rightarrow> app_state \<Rightarrow> response \<times> app_state" where
  "login sy wb rq s0 =
     (let (c, s) = config_blocking (sy_free sy) s0; console = cf_console c in
      if \<not> wb_permit wb then (api_error 503 ''login is busy, try again shortly'', s)
      else if \<not> credentials_ok wb console rq then
        (case login_throttled wb (note_login_failure wb s) of
           (Some refused, s1) \<Rightarrow> (refused, s1)
         | (None, s1) \<Rightarrow> (api_error 401 ''invalid username or password'', s1))
      else
        (let (tok, s1) = new_session sy wb (clear_login_failures wb s)
         in (ok_reply\<lparr>rp_cookie := Some (session_cookie s1 tok (cc_session_ttl console))\<rparr>, s1)))"

definition logout :: "request \<Rightarrow> app_state \<Rightarrow> response \<times> app_state" where
  "logout rq s =
     (let s1 = s\<lparr>ap_sessions := sess_revoke (request_token (rq_cookie rq)) (ap_sessions s)\<rparr>
      in (ok_reply\<lparr>rp_cookie := Some (session_cookie s1 [] 0)\<rparr>, s1))"

section \<open>Changing the configuration\<close>

datatype edit_error = Rejected string | NotSaved config_error

text \<open>The edit works on a copy; memory is only changed once the copy has been saved.\<close>

definition edit_config :: "sys \<Rightarrow> nat \<Rightarrow> (config \<Rightarrow> string + config) \<Rightarrow> app_state \<Rightarrow> (edit_error + unit) \<times> app_state" where
  "edit_config sy k edit s =
     (case edit (ap_config s) of
        Inl e \<Rightarrow> (Err (Rejected e), s)
      | Inr staged \<Rightarrow>
          (case config_save (sy_toml sy) (sy_host sy) (sy_save sy k) staged (ap_disk s) of
             (Inl e, disk) \<Rightarrow> (Err (NotSaved e), s\<lparr>ap_disk := disk\<rparr>)
           | (Inr _, disk) \<Rightarrow> (Ok (), s\<lparr>ap_disk := disk, ap_config := staged\<rparr>)))"

record password_change =
  pw_old :: string
  pw_new :: string

definition de_password_change :: "json \<Rightarrow> password_change option" where
  "de_password_change j = do {
     kvs \<leftarrow> struct_fields [''old'', ''new''] j;
     a \<leftarrow> de_required ''old'' de_str kvs;
     b \<leftarrow> de_required ''new'' de_str kvs;
     Some \<lparr> pw_old = a, pw_new = b \<rparr> }"

definition set_hash :: "string \<Rightarrow> config \<Rightarrow> string + config" where
  "set_hash hash c = Ok (c\<lparr>cf_console := (cf_console c)\<lparr>cc_password_hash := hash\<rparr>\<rparr>)"

definition change_password :: "sys \<Rightarrow> web \<Rightarrow> request \<Rightarrow> password_change \<Rightarrow> app_state \<Rightarrow> response \<times> app_state" where
  "change_password sy wb rq req s0 =
     (let (c, s) = config_blocking (sy_free sy) s0 in
      if \<not> wb_permit wb then (api_error 503 ''busy, try again shortly'', s)
      else if \<not> wb_verify wb (pw_old req) (cc_password_hash (cf_console c))
      then (api_error 401 ''invalid old password'', s)
      else if length (trim (pw_new req)) < MIN_PASSWORD_LEN then (api_error 400 ''new password too short (min 4)'', s)
      else case wb_hash wb (pw_new req) of
        None \<Rightarrow> (api_error 500 ''hash password'', s)
      | Some h \<Rightarrow>
          (case edit_config sy 0 (set_hash h) s of
             (Inl _, s1) \<Rightarrow> (api_error 500 ''could not save'', s1)
           | (Inr _, s1) \<Rightarrow>
               (reply 200 (JObj [(''ok'', JBool True), (''other_sessions_ended'', JBool True)]),
                s1\<lparr>ap_sessions := sess_keep (request_token (rq_cookie rq)) (ap_sessions s1)\<rparr>)))"

section \<open>Cookies: properties\<close>

lemma trim_start_ws [simp]: "is_ws c \<Longrightarrow> trim (c # s) = trim s"
  by (simp add: trim_def trim_start_def)

lemma dropWhile_rev_dropWhile:
  "dropWhile P (rev (dropWhile P (rev (dropWhile P s)))) = rev (dropWhile P (rev (dropWhile P s)))"
proof (cases "dropWhile P s")
  case (Cons a t)
  then have "\<not> P a" by (metis dropWhile_eq_Cons_conv)
  then show ?thesis by (simp add: Cons dropWhile_append3)
next
  case Nil
  show ?thesis unfolding Nil by simp
qed

lemma trim_trim [simp]: "trim (trim s) = trim s"
  unfolding trim_def trim_start_def trim_end_def dropWhile_rev_dropWhile
  by (simp add: dropWhile_idem)

lemma split_on_join_spaced:
  assumes "\<And>p. p \<in> set ps \<Longrightarrow> CHR '';'' \<notin> set p" "ps \<noteq> []"
  shows "map trim (split_on CHR '';'' (join ''; '' ps)) = map trim ps"
  using assms
proof (induction "''; ''" ps rule: join.induct)
  case (3 p q ps)
  then have "split_on CHR '';'' (join ''; '' (p # q # ps)) = p # split_on CHR '';'' (CHR '' '' # join ''; '' (q # ps))"
    using split_on_append [of "CHR '';''" p] by simp
  moreover have "map trim (split_on CHR '';'' (CHR '' '' # t)) = map trim (split_on CHR '';'' t)" for t
    by (cases "split_on CHR '';'' t") (simp_all add: is_ws_def)
  ultimately show ?case using 3 by simp
qed (simp_all add: split_on_no_delim)

lemma strip_prefix_starts: "strip_prefix p s = (if starts_with p s then Some (drop (length p) s) else None)"
  by (simp add: strip_prefix_def starts_with_def)

text \<open>The token of a request, computed on the trimmed parts of its cookie header.\<close>

lemma request_token_parts:
  "request_token (Some c) =
     (case List.map_filter (strip_prefix cookie_key) (map trim (split_on CHR '';'' c)) of
        [] \<Rightarrow> None | t # _ \<Rightarrow> if t = [] then None else Some t)"
  by (simp add: request_token_def map_filter_def comp_def filter_map)

lemma trim_subset: "c \<in> set (trim s) \<Longrightarrow> c \<in> set s"
  unfolding trim_def trim_start_def trim_end_def set_rev by (drule set_dropWhileD) (auto dest: set_dropWhileD)

text \<open>The cookies forwarded to the EasyTier dashboard never carry a console session: the
  console itself finds no token in them.\<close>

lemma forwarded_cookies_have_no_session:
  "request_token (drop_console_cookie raw) = None"
proof -
  define kept where "kept = filter (\<lambda>c. c \<noteq> [] \<and> \<not> starts_with cookie_key c) (map trim (split_on CHR '';'' raw))"
  have "CHR '';'' \<notin> set p" "trim p = p" "\<not> starts_with cookie_key p" if "p \<in> set kept" for p
    using that split_on_parts [of _ "CHR '';''" raw] trim_subset by (auto simp: kept_def)
  then have "map trim (split_on CHR '';'' (join ''; '' kept)) = kept" if "kept \<noteq> []"
    using split_on_join_spaced [of kept] that by (simp add: map_idI)
  moreover have "List.map_filter (strip_prefix cookie_key) kept = []"
    by (simp add: map_filter_def filter_empty_conv strip_prefix_starts kept_def)
  moreover have "request_token None = None"
    by (simp add: request_token_def map_filter_def cookie_key_def COOKIE_def strip_prefix_def)
  ultimately show ?thesis
    by (auto simp: drop_console_cookie_def kept_def [symmetric] Let_def request_token_parts)
qed

lemma token_of_own_cookie:
  assumes "tok \<noteq> []" "\<And>c. c \<in> set tok \<Longrightarrow> c \<noteq> CHR '';'' \<and> \<not> is_ws c"
  shows "request_token (Some (cookie_key @ tok)) = Some tok"
proof -
  have "CHR '';'' \<notin> set (cookie_key @ tok)" using assms(2) by (auto simp: cookie_key_def COOKIE_def)
  moreover have "trim (cookie_key @ tok) = cookie_key @ tok"
    by (rule trim_id) (use assms(2) in \<open>auto simp: cookie_key_def COOKIE_def is_ws_def\<close>)
  ultimately show ?thesis
    using assms(1) by (simp add: request_token_parts split_on_no_delim map_filter_def)
qed

lemma hex_digit_char: "d < 16 \<Longrightarrow> hex_digit d \<noteq> CHR '';'' \<and> \<not> is_ws (hex_digit d)"
proof -
  assume d: "d < 16"
  then have "(of_char (hex_digit d) :: nat) = (if d < 10 then 48 + d else 87 + d)"
    by (simp add: hex_digit_def)
  then show ?thesis using d by (auto simp: is_ws_def split: if_splits)
qed

lemma hex_lower_chars: "c \<in> set (hex_lower bs) \<Longrightarrow> c \<noteq> CHR '';'' \<and> \<not> is_ws c"
proof -
  have "unat b div 16 < 16" for b :: "8 word" using byte_bound [of b] by simp
  then show "c \<in> set (hex_lower bs) \<Longrightarrow> ?thesis"
    using hex_digit_char by (auto simp: hex_lower_def)
qed

text \<open>What the upstream sets can only be sent back under \<open>/et\<close> and to this host.\<close>

lemma scoped_cookie_parts:
  "map trim (split_on CHR '';'' (scope_cookie_to_et raw)) =
     filter (\<lambda>p. \<not> starts_with ''domain='' (to_ascii_lowercase p) \<and> \<not> starts_with ''path='' (to_ascii_lowercase p))
       (map trim (split_on CHR '';'' raw)) @
     (if list_ex (\<lambda>p. starts_with ''samesite='' (to_ascii_lowercase p)) (map trim (split_on CHR '';'' raw))
      then [] else [''SameSite=Lax'']) @ [''Path=/et'']"
  (is "_ = ?ps")
proof -
  have old: "CHR '';'' \<notin> set p \<and> trim p = p" if "p \<in> set (map trim (split_on CHR '';'' raw))" for p
    using that split_on_parts [of _ "CHR '';''" raw] trim_subset by auto
  have new: "CHR '';'' \<notin> set p \<and> trim p = p" if "p \<in> {''SameSite=Lax'', ''Path=/et''}" for p
  proof -
    have "trim p = p" by (rule trim_id) (use that in \<open>auto simp: is_ws_def\<close>)
    then show ?thesis using that by auto
  qed
  have "CHR '';'' \<notin> set p \<and> trim p = p" if "p \<in> set ?ps" for p
    using that old [of p] new [of p] by (auto split: if_splits)
  moreover have "scope_cookie_to_et raw = join ''; '' ?ps"
    by (simp add: scope_cookie_to_et_def Let_def)
  moreover have "?ps \<noteq> []" by simp
  ultimately show ?thesis
    using split_on_join_spaced [of ?ps] by (metis (no_types, lifting) map_idI)
qed

section \<open>The session table against its history\<close>

text \<open>What happens to the table, and the plain reading of a history, latest event first: a
  token is valid when it was issued with an expiry in the future and not revoked since.\<close>

datatype session_event =
    Issue string nat
  | Check "string option"
  | Revoke "string option"
  | KeepOnly "string option"

fun history_valid :: "session_event list \<Rightarrow> nat \<Rightarrow> string \<Rightarrow> bool" where
  "history_valid [] now x = False"
| "history_valid (Issue tok expiry # h) now x = (if x = tok then expiry > now else history_valid h now x)"
| "history_valid (Check _ # h) now x = history_valid h now x"
| "history_valid (Revoke tok # h) now x = (tok \<noteq> Some x \<and> history_valid h now x)"
| "history_valid (KeepOnly tok # h) now x = (tok = Some x \<and> history_valid h now x)"

locale session_table =
  fixes empty :: "'m"
    and issue :: "nat \<Rightarrow> string \<Rightarrow> nat \<Rightarrow> 'm \<Rightarrow> 'm"
    and check :: "nat \<Rightarrow> string option \<Rightarrow> 'm \<Rightarrow> bool \<times> 'm"
    and revoke :: "string option \<Rightarrow> 'm \<Rightarrow> 'm"
    and keep :: "string option \<Rightarrow> 'm \<Rightarrow> 'm"
    and valid :: "nat \<Rightarrow> string \<Rightarrow> 'm \<Rightarrow> bool"
  assumes valid_empty: "\<not> valid t x empty"
    and valid_issue: "now \<le> t \<Longrightarrow> valid t x (issue now tok expiry m) \<longleftrightarrow> (if x = tok then expiry > t else valid t x m)"
    and check_answer: "fst (check now tk m) \<longleftrightarrow> (\<exists>x. tk = Some x \<and> valid now x m)"
    and valid_check: "now \<le> t \<Longrightarrow> valid t x (snd (check now tk m)) \<longleftrightarrow> valid t x m"
    and valid_revoke: "valid t x (revoke tk m) \<longleftrightarrow> tk \<noteq> Some x \<and> valid t x m"
    and valid_keep: "valid t x (keep tk m) \<longleftrightarrow> tk = Some x \<and> valid t x m"
begin

fun step :: "nat \<times> session_event \<Rightarrow> 'm \<Rightarrow> 'm" where
  "step (now, Issue tok expiry) m = issue now tok expiry m"
| "step (now, Check tok) m = snd (check now tok m)"
| "step (now, Revoke tok) m = revoke tok m"
| "step (now, KeepOnly tok) m = keep tok m"

lemma valid_history:
  "list_all (\<lambda>(now, _). now \<le> t) h \<Longrightarrow> valid t x (foldr step h empty) \<longleftrightarrow> history_valid (map snd h) t x"
proof (induction h)
  case Nil
  then show ?case by (simp add: valid_empty)
next
  case (Cons e h)
  then show ?case
    by (cases e; cases "snd e") (simp_all add: valid_issue valid_check valid_revoke valid_keep)
qed

end

definition sess_valid :: "nat \<Rightarrow> string \<Rightarrow> (string \<rightharpoonup> nat) \<Rightarrow> bool" where
  "sess_valid now x m = (case m x of Some e \<Rightarrow> e > now | None \<Rightarrow> False)"

interpretation sess: session_table "Map.empty" sess_issue sess_check sess_revoke sess_keep sess_valid
  by unfold_locales
     (auto simp: sess_valid_def sess_issue_def sess_check_def sess_revoke_def sess_keep_def split: option.splits if_splits)

fun table_step :: "nat \<times> session_event \<Rightarrow> (string \<rightharpoonup> nat) \<Rightarrow> (string \<rightharpoonup> nat)" where
  "table_step (now, Issue tok expiry) m = sess_issue now tok expiry m"
| "table_step (now, Check tok) m = snd (sess_check now tok m)"
| "table_step (now, Revoke tok) m = sess_revoke tok m"
| "table_step (now, KeepOnly tok) m = sess_keep tok m"

lemma table_step_eq: "table_step = sess.step"
proof (intro ext)
  fix e :: "nat \<times> session_event" and m :: "string \<rightharpoonup> nat" and x
  show "table_step e m x = sess.step e m x" by (cases e; cases "snd e") auto
qed

text \<open>
  C4: the session table refines its history: after any sequence of logins, requests, logouts
  and password changes, a request is let in exactly when its token was issued, has not
  expired, and was not revoked since, although expired entries are dropped on the way.
\<close>

theorem session_table_refines_history:
  assumes "list_all (\<lambda>(t, _). t \<le> now) h"
  shows "fst (sess_check now tok (foldr table_step h Map.empty)) \<longleftrightarrow>
     (\<exists>x. tok = Some x \<and> history_valid (map snd h) now x)"
  unfolding table_step_eq sess.check_answer
  using sess.valid_history [OF assms] by simp

theorem session_table_refines_history_witness:
  "fst (sess_check 50 (Some ''a'')
     (foldr table_step [(40, Check (Some ''b'')), (20, Issue ''a'' 100), (10, Issue ''b'' 30)] Map.empty)) \<longleftrightarrow>
   (\<exists>x. Some ''a'' = Some x \<and> history_valid [Check (Some ''b''), Issue ''a'' 100, Issue ''b'' 30] 50 x)"
  using session_table_refines_history [of 50 "[(40, Check (Some ''b'')), (20, Issue ''a'' 100), (10, Issue ''b'' 30)]" "Some ''a''"]
  by simp

section \<open>Login: properties\<close>

lemma config_blocking_sessions [simp]:
  "ap_failures (snd (config_blocking free s)) = ap_failures s"
  "ap_serving_tls (snd (config_blocking free s)) = ap_serving_tls s"
  by (simp_all add: config_blocking_def)

lemma config_blocking_free: "free 0 \<Longrightarrow> fst (config_blocking free s) = ap_config s"
  by (auto simp: config_blocking_def list_ex_iff)

text \<open>A correct login is accepted whatever failures were counted before, clears the count,
  and the token it hands out is let in at every time until it expires.\<close>

lemma correct_login_opens_session:
  assumes "login sy wb rq s = (rp, s')" "wb_permit wb" "sy_free sy 0"
    and "credentials_ok wb (cf_console (ap_config s)) rq" "wb_token wb \<noteq> []"
    and "wb_now wb \<le> t" "t < min (2 ^ 64 - 1) (wb_now wb + cc_session_ttl (cf_console (ap_config s)))"
    and "rq_cookie later = Some (cookie_key @ hex_lower (wb_token wb))" "wb_now wb' = t"
  shows "rp_code rp = 200 \<and> ap_failures s' = (0, wb_now wb) \<and> fst (session_ok wb' later s')"
proof -
  define s1 where "s1 = clear_login_failures wb (snd (config_blocking (sy_free sy) s))"
  have cfg: "fst (config_blocking (sy_free sy) s) = ap_config s" "fst (config_blocking (sy_free sy) s1) = ap_config s"
    using config_blocking_free [of "sy_free sy"] assms(3) by (simp_all add: s1_def clear_login_failures_def)
  have s1: "ap_failures s1 = (0, wb_now wb)" by (simp add: s1_def clear_login_failures_def)
  obtain tok s2 where n: "new_session sy wb s1 = (tok, s2)" by (cases "new_session sy wb s1")
  then have tok: "tok = hex_lower (wb_token wb)" "ap_failures s2 = (0, wb_now wb)"
    "ap_sessions s2 tok = Some (min (2 ^ 64 - 1) (wb_now wb + cc_session_ttl (cf_console (ap_config s))))"
    by (auto simp: new_session_def Let_def split_beta cfg(2) sess_issue_def s1)
  have "tok \<noteq> []" using assms(5) by (simp add: tok(1) hex_lower_def)
  then have "request_token (rq_cookie later) = Some tok"
    using token_of_own_cookie [of tok] hex_lower_chars by (simp add: assms(8) tok(1))
  then have "fst (session_ok wb' later s2)"
    using assms(7,9) tok(3) by (simp add: session_ok_def sess_check_def split_beta)
  moreover have "rp_code rp = 200" "s' = s2"
    using assms(1,2,4) n by (auto simp: login_def cfg(1) s1_def [symmetric] ok_reply_def reply_def split_beta Let_def)
  ultimately show ?thesis using tok(2) by simp
qed

definition ex_web :: "nat \<Rightarrow> web" where
  "ex_web now = \<lparr> wb_now = now, wb_verify = (\<lambda>p hash. hash = ''#'' @ p), wb_hash = (\<lambda>p. Some (''#'' @ p)),
     wb_permit = True, wb_token = [18, 171] \<rparr>"

definition ex_console_app :: app_state where
  "ex_console_app = app_new (ex_config\<lparr>cf_console := (cf_console ex_config)\<lparr>cc_password_hash := ''#secret'',
     cc_username := ''admin'', cc_session_ttl := 3600\<rparr>\<rparr>) Map.empty (rm_keys ex_rustdesk) (em_world ex_easytier)"

definition ex_later :: request where
  "ex_later = \<lparr> rq_method = GET, rq_path = ''/api/status'', rq_cookie = Some (cookie_key @ hex_lower [18, 171]),
     rq_csrf = False, rq_body = None \<rparr>"

lemma ex_console_cfg: "cf_console (ap_config ex_console_app) = (cf_console ex_config)\<lparr>cc_password_hash := ''#secret'',
     cc_username := ''admin'', cc_session_ttl := 3600\<rparr>"
  by (simp add: ex_console_app_def app_new_def)

lemma correct_login_opens_session_example:
  "fst (session_ok (ex_web 2000) ex_later
     (snd (login ex_sys (ex_web 1000) \<lparr> lq_username = ''admin'', lq_password = ''secret'' \<rparr>
        (ex_console_app\<lparr>ap_failures := (10, 990)\<rparr>))))"
proof -
  define s where "s = ex_console_app\<lparr>ap_failures := (10, 990)\<rparr>"
  have cfg: "cf_console (ap_config s) = cf_console (ap_config ex_console_app)" by (simp add: s_def)
  have "credentials_ok (ex_web 1000) (cf_console (ap_config s)) \<lparr> lq_username = ''admin'', lq_password = ''secret'' \<rparr>"
    unfolding cfg ex_console_cfg
    by (simp add: credentials_ok_def ex_web_def trim_def trim_start_def trim_end_def is_ws_def)
  moreover have "sy_free ex_sys 0" "wb_permit (ex_web 1000)" "wb_token (ex_web 1000) = [18, 171]"
    "wb_now (ex_web 1000) = 1000" "wb_now (ex_web 2000) = 2000"
    by (simp_all add: ex_sys_def ex_web_def)
  moreover have "rq_cookie ex_later = Some (cookie_key @ hex_lower [18, 171])" by (simp add: ex_later_def)
  ultimately show ?thesis
    using correct_login_opens_session [OF prod.collapse [symmetric],
        of "ex_web 1000" ex_sys s "\<lparr> lq_username = ''admin'', lq_password = ''secret'' \<rparr>" 2000 ex_later "ex_web 2000"]
    unfolding s_def [symmetric] cfg ex_console_cfg by simp
qed

section \<open>Guessing\<close>

text \<open>The answers to a sequence of logins, each with its own time.\<close>

fun login_codes :: "sys \<Rightarrow> (web \<times> login_req) list \<Rightarrow> app_state \<Rightarrow> nat list" where
  "login_codes sy [] s = []"
| "login_codes sy ((wb, rq) # rest) s =
     (case login sy wb rq s of (rp, s') \<Rightarrow> rp_code rp # login_codes sy rest s')"

fun guess_results :: "nat \<times> nat \<Rightarrow> nat list \<Rightarrow> nat list" where
  "guess_results w [] = []"
| "guess_results w (t # ts) =
     (case throttle_window t (note_failure t w) of
        (None, w') \<Rightarrow> 401 # guess_results w' ts
      | (Some _, w') \<Rightarrow> 429 # guess_results w' ts)"

definition wrong_guess :: "console_config \<Rightarrow> web \<times> login_req \<Rightarrow> bool" where
  "wrong_guess console g \<longleftrightarrow> wb_permit (fst g) \<and> \<not> credentials_ok (fst g) console (snd g)"

lemma login_codes_wrong:
  assumes "sy_free sy 0" "list_all (wrong_guess (cf_console (ap_config s))) gs"
  shows "login_codes sy gs s = guess_results (ap_failures s) (map (wb_now \<circ> fst) gs)"
  using assms(2)
proof (induction gs arbitrary: s)
  case (Cons g gs)
  obtain wb rq where g: "g = (wb, rq)" by (cases g)
  have cfg: "fst (config_blocking (sy_free sy) s) = ap_config s" using assms(1) by (rule config_blocking_free)
  obtain r w where w: "throttle_window (wb_now wb) (note_failure (wb_now wb) (ap_failures s)) = (r, w)"
    by (cases "throttle_window (wb_now wb) (note_failure (wb_now wb) (ap_failures s))")
  have "login sy wb rq s = ((case r of None \<Rightarrow> api_error 401 ''invalid username or password''
      | Some retry \<Rightarrow> (api_error 429 (''too many failed login attempts - wait '' @ dec_string retry @
               ''s (the correct password is always accepted)''))\<lparr>rp_retry_after := Some retry\<rparr>),
      (snd (config_blocking (sy_free sy) s))\<lparr>ap_failures := w\<rparr>)"
    using Cons.prems w
    by (simp add: g wrong_guess_def login_def login_throttled_def note_login_failure_def cfg split_beta split: option.splits)
  moreover have "list_all (wrong_guess (cf_console (ap_config ((snd (config_blocking (sy_free sy) s))\<lparr>ap_failures := w\<rparr>)))) gs"
    using Cons.prems by simp
  ultimately show ?case
    using Cons.IH w by (auto simp: g api_error_def reply_def split: option.splits)
qed simp

lemma guesses_in_window:
  "list_all (\<lambda>t. t - snd w < LOGIN_FAILURE_WINDOW) ts \<Longrightarrow> count_list (guess_results w ts) 401 \<le> 9 - fst w"
proof (induction ts arbitrary: w)
  case (Cons t ts)
  have "note_failure t w = (min (2 ^ 32 - 1) (fst w + 1), snd w)" using Cons.prems by (simp add: note_failure_def)
  moreover have "throttle_window t (c, snd w) = (if c < 10 then None else Some (max 1 (300 - (t - snd w))), (c, snd w))" for c
    using Cons.prems by (simp add: throttle_window_def LOGIN_MAX_FAILURES_def LOGIN_FAILURE_WINDOW_def)
  moreover have "list_all (\<lambda>t. t - snd (c, snd w) < LOGIN_FAILURE_WINDOW) ts" for c :: nat using Cons.prems by simp
  note Cons.IH [OF this, of "min (2 ^ 32 - 1) (fst w + 1)"]
  ultimately show ?case by (auto simp: min_def split: if_splits)
qed simp

lemma guesses_in_span:
  "sorted ts \<Longrightarrow> list_all (\<lambda>t. t0 \<le> t \<and> t < t0 + LOGIN_FAILURE_WINDOW) ts \<Longrightarrow>
     count_list (guess_results w ts) 401 \<le> (9 - fst w) + 9"
proof (induction ts arbitrary: w)
  case (Cons t ts)
  show ?case
  proof (cases "t - snd w \<ge> LOGIN_FAILURE_WINDOW")
    case True
    then have n: "note_failure t w = (1, t)" by (simp add: note_failure_def)
    have "throttle_window t (1, t) = (None, (1, t))"
      by (simp add: throttle_window_def LOGIN_MAX_FAILURES_def LOGIN_FAILURE_WINDOW_def)
    moreover have "list_all (\<lambda>t'. t' - snd (1 :: nat, t) < LOGIN_FAILURE_WINDOW) ts"
      using Cons.prems by (fastforce simp: list_all_iff)
    note guesses_in_window [OF this]
    ultimately show ?thesis by (simp add: n)
  next
    case False
    then have n: "note_failure t w = (min (2 ^ 32 - 1) (fst w + 1), snd w)" by (simp add: note_failure_def)
    have "throttle_window t (c, snd w) = (if c < 10 then None else Some (max 1 (300 - (t - snd w))), (c, snd w))" for c
      using False by (simp add: throttle_window_def LOGIN_MAX_FAILURES_def LOGIN_FAILURE_WINDOW_def)
    with Cons.IH [of "(min (2 ^ 32 - 1) (fst w + 1), snd w)"] Cons.prems show ?thesis
      by (auto simp: n min_def split: if_splits)
  qed
qed simp


definition ex_guesses :: "(web \<times> login_req) list" where
  "ex_guesses = map (\<lambda>t. (ex_web t, \<lparr> lq_username = [], lq_password = ''guess'' \<rparr>)) [1000, 1001, 1150]"


section \<open>Memory and disk\<close>

text \<open>The file on disk is what the configuration in memory would be written as.\<close>

definition disk_agrees :: "sys \<Rightarrow> app_state \<Rightarrow> bool" where
  "disk_agrees sy s \<longleftrightarrow>
     (case (sy_toml sy (config_wire (ap_config s)), ap_disk s (cf_config_path (ap_config s))) of
        (Some out, Some f) \<Rightarrow> f_data f = ensure_newline out
      | _ \<Rightarrow> False)"

lemma config_save_effect:
  assumes "file_name (cf_config_path c) \<noteq> []" "config_save tw h fails c fs = (r, fs')"
  shows "case r of
      Inl _ \<Rightarrow> fs' (cf_config_path c) = fs (cf_config_path c)
    | Inr _ \<Rightarrow> (\<exists>out f. tw (config_wire c) = Some out \<and> fs' (cf_config_path c) = Some f \<and> f_data f = ensure_newline out)"
  using assms(2)
proof (cases rule: config_save_cases)
  case (late out e)
  then show ?thesis using save_ops_effect [OF assms(1) late(2)] by simp
next
  case (saved out)
  then show ?thesis using save_ops_effect [OF assms(1) saved(3)] by auto
qed simp

lemma edit_config_effect:
  assumes "edit_config sy k edit s = (r, s')" "file_name (cf_config_path (ap_config s)) \<noteq> []"
    and "\<And>c. edit (ap_config s) = Ok c \<Longrightarrow> cf_config_path c = cf_config_path (ap_config s)"
  shows "(case r of
      Inl _ \<Rightarrow> ap_config s' = ap_config s \<and>
        ap_disk s' (cf_config_path (ap_config s)) = ap_disk s (cf_config_path (ap_config s))
    | Inr _ \<Rightarrow> edit (ap_config s) = Ok (ap_config s') \<and> disk_agrees sy s') \<and>
    s' = s\<lparr>ap_config := ap_config s', ap_disk := ap_disk s'\<rparr>"
proof (cases "edit (ap_config s)")
  case (Inl e)
  then show ?thesis using assms(1) by (auto simp: edit_config_def)
next
  case (Inr staged)
  obtain q disk where c: "config_save (sy_toml sy) (sy_host sy) (sy_save sy k) staged (ap_disk s) = (q, disk)"
    by (cases "config_save (sy_toml sy) (sy_host sy) (sy_save sy k) staged (ap_disk s)")
  have p: "cf_config_path staged = cf_config_path (ap_config s)" using assms(3) Inr by simp
  with config_save_effect [OF _ c] assms(2) show ?thesis
    using assms(1) Inr c by (auto simp: edit_config_def disk_agrees_def split: sum.splits)
qed


text \<open>
  C8: after a change of the password every session but the caller's is gone, the new hash is
  in memory and on disk, the old password had been right and the new one has at least four
  characters; a change that is refused leaves sessions and configuration as they were.
\<close>

theorem password_change_ends_sessions:
  assumes "change_password sy wb rq req s = (rp, s')" "sy_free sy 0" "file_name (cf_config_path (ap_config s)) \<noteq> []"
  shows "if rp_code rp = 200
    then wb_verify wb (pw_old req) (cc_password_hash (cf_console (ap_config s))) \<and>
      MIN_PASSWORD_LEN \<le> length (trim (pw_new req)) \<and>
      wb_hash wb (pw_new req) = Some (cc_password_hash (cf_console (ap_config s'))) \<and> disk_agrees sy s' \<and>
      (\<forall>t now. sess_valid now t (ap_sessions s') \<longleftrightarrow>
         request_token (rq_cookie rq) = Some t \<and> sess_valid now t (ap_sessions s))
    else ap_config s' = ap_config s \<and> ap_sessions s' = ap_sessions s"
proof -
  define s0 where "s0 = snd (config_blocking (sy_free sy) s)"
  have s0: "ap_config s0 = ap_config s" "ap_sessions s0 = ap_sessions s" by (simp_all add: s0_def)
  have cfg: "fst (config_blocking (sy_free sy) s) = ap_config s" using assms(2) by (rule config_blocking_free)
  note cp = assms(1) [unfolded change_password_def Let_def split_beta cfg s0_def [symmetric]]
  show ?thesis
  proof (cases "wb_permit wb \<and> wb_verify wb (pw_old req) (cc_password_hash (cf_console (ap_config s))) \<and>
      MIN_PASSWORD_LEN \<le> length (trim (pw_new req)) \<and> wb_hash wb (pw_new req) \<noteq> None")
    case False
    then show ?thesis using cp s0 by (auto simp: api_error_def reply_def split: if_splits option.splits)
  next
    case True
    then obtain h where h: "wb_hash wb (pw_new req) = Some h" by auto
    obtain r s1 where e: "edit_config sy 0 (set_hash h) s0 = (r, s1)" by (cases "edit_config sy 0 (set_hash h) s0")
    have eff: "(case r of
      Inl _ \<Rightarrow> ap_config s1 = ap_config s
    | Inr _ \<Rightarrow> set_hash h (ap_config s) = Ok (ap_config s1) \<and> disk_agrees sy s1) \<and> ap_sessions s1 = ap_sessions s"
      using edit_config_effect [OF e] assms(3)
      by (cases r) (auto simp: s0 set_hash_def dest: arg_cong [where f = ap_sessions])
    show ?thesis
    proof (cases r)
      case (Inl x)
      then show ?thesis using cp True h e eff by (auto simp: api_error_def reply_def)
    next
      case (Inr x)
      then have "rp = reply 200 (JObj [(''ok'', JBool True), (''other_sessions_ended'', JBool True)])"
        "s' = s1\<lparr>ap_sessions := sess_keep (request_token (rq_cookie rq)) (ap_sessions s1)\<rparr>"
        using cp True h e by auto
      moreover have "ap_config s1 = (ap_config s)\<lparr>cf_console := (cf_console (ap_config s))\<lparr>cc_password_hash := h\<rparr>\<rparr>"
        using eff Inr by (simp add: set_hash_def)
      moreover have "disk_agrees sy (s1\<lparr>ap_sessions := m\<rparr>) = disk_agrees sy s1" for m
        by (simp add: disk_agrees_def)
      ultimately show ?thesis
        using True h eff Inr sess.valid_keep by (auto simp: reply_def)
    qed
  qed
qed

definition ex_saved_app :: app_state where
  "ex_saved_app = ex_console_app\<lparr>ap_disk :=
     [''/etc/remgr/config.toml'' \<mapsto> \<lparr> f_data = [CHR ''x'', CHR 0x0A], f_private = True, f_synced = True \<rparr>],
     ap_sessions := [''aa'' \<mapsto> 5000, ''bb'' \<mapsto> 5000]\<rparr>"

lemma ex_saved_facts:
  "cf_config_path (ap_config ex_saved_app) = ''/etc/remgr/config.toml''" "disk_agrees ex_sys ex_saved_app"
  "file_name (cf_config_path (ap_config ex_saved_app)) \<noteq> []"
  by (simp_all add: ex_saved_app_def ex_console_app_def app_new_def ex_config_def disk_agrees_def ex_sys_def
      ensure_newline_def file_name_def rsplit_once_def)


definition ex_change_rq :: request where
  "ex_change_rq = \<lparr> rq_method = POST, rq_path = ''/api/console/password'', rq_cookie = Some (cookie_key @ ''aa''),
     rq_csrf = True, rq_body = None \<rparr>"

lemma run_ops_no_failure: "fst (run_ops h (\<lambda>_. None) i ps fs)"
  by (induction ps arbitrary: i fs) simp_all

lemma config_save_no_failure: "fst (config_save (\<lambda>_. Some t) h (\<lambda>_. None) c fs) = Ok ()"
  using run_ops_no_failure [of h 0 "[CreateDirs (parent (cf_config_path c))]" fs]
    run_ops_no_failure [of h 1 "save_ops (cf_config_path c) (ensure_newline t)"]
  by (auto simp: config_save_def split: prod.splits bool.splits) (metis fst_conv)

lemma edit_config_no_failure: "edit (ap_config s) = Ok c \<Longrightarrow> fst (edit_config ex_sys k edit s) = Ok ()"
  using config_save_no_failure [of "''x''" ex_host c "ap_disk s"]
  by (auto simp: edit_config_def ex_sys_def split: prod.splits sum.splits)

theorem password_change_ends_sessions_witness:
  "(let s' = snd (change_password ex_sys (ex_web 1000) ex_change_rq \<lparr> pw_old = ''secret'', pw_new = ''better'' \<rparr> ex_saved_app)
    in sess_valid 1000 ''aa'' (ap_sessions s') \<and> \<not> sess_valid 1000 ''bb'' (ap_sessions s'))"
proof -
  define req where "req = \<lparr> pw_old = ''secret'', pw_new = ''better'' \<rparr>"
  obtain rp s' where cp: "change_password ex_sys (ex_web 1000) ex_change_rq req ex_saved_app = (rp, s')"
    by (cases "change_password ex_sys (ex_web 1000) ex_change_rq req ex_saved_app")
  have free: "sy_free ex_sys 0" by (simp add: ex_sys_def)
  have cfg: "fst (config_blocking (sy_free ex_sys) ex_saved_app) = ap_config ex_saved_app"
    by (rule config_blocking_free) (rule free)
  have "cf_console (ap_config ex_saved_app) = cf_console (ap_config ex_console_app)" by (simp add: ex_saved_app_def)
  then have hash: "cc_password_hash (cf_console (ap_config ex_saved_app)) = ''#secret''"
    unfolding ex_console_cfg by simp
  have "fst (edit_config ex_sys 0 (set_hash ''#better'') s) = Ok ()" for s
    by (rule edit_config_no_failure) (simp add: set_hash_def)
  moreover have "trim ''better'' = ''better''"
    by (rule trim_id) (auto simp: is_ws_def)
  ultimately have "rp_code rp = 200"
    using cp by (auto simp: change_password_def cfg hash split_beta Let_def req_def ex_web_def MIN_PASSWORD_LEN_def
        reply_def split: sum.splits)
  moreover have "request_token (rq_cookie ex_change_rq) = Some ''aa''"
    unfolding ex_change_rq_def request.simps by (rule token_of_own_cookie) (auto simp: is_ws_def)
  ultimately show ?thesis
    using password_change_ends_sessions [OF cp free ex_saved_facts(3)] cp
    by (simp add: req_def [symmetric]) (simp add: ex_saved_app_def sess_valid_def)
qed

end
