(* ===== verification/Turn_Tls.thy ===== *)
theory Turn_Tls
  imports Stun
begin

text \<open>
  TURN over TLS and the tasks of the STUN/TURN module (\<open>remgr/src/modules/stun_turn.rs\<close>): the
  connection adapter that cuts messages out of whatever pieces TLS delivers, the task of every
  accepted connection with the map of their servers, the counters the console shows, and the
  search for the local address. The TURN server itself is a library; creating and closing one
  are steps here.
\<close>

section \<open>The connection adapter\<close>

text \<open>What reads on the TLS stream give: bytes, the end (no bytes), or an error.\<close>

datatype tls_read = Chunk bytes | ReadFail

datatype filled = Filled bytes "tls_read list" | FillEof | FillFail

text \<open>Reading exactly \<open>n\<close> bytes; a read takes at most what the buffer still has room for.\<close>

function fill :: "nat \<Rightarrow> tls_read list \<Rightarrow> filled" where
  "fill 0 evs = Filled [] evs"
| "fill (Suc n) [] = FillEof"
| "fill (Suc n) (ReadFail # evs) = FillFail"
| "fill (Suc n) (Chunk bs # evs) =
     (if bs = [] then FillEof
      else if length bs \<le> Suc n
      then (case fill (Suc n - length bs) evs of Filled out rest \<Rightarrow> Filled (bs @ out) rest | r \<Rightarrow> r)
      else Filled (take (Suc n) bs) (Chunk (drop (Suc n) bs) # evs))"
  by pat_completeness auto
termination
  by (relation "measure (\<lambda>(n, evs). length evs)") auto

datatype turn_recv = Received bytes "tls_read list" | RecvFailed turn_error

text \<open>\<open>recv_from\<close>: the message or the error, and whether the connection's task is notified that
  the connection is over.\<close>

definition conn_recv :: "nat \<Rightarrow> tls_read list \<Rightarrow> turn_recv \<times> bool" where
  "conn_recv buf_len evs =
     (case fill 4 evs of
        Filled head evs1 \<Rightarrow>
          (case frame_len head of
             None \<Rightarrow> (RecvFailed ReservedFrame, True)
           | Some (tot, is_channel) \<Rightarrow>
               if tot > buf_len then (RecvFailed ErrBufferShort, True)
               else (case fill (tot - 4) evs1 of
                   FillFail \<Rightarrow> (RecvFailed TurnEof, False)
                 | FillEof \<Rightarrow> (RecvFailed ClosedConn, True)
                 | Filled body evs2 \<Rightarrow>
                     (let n = (if is_channel then 4 + u16_at head 2 else tot)
                      in (Received (take n (head @ body)) evs2, False))))
      | _ \<Rightarrow> (RecvFailed TurnEof, True))"

fun conn_recvs :: "nat \<Rightarrow> nat \<Rightarrow> tls_read list \<Rightarrow> bytes list \<times> tls_read list" where
  "conn_recvs buf_len 0 evs = ([], evs)"
| "conn_recvs buf_len (Suc k) evs =
     (case conn_recv buf_len evs of
        (Received m evs', _) \<Rightarrow> (let (ms, rest) = conn_recvs buf_len k evs' in (m # ms, rest))
      | (RecvFailed _, _) \<Rightarrow> ([], evs))"

section \<open>Accepted connections\<close>

text \<open>One task per accepted connection: the handshake, a server of its own, its entry in the map,
  and after the notification or the module's stop the way back. \<open>Serving\<close> holds whether the
  notification has been given.\<close>

datatype tls_task = Handshaking | Starting | Created | Serving bool | Closing

record tls_conns =
  tc_cancelled :: bool
  tc_accepting :: bool
  tc_next :: nat
  tc_tasks :: "nat \<rightharpoonup> tls_task"
  tc_map :: "nat set"
  tc_open :: "nat set"

definition tls_conns_new :: tls_conns where
  "tls_conns_new = \<lparr> tc_cancelled = False, tc_accepting = True, tc_next = 0, tc_tasks = Map.empty,
     tc_map = {}, tc_open = {} \<rparr>"

text \<open>A failed accept changes nothing; a connection gets the next number.\<close>

definition tls_accept :: "bool \<Rightarrow> tls_conns \<Rightarrow> tls_conns" where
  "tls_accept ok c =
     (if tc_accepting c \<and> ok
      then c\<lparr>tc_next := Suc (tc_next c), tc_tasks := (tc_tasks c)(tc_next c \<mapsto> Handshaking)\<rparr> else c)"

definition tls_handshake :: "nat \<Rightarrow> bool \<Rightarrow> tls_conns \<Rightarrow> tls_conns" where
  "tls_handshake i ok c =
     (if tc_tasks c i = Some Handshaking
      then c\<lparr>tc_tasks := (tc_tasks c)(i := if ok then Some Starting else None)\<rparr> else c)"

definition tls_server_new :: "nat \<Rightarrow> bool \<Rightarrow> tls_conns \<Rightarrow> tls_conns" where
  "tls_server_new i ok c =
     (if tc_tasks c i = Some Starting
      then (if ok then c\<lparr>tc_tasks := (tc_tasks c)(i \<mapsto> Created), tc_open := insert i (tc_open c)\<rparr>
            else c\<lparr>tc_tasks := (tc_tasks c)(i := None)\<rparr>)
      else c)"

definition tls_insert :: "nat \<Rightarrow> tls_conns \<Rightarrow> tls_conns" where
  "tls_insert i c =
     (if tc_tasks c i = Some Created
      then c\<lparr>tc_tasks := (tc_tasks c)(i \<mapsto> Serving False), tc_map := insert i (tc_map c)\<rparr> else c)"

definition tls_notify :: "nat \<Rightarrow> tls_conns \<Rightarrow> tls_conns" where
  "tls_notify i c =
     (case tc_tasks c i of Some (Serving b) \<Rightarrow> c\<lparr>tc_tasks := (tc_tasks c)(i \<mapsto> Serving True)\<rparr> | _ \<Rightarrow> c)"

definition tls_close :: "nat \<Rightarrow> tls_conns \<Rightarrow> tls_conns" where
  "tls_close i c =
     (case tc_tasks c i of
        Some (Serving closed) \<Rightarrow>
          if closed \<or> tc_cancelled c
          then c\<lparr>tc_tasks := (tc_tasks c)(i \<mapsto> Closing), tc_open := tc_open c - {i}\<rparr> else c
      | _ \<Rightarrow> c)"

definition tls_remove :: "nat \<Rightarrow> tls_conns \<Rightarrow> tls_conns" where
  "tls_remove i c =
     (if tc_tasks c i = Some Closing
      then c\<lparr>tc_tasks := (tc_tasks c)(i := None), tc_map := tc_map c - {i}\<rparr> else c)"

definition tls_cancel :: "tls_conns \<Rightarrow> tls_conns" where
  "tls_cancel c = c\<lparr>tc_cancelled := True\<rparr>"

text \<open>The accept loop sees the stop: it closes every server in the map and empties it.\<close>

definition tls_drain :: "tls_conns \<Rightarrow> tls_conns" where
  "tls_drain c =
     (if tc_accepting c \<and> tc_cancelled c
      then c\<lparr>tc_accepting := False, tc_open := tc_open c - tc_map c, tc_map := {}\<rparr> else c)"

inductive tls_reach :: "tls_conns \<Rightarrow> bool" where
  tls_init: "tls_reach tls_conns_new"
| tls_accepts: "tls_reach c \<Longrightarrow> tls_reach (tls_accept ok c)"
| tls_handshakes: "tls_reach c \<Longrightarrow> tls_reach (tls_handshake i ok c)"
| tls_server_news: "tls_reach c \<Longrightarrow> tls_reach (tls_server_new i ok c)"
| tls_inserts: "tls_reach c \<Longrightarrow> tls_reach (tls_insert i c)"
| tls_notifies: "tls_reach c \<Longrightarrow> tls_reach (tls_notify i c)"
| tls_closes: "tls_reach c \<Longrightarrow> tls_reach (tls_close i c)"
| tls_removes: "tls_reach c \<Longrightarrow> tls_reach (tls_remove i c)"
| tls_cancels: "tls_reach c \<Longrightarrow> tls_reach (tls_cancel c)"
| tls_drains: "tls_reach c \<Longrightarrow> tls_reach (tls_drain c)"

section \<open>Counters and status\<close>

text \<open>\<open>turn_runtime\<close>: the relayed bytes of each allocation of each server; \<open>None\<close> is a server that
  could not be asked.\<close>

record turn_runtime_info =
  ti_allocations :: u64
  ti_bytes_relayed :: u64

definition turn_runtime :: "u64 list option list \<Rightarrow> turn_runtime_info" where
  "turn_runtime servers =
     foldl (\<lambda>info srv. case srv of
          None \<Rightarrow> info
        | Some relayed \<Rightarrow> \<lparr> ti_allocations = ti_allocations info + of_nat (length relayed),
            ti_bytes_relayed = foldl (+) (ti_bytes_relayed info) relayed \<rparr>)
       \<lparr> ti_allocations = 0, ti_bytes_relayed = 0 \<rparr> servers"

definition stun_status :: "u64 list option list \<Rightarrow> stun_turn_config \<Rightarrow> stun_module \<Rightarrow> json" where
  "stun_status servers cfg m =
     (let info = (case sm_run m of
             Some h \<Rightarrow> (case rh_turn h of Some _ \<Rightarrow> turn_runtime servers | None \<Rightarrow> turn_runtime [])
           | None \<Rightarrow> turn_runtime []);
          turn = Option.bind (sm_run m) rh_turn
      in JObj
        [(''enabled'', JBool (sc_enabled cfg)), (''running'', JBool (stun_running m)),
         (''bind_addr'', JStr (sc_bind_addr cfg)), (''stun_port'', JInt (int (sc_stun_port cfg))),
         (''turn_enabled'', JBool (sc_turn_enabled cfg)), (''turn_available'', JBool (turn \<noteq> None)),
         (''turn_runtime'', JObj [(''allocations'', JInt (uint (ti_allocations info))),
            (''bytes_relayed'', JInt (uint (ti_bytes_relayed info)))]),
         (''tls_port'', JInt (int (sc_tls_port cfg))),
         (''tls_active'', JBool (case turn of Some t \<Rightarrow> th_tls_listening t | None \<Rightarrow> False)),
         (''domain'', JStr (sc_domain cfg)), (''external_ip'', JStr (sc_external_ip cfg)),
         (''relay_ports'', JStr (dec_string (sc_relay_min_port cfg) @ ''-'' @ dec_string (sc_relay_max_port cfg))),
         (''users_count'', JInt (int (length (cred_entries cfg)))), (''realm'', JStr (sc_realm cfg)),
         (''cert_path'', JStr (sc_cert_path cfg)), (''key_path'', JStr (sc_key_path cfg))])"

text \<open>The loop of the plain STUN responder: a packet that is refused and a receive that fails are
  logged, only the stop ends it. The result is the packets that were looked at.\<close>

datatype stun_event = StunPacket bytes sock_addr | StunRecvError | StunStop

fun stun_loop :: "stun_event list \<Rightarrow> (bytes \<times> sock_addr) list" where
  "stun_loop [] = []"
| "stun_loop (StunStop # evs) = []"
| "stun_loop (StunRecvError # evs) = stun_loop evs"
| "stun_loop (StunPacket p src # evs) = (p, src) # stun_loop evs"

text \<open>\<open>local_ip\<close>: for each of three targets, whether a socket could be bound and connected, and
  the local address it then has.\<close>

fun local_ip :: "(bool \<times> bool \<times> ip_addr option) list \<Rightarrow> ip_addr option" where
  "local_ip [] = None"
| "local_ip ((bound, connected, addr) # targets) =
     (case (if bound \<and> connected then addr else None) of
        Some ip \<Rightarrow> if \<not> is_unspecified ip \<and> \<not> is_loopback ip then Some ip else local_ip targets
      | None \<Rightarrow> local_ip targets)"

text \<open>\<open>build_tls_acceptor\<close>: the two files, opened and read as PEM by the library.\<close>

definition turn_tls_acceptor ::
  "(string \<Rightarrow> string option) \<Rightarrow> (string \<Rightarrow> 'cert list option) \<Rightarrow> (string \<Rightarrow> string + 'key option) \<Rightarrow>
   ('cert list \<Rightarrow> 'key \<Rightarrow> string + 'tls) \<Rightarrow> string \<Rightarrow> string \<Rightarrow> string + 'tls" where
  "turn_tls_acceptor read_file pem_certs pem_key with_single_cert cert_path key_path =
     (case Option.bind (read_file cert_path) pem_certs of
        None \<Rightarrow> Err cert_path
      | Some certs \<Rightarrow>
          if certs = [] then Err (''no certificate found in '' @ cert_path)
          else (case read_file key_path of
              None \<Rightarrow> Err key_path
            | Some pem \<Rightarrow>
                bind_result (pem_key pem) (\<lambda>k.
                  case k of None \<Rightarrow> Err (''no private key found in '' @ key_path)
                  | Some key \<Rightarrow> with_single_cert certs key)))"

section \<open>The adapter does not depend on the pieces\<close>

definition pieces :: "bytes \<Rightarrow> tls_read list \<Rightarrow> bool" where
  "pieces s evs \<longleftrightarrow> (\<exists>cs. evs = map Chunk cs \<and> [] \<notin> set cs \<and> concat cs = s)"

lemma fill_short: "pieces s evs \<Longrightarrow> length s < n \<Longrightarrow> fill n evs = FillEof"
proof (induction n evs arbitrary: s rule: fill.induct)
  case (4 n bs evs)
  from "4.prems"(1) obtain cs where cs: "evs = map Chunk cs" "bs \<noteq> []" "[] \<notin> set cs" "s = bs @ concat cs"
    by (auto simp: pieces_def)
  then have "pieces (concat cs) evs" by (auto simp: pieces_def)
  then show ?case using "4.IH" [of "concat cs"] "4.prems"(2) cs by simp
qed (auto simp: pieces_def)

lemma fill_pieces:
  "pieces s evs \<Longrightarrow> n \<le> length s \<Longrightarrow> \<exists>rest. fill n evs = Filled (take n s) rest \<and> pieces (drop n s) rest"
proof (induction n evs arbitrary: s rule: fill.induct)
  case (4 n bs evs)
  from "4.prems"(1) obtain cs where cs: "evs = map Chunk cs" "bs \<noteq> []" "[] \<notin> set cs" "s = bs @ concat cs"
    by (auto simp: pieces_def)
  then have p: "pieces (concat cs) evs" by (auto simp: pieces_def)
  show ?case
  proof (cases "length bs \<le> Suc n")
    case True
    have "Suc n - length bs \<le> length (concat cs)" using "4.prems"(2) cs(4) by simp
    with True obtain rest where "fill (Suc n - length bs) evs = Filled (take (Suc n - length bs) (concat cs)) rest"
      "pieces (drop (Suc n - length bs) (concat cs)) rest"
      using "4.IH" [OF cs(2) True p] by auto
    then show ?thesis using cs(2,4) True by (auto simp: Suc_diff_le)
  next
    case False
    then have "pieces (drop (Suc n) s) (Chunk (drop (Suc n) bs) # evs)"
      using cs unfolding pieces_def by (intro exI [of _ "drop (Suc n) bs # cs"]) auto
    then show ?thesis using False cs(2,4) by simp
  qed
qed (auto simp: pieces_def)

lemma conn_recv_equals:
  assumes "pieces s evs"
  shows "case recv_from buf_len s of
      Inr (m, s') \<Rightarrow> \<exists>evs'. conn_recv buf_len evs = (Received m evs', False) \<and> pieces s' evs'
    | Inl e \<Rightarrow> conn_recv buf_len evs = (RecvFailed e, True)"
proof (cases "length s < 4")
  case True
  then show ?thesis using fill_short [OF assms True] by (simp add: recv_from_def conn_recv_def)
next
  case False
  then obtain evs1 where h: "fill 4 evs = Filled (take 4 s) evs1" "pieces (drop 4 s) evs1"
    using fill_pieces [OF assms, of 4] by auto
  show ?thesis
  proof (cases "frame_len (take 4 s)")
    case None
    then show ?thesis using False h by (simp add: recv_from_def conn_recv_def Let_def)
  next
    case (Some r)
    obtain tot ch where r: "r = (tot, ch)" by force
    have four: "4 \<le> tot" using Some r by (auto simp: frame_len_def Let_def split: if_splits)
    consider "tot > buf_len" | "tot \<le> buf_len" "length s < tot" | "tot \<le> buf_len" "tot \<le> length s" by linarith
    then show ?thesis
    proof cases
      case 1
      then show ?thesis using False h Some r by (simp add: recv_from_def conn_recv_def Let_def)
    next
      case 2
      then have "length (drop 4 s) < tot - 4" using four False by simp
      then have "fill (tot - 4) evs1 = FillEof" by (rule fill_short [OF h(2)])
      then show ?thesis using 2 False h Some r by (simp add: recv_from_def conn_recv_def Let_def)
    next
      case 3
      then have "tot - 4 \<le> length (drop 4 s)" using four by simp
      then obtain evs2 where b: "fill (tot - 4) evs1 = Filled (take (tot - 4) (drop 4 s)) evs2"
        "pieces (drop (tot - 4) (drop 4 s)) evs2"
        using fill_pieces [OF h(2)] by blast
      have glue: "take 4 s @ take (tot - 4) (drop 4 s) = take tot s"
        using take_add [of 4 "tot - 4" s] four by simp
      have "drop (tot - 4) (drop 4 s) = drop tot s" using four by simp
      then show ?thesis
        using 3 False h Some r b by (simp add: recv_from_def conn_recv_def Let_def glue)
    qed
  qed
qed

text \<open>
  C27: TURN messages sent over TLS are received one by one and unchanged whatever pieces the
  stream arrives in, STUN messages and ChannelData mixed: neither the padding between
  ChannelData messages nor the boundaries of the pieces reach a message, and what follows is
  left for the next receive.
\<close>

theorem turn_tls_any_pieces:
  assumes "list_all (turn_ok buf_len) ms" "pieces (concat (map send_to ms) @ rest) evs"
  shows "fst (conn_recvs buf_len (length ms) evs) = ms \<and> pieces rest (snd (conn_recvs buf_len (length ms) evs))"
  using assms
proof (induction ms arbitrary: evs)
  case (Cons m ms)
  have "recv_from buf_len (send_to m @ concat (map send_to ms) @ rest) = Ok (m, concat (map send_to ms) @ rest)"
    using Cons.prems(1) by (intro recv_send) simp
  then obtain evs' where e: "conn_recv buf_len evs = (Received m evs', False)"
    "pieces (concat (map send_to ms) @ rest) evs'"
    using conn_recv_equals [OF Cons.prems(2), of buf_len] by auto
  show ?case using Cons.IH [OF _ e(2)] Cons.prems(1) e(1) by (simp add: split_beta)
qed simp

theorem turn_tls_any_pieces_witness:
  "fst (conn_recvs 1500 2 [Chunk [0x40, 1, 0], Chunk [1, 99, 0, 0, 0, 0x40], Chunk [2, 0, 0, 7]])
     = [[0x40, 1, 0, 1, 99], [0x40, 2, 0, 0]]"
proof -
  have "pieces (concat (map send_to [[0x40, 1, 0, 1, 99], [0x40, 2, 0, 0]]) @ [7])
      [Chunk [0x40, 1, 0], Chunk [1, 99, 0, 0, 0, 0x40], Chunk [2, 0, 0, 7]]"
  proof -
    have "send_to [0x40, 1, 0, 1, 99] = [0x40, 1, 0, 1, 99, 0, 0, 0]" "send_to [0x40, 2, 0, 0] = [0x40, 2, 0, 0]"
      by code_simp+
    then show ?thesis
      unfolding pieces_def by (intro exI [of _ "[[0x40, 1, 0], [1, 99, 0, 0, 0, 0x40], [2, 0, 0, 7]]"]) simp
  qed
  moreover have "list_all (turn_ok 1500) [[0x40, 1, 0, 1, 99], [0x40, 2, 0, 0]]"
    by (simp add: turn_ok_def u16_at_def be_decode_def pad4_def numeral_2_eq_2)
  ultimately show ?thesis
    using turn_tls_any_pieces [of 1500 "[[0x40, 1, 0, 1, 99], [0x40, 2, 0, 0]]" "[7]"] by (simp add: numeral_2_eq_2)
qed

text \<open>A read that fails in the middle of a message is the one error that does not tell the
  connection's task: only the stop of the module ends it then.\<close>

lemma torn_read_not_notified:
  "conn_recv 1500 [Chunk [0, 1, 0, 0], ReadFail] = (RecvFailed TurnEof, False)"
  by (simp add: conn_recv_def frame_len_def u16_at_def be_decode_def numeral_eq_Suc)

section \<open>No server is left behind\<close>

definition tls_inv :: "tls_conns \<Rightarrow> bool" where
  "tls_inv c \<longleftrightarrow>
     (\<forall>i. tc_next c \<le> i \<longrightarrow> tc_tasks c i = None) \<and>
     (\<forall>i \<in> tc_map c. tc_tasks c i \<in> {Some (Serving False), Some (Serving True), Some Closing}) \<and>
     (\<forall>i \<in> tc_open c. tc_tasks c i \<in> {Some Created, Some (Serving False), Some (Serving True)})"

lemma serving_cases: "tc_tasks c i = Some (Serving b) \<Longrightarrow> tc_tasks c i \<in> {Some (Serving False), Some (Serving True)}"
  by (cases b) auto

lemma tls_reach_inv: "tls_reach c \<Longrightarrow> tls_inv c"
proof (induction rule: tls_reach.induct)
  case tls_init
  then show ?case by (simp add: tls_inv_def tls_conns_new_def)
next
  case (tls_accepts c ok)
  then have "tc_tasks c (tc_next c) = None" by (simp add: tls_inv_def)
  then show ?case using tls_accepts.IH by (auto simp: tls_inv_def tls_accept_def)
next
  case (tls_handshakes c i ok)
  then show ?case by (auto simp: tls_inv_def tls_handshake_def)
next
  case (tls_server_news c i ok)
  then show ?case by (auto simp: tls_inv_def tls_server_new_def)
next
  case (tls_inserts c i)
  then show ?case by (auto simp: tls_inv_def tls_insert_def)
next
  case (tls_notifies c i)
  then show ?case by (cases "tc_tasks c i") (auto simp: tls_inv_def tls_notify_def split: tls_task.splits)
next
  case (tls_closes c i)
  then show ?case by (cases "tc_tasks c i") (auto simp: tls_inv_def tls_close_def split: tls_task.splits)
next
  case (tls_removes c i)
  then show ?case by (auto simp: tls_inv_def tls_remove_def)
next
  case (tls_cancels c)
  then show ?case by (simp add: tls_inv_def tls_cancel_def)
next
  case (tls_drains c)
  then show ?case by (auto simp: tls_inv_def tls_drain_def)
qed

text \<open>
  C28: TURN over TLS leaves no server behind, in every interleaving of its connections with the
  accept loop and the stop: a server that is open, and every entry of the map the console
  counts, belongs to a connection whose task is still there to close and remove it; once the
  module is stopped or the connection is over such a task gets rid of both in two steps.
\<close>

theorem turn_tls_no_leak:
  assumes "tls_reach c"
  shows "(\<forall>i. i \<in> tc_map c \<union> tc_open c \<longrightarrow> i < tc_next c \<and> tc_tasks c i \<noteq> None) \<and>
    ((\<forall>i. tc_tasks c i = None) \<longrightarrow> tc_map c = {} \<and> tc_open c = {}) \<and>
    (\<forall>i b. tc_tasks c i = Some (Serving b) \<longrightarrow> b \<or> tc_cancelled c \<longrightarrow>
       (let c' = tls_remove i (tls_close i c) in
        tls_reach c' \<and> tc_tasks c' i = None \<and> i \<notin> tc_map c' \<and> i \<notin> tc_open c'))"
proof -
  have inv: "tls_inv c" by (rule tls_reach_inv [OF assms])
  have owned: "i < tc_next c \<and> tc_tasks c i \<noteq> None" if "i \<in> tc_map c \<union> tc_open c" for i
  proof -
    have "tc_tasks c i \<noteq> None" using inv that by (auto simp: tls_inv_def)
    then show ?thesis using inv by (auto simp: tls_inv_def not_less [symmetric])
  qed
  have reach: "tls_reach (tls_remove i (tls_close i c))" for i using assms by (intro tls_removes tls_closes)
  have gone: "tc_tasks (tls_remove i (tls_close i c)) i = None \<and> i \<notin> tc_map (tls_remove i (tls_close i c)) \<and>
      i \<notin> tc_open (tls_remove i (tls_close i c))"
    if "tc_tasks c i = Some (Serving b)" "b \<or> tc_cancelled c" for i b
    using that by (auto simp: tls_remove_def tls_close_def)
  show ?thesis unfolding Let_def using owned reach gone by blast
qed

theorem turn_tls_no_leak_witness:
  "let c = tls_cancel (tls_insert 0 (tls_server_new 0 True (tls_handshake 0 True (tls_accept True tls_conns_new))));
       c' = tls_remove 0 (tls_close 0 c)
   in 0 \<in> tc_map c \<and> 0 \<in> tc_open c \<and> 0 \<notin> tc_map c' \<and> 0 \<notin> tc_open c'"
proof -
  define c where "c = tls_cancel (tls_insert 0 (tls_server_new 0 True (tls_handshake 0 True (tls_accept True tls_conns_new))))"
  have r: "tls_reach c" unfolding c_def by (intro tls_reach.intros)
  have "tc_tasks c 0 = Some (Serving False)" "tc_cancelled c" "0 \<in> tc_map c" "0 \<in> tc_open c"
    by (simp_all add: c_def tls_cancel_def tls_insert_def tls_server_new_def tls_handshake_def tls_accept_def tls_conns_new_def)
  then show ?thesis using turn_tls_no_leak [OF r] unfolding c_def [symmetric] Let_def by blast
qed

end
