(* ===== verification/Console_Status.thy ===== *)
theory Console_Status
  imports Console_Session Turn_Tls
begin

text \<open>
  The status the console shows (\<open>remgr/src/console/mod.rs\<close>, \<open>status\<close>): the answers of the five
  modules put together, and that none of them carries a secret of the configuration.
\<close>

section \<open>The answers of the modules\<close>

text \<open>What the status depends on besides the state: whether files exist, the clock, the counters
  of the TURN servers, the operator's hints in the console's language, version, system and
  uptime.\<close>

record status_env =
  st_exists :: "string \<Rightarrow> bool"
  st_now :: nat
  st_turn :: "u64 list option list"
  st_note :: "string \<Rightarrow> string"
  st_version :: string
  st_os :: string
  st_uptime :: nat

definition ex_status_env :: status_env where
  "ex_status_env = \<lparr> st_exists = (\<lambda>_. False), st_now = 0, st_turn = [], st_note = (\<lambda>n. n), st_version = ''0'',
     st_os = ''openbsd'', st_uptime = 5 \<rparr>"

definition easytier_json :: "(string \<Rightarrow> string) \<Rightarrow> easytier_config \<Rightarrow> easytier_module \<Rightarrow> json" where
  "easytier_json note c m = JObj
     [(''enabled'', JBool (ec_enabled c)), (''running'', JBool (easytier_running m)),
      (''config_server_port'', JInt (int (ec_config_server_port c))), (''api_addr'', JStr (ec_api_addr c)),
      (''api_port'', JInt (int (ec_api_port c))), (''node_enabled'', JBool (ec_node_enabled c)),
      (''node_running'', JBool (case em_run m of Some hdl \<Rightarrow> eh_node_instance hdl | None \<Rightarrow> False)),
      (''node_state'', JStr (node_state c m)), (''node_note'', JStr (note (node_state c m))),
      (''node_name'', JStr (ec_node_name c)), (''network_name'', JStr (ec_network_name c)),
      (''virtual_ipv4'', JStr (ec_virtual_ipv4 c)), (''listeners'', json_of_strs (ec_listeners c)),
      (''db_path'', JStr (ec_db_path c))]"

definition rustdesk_json :: "rustdesk_report \<Rightarrow> json" where
  "rustdesk_json r = JObj
     [(''enabled'', JBool (rs_enabled r)), (''running'', JBool (rs_running r)),
      (''relay_port'', JInt (int (rs_relay_port r))), (''hbbs_port'', JInt (int (rs_hbbs_port r))),
      (''nat_test_port'', JInt (int (rs_nat_test_port r))), (''websocket_port'', JInt (int (rs_websocket_port r))),
      (''relay_websocket_port'', JInt (int (rs_relay_websocket_port r))), (''public_key'', JStr (rs_public_key r)),
      (''key_set'', JBool (rs_key_set r))]"

definition ser_proxy_info :: "proxy_info \<Rightarrow> json" where
  "ser_proxy_info p = JObj
     [(''proxy_name'', JStr (px_proxy_name p)), (''proxy_type'', JStr (px_proxy_type p)),
      (''remote_port'', JInt (int (px_remote_port p))), (''user'', JStr (px_user p)),
      (''conns_total'', JInt (int (px_conns_total p)))]"

definition frps_json :: "frps_module_status \<Rightarrow> json" where
  "frps_json f = (let st = fp_stats f in JObj
     [(''enabled'', JBool (fp_enabled f)), (''running'', JBool (st_running st)), (''bind'', JStr (st_bind st)),
      (''tcp_mux'', JBool (fp_tcp_mux f)), (''token_set'', JBool (fp_token_set f)), (''tls'', JBool (fp_tls f)),
      (''clients_online'', JInt (uint (st_clients_online st))), (''total_logins'', JInt (uint (st_total_logins st))),
      (''total_user_conns'', JInt (uint (st_total_user_conns st))), (''bytes_in'', JInt (uint (st_bytes_in st))),
      (''bytes_out'', JInt (uint (st_bytes_out st))), (''proxies'', JArr (map ser_proxy_info (st_proxies st)))])"

definition ser_proxy_status :: "proxy_status \<Rightarrow> json" where
  "ser_proxy_status p = JObj
     [(''name'', JStr (ps_name p)), (''type'', JStr (ps_type p)), (''state'', JStr (ps_state p)),
      (''local_addr'', JStr (ps_local_addr p)), (''remote_port'', JInt (int (ps_remote_port p))),
      (''remote_addr'', JStr (ps_remote_addr p)), (''error'', JStr (ps_error p)),
      (''conns_total'', JInt (uint (ps_conns_total p))), (''bytes_in'', JInt (uint (ps_bytes_in p))),
      (''bytes_out'', JInt (uint (ps_bytes_out p)))]"

definition frpc_json :: "bool \<times> bool \<times> nat \<times> frpc_status \<Rightarrow> json" where
  "frpc_json f = (let (on, token_set, pool, st) = f in JObj
     [(''enabled'', JBool on), (''running'', JBool (fs_running st)), (''connected'', JBool (fs_connected st)),
      (''upstream'', JStr (fs_upstream st)), (''run_id'', JStr (fs_run_id st)), (''tcp_mux'', JBool (fs_tcp_mux st)),
      (''tls'', JBool (fs_tls st)), (''token_set'', JBool token_set), (''pool_count'', JInt (int pool)),
      (''session_uptime_s'', JInt (int (fs_session_uptime_secs st))), (''total_logins'', JInt (uint (fs_total_logins st))),
      (''total_work_conns'', JInt (uint (fs_total_work_conns st))), (''bytes_in'', JInt (uint (fs_bytes_in st))),
      (''bytes_out'', JInt (uint (fs_bytes_out st))), (''last_error'', JStr (fs_last_error st)),
      (''proxies'', JArr (map ser_proxy_status (fs_proxies st)))])"

text \<open>The console's part of the status.\<close>

definition console_status :: "app_state \<Rightarrow> json" where
  "console_status s =
     (let c = cf_console (ap_config s)
      in JObj [(''port'', JInt (int (cc_port c))), (''tls'', JBool (cc_tls c)),
               (''tls_active'', JBool (ap_serving_tls s)),
               (''password_set'', JBool (cc_password_hash c \<noteq> []))])"

text \<open>Each module reads the configuration when it is asked; the console's own part comes from the
  configuration read before.\<close>

definition status :: "sys \<Rightarrow> status_env \<Rightarrow> app_state \<Rightarrow> response \<times> app_state" where
  "status sy se s =
     (let ms = ap_modules s;
          (c1, s1) = config_blocking (sy_free sy) s;
          (c2, s2) = config_blocking (sy_free sy) s1;
          (c3, s3) = config_blocking (sy_free sy) s2;
          (f, s4) = frps_status sy (st_exists se) s3;
          (p, s5) = frpc_module_status sy (st_now se) s4
      in (reply 200 (JObj
            [(''version'', JStr (st_version se)), (''os'', JStr (st_os se)), (''uptime_s'', JInt (int (st_uptime se))),
             (''console'', console_status s),
             (''services'', JObj
                [(''easytier'', easytier_json (st_note se) (cf_easytier c1) (am_easytier ms)),
                 (''stun_turn'', stun_status (st_turn se) (cf_stun_turn c2) (am_stun_turn ms)),
                 (''rustdesk'', rustdesk_json (rustdesk_status (sy_host sy) (cf_rustdesk c3) (am_rustdesk ms))),
                 (''frps'', frps_json f), (''frpc'', frpc_json p)])]), s5))"

section \<open>Properties\<close>

lemma config_blocking_twice:
  "config_blocking free (snd (config_blocking free s)) = (fst (config_blocking free s), snd (config_blocking free s))"
  by (simp add: config_blocking_def)

lemma status_state: "snd (status sy se s) = snd (config_blocking (sy_free sy) s)"
  by (simp add: status_def frps_status_def frpc_module_status_def Let_def split_beta config_blocking_twice)

text \<open>The configuration without its secrets: the password hash, the network secret, the passwords of
  the TURN users, the tokens and the RustDesk key. What is left of them is whether they are set,
  and whether the RustDesk key is the one on disk.\<close>

definition mask :: "string \<Rightarrow> string" where
  "mask t = (if t = [] then [] else ''set'')"

definition mask_user :: "string \<Rightarrow> string" where
  "mask_user u = (case split_once CHR '':'' u of Some (user, _) \<Rightarrow> user @ '':'' | None \<Rightarrow> [])"

definition public_view :: "host \<Rightarrow> key_world \<Rightarrow> config \<Rightarrow> config \<times> bool \<times> bool" where
  "public_view h kw c =
     (let key = trim (rc_key (cf_rustdesk c)); (pub, sk) = disk_keys h kw in
      (c\<lparr>cf_console := (cf_console c)\<lparr>cc_password_hash := mask (cc_password_hash (cf_console c))\<rparr>,
         cf_easytier := (cf_easytier c)\<lparr>ec_network_secret := []\<rparr>,
         cf_stun_turn := (cf_stun_turn c)\<lparr>sc_users := map mask_user (sc_users (cf_stun_turn c))\<rparr>,
         cf_rustdesk := (cf_rustdesk c)\<lparr>rc_key := []\<rparr>,
         cf_frps := (cf_frps c)\<lparr>token := mask (token (cf_frps c))\<rparr>,
         cf_frpc := (cf_frpc c)\<lparr>fc_token := mask (fc_token (cf_frpc c))\<rparr>\<rparr>,
       key = [], key = pub \<or> key = sk))"

lemma mask_eq: "mask t = mask t' \<Longrightarrow> (t = []) = (t' = [])"
  by (auto simp: mask_def split: if_splits)

lemma split_once_no: "split_once d u = Some (a, b) \<Longrightarrow> d \<notin> set a"
  by (induction d u arbitrary: a rule: split_once.induct) (auto split: if_splits)

lemma split_mask_user: "map_option fst (split_once CHR '':'' (mask_user u)) = map_option fst (split_once CHR '':'' u)"
proof (cases "split_once CHR '':'' u")
  case (Some r)
  obtain user pass where r: "r = (user, pass)" by force
  have "split_once CHR '':'' (user @ CHR '':'' # []) = Some (user, [])"
    by (rule split_once_append) (use split_once_no Some r in blast)
  then show ?thesis using Some r by (simp add: mask_user_def)
qed (simp add: mask_user_def)

lemma cred_count_mask:
  assumes "map mask_user us = map mask_user us'"
  shows "length (filter (\<lambda>(user, _). user \<noteq> []) (List.map_filter (split_once CHR '':'') us)) =
     length (filter (\<lambda>(user, _). user \<noteq> []) (List.map_filter (split_once CHR '':'') us'))"
proof -
  define names where "names us = filter (\<lambda>x. x \<noteq> []) (List.map_filter (\<lambda>u. map_option fst (split_once CHR '':'' u)) us)" for us
  have "length (filter (\<lambda>(user, _). user \<noteq> []) (List.map_filter (split_once CHR '':'') us)) = length (names us)" for us
    by (induction us) (auto simp: names_def List.map_filter_simps split: option.splits)
  moreover have "names us = names (map mask_user us)" for us
    by (induction us) (simp_all add: names_def List.map_filter_simps split_mask_user split: option.splits)
  ultimately show ?thesis using assms by metis
qed

text \<open>What each module takes from the configuration is in the public view.\<close>

lemma public_easytier:
  assumes "public_view h kw c = public_view h kw c'"
  shows "easytier_json note (cf_easytier c) m = easytier_json note (cf_easytier c') m"
proof -
  have eq: "(cf_easytier c)\<lparr>ec_network_secret := []\<rparr> = (cf_easytier c')\<lparr>ec_network_secret := []\<rparr>"
    using arg_cong [OF assms, of "\<lambda>(x, _). cf_easytier x"] by (simp add: public_view_def Let_def split_beta)
  have node: "node_state (e\<lparr>ec_network_secret := []\<rparr>) m = node_state e m" for e
    by (simp add: node_state_def split: option.split)
  have "easytier_json note (e\<lparr>ec_network_secret := []\<rparr>) m = easytier_json note e m" for e
    by (simp add: easytier_json_def node)
  then show ?thesis using eq by metis
qed

lemma public_stun:
  assumes "public_view h kw c = public_view h kw c'"
  shows "stun_status srv (cf_stun_turn c) m = stun_status srv (cf_stun_turn c') m"
proof -
  have eq: "(cf_stun_turn c)\<lparr>sc_users := map mask_user (sc_users (cf_stun_turn c))\<rparr> =
      (cf_stun_turn c')\<lparr>sc_users := map mask_user (sc_users (cf_stun_turn c'))\<rparr>"
    using arg_cong [OF assms, of "\<lambda>(x, _). cf_stun_turn x"] by (simp add: public_view_def Let_def split_beta)
  from arg_cong [OF eq, of sc_users] have "length (cred_entries (cf_stun_turn c)) = length (cred_entries (cf_stun_turn c'))"
    unfolding cred_entries_def by (intro cred_count_mask) simp
  with eq show ?thesis
    by (cases "cf_stun_turn c"; cases "cf_stun_turn c'") (simp add: stun_status_def Let_def)
qed

lemma public_rustdesk:
  assumes "public_view h (rm_keys m) c = public_view h (rm_keys m) c'"
  shows "rustdesk_status h (cf_rustdesk c) m = rustdesk_status h (cf_rustdesk c') m"
proof -
  obtain pub sk where d: "disk_keys h (rm_keys m) = (pub, sk)" by force
  have "(cf_rustdesk c)\<lparr>rc_key := []\<rparr> = (cf_rustdesk c')\<lparr>rc_key := []\<rparr>"
    using arg_cong [OF assms, of "\<lambda>(x, _). cf_rustdesk x"] by (simp add: public_view_def Let_def split_beta)
  moreover have "(trim (rc_key (cf_rustdesk c)) = []) = (trim (rc_key (cf_rustdesk c')) = [])"
    "(trim (rc_key (cf_rustdesk c)) = pub \<or> trim (rc_key (cf_rustdesk c)) = sk) =
      (trim (rc_key (cf_rustdesk c')) = pub \<or> trim (rc_key (cf_rustdesk c')) = sk)"
    using arg_cong [OF assms, of "\<lambda>(_, x, y). (x, y)"] by (simp_all add: public_view_def Let_def d)
  ultimately show ?thesis
    by (cases "cf_rustdesk c"; cases "cf_rustdesk c'") (simp add: rustdesk_status_def d Let_def)
qed

lemma public_frps:
  assumes "public_view h kw c = public_view h kw c'"
  shows "enabled (cf_frps c) = enabled (cf_frps c') \<and> tcp_mux (cf_frps c) = tcp_mux (cf_frps c') \<and>
    (token (cf_frps c) = []) = (token (cf_frps c') = []) \<and> frps_tls_usable ex (cf_frps c) = frps_tls_usable ex (cf_frps c')"
proof -
  have eq: "(cf_frps c)\<lparr>token := mask (token (cf_frps c))\<rparr> = (cf_frps c')\<lparr>token := mask (token (cf_frps c'))\<rparr>"
    using arg_cong [OF assms, of "\<lambda>(x, _). cf_frps x"] by (simp add: public_view_def Let_def split_beta)
  show ?thesis
    using mask_eq [of "token (cf_frps c)" "token (cf_frps c')"] eq
    by (cases "cf_frps c"; cases "cf_frps c'") (simp add: frps_tls_usable_def)
qed

lemma public_frpc:
  assumes "public_view h kw c = public_view h kw c'"
  shows "fc_enabled (cf_frpc c) = fc_enabled (cf_frpc c') \<and> fc_pool_count (cf_frpc c) = fc_pool_count (cf_frpc c') \<and>
    (fc_token (cf_frpc c) = []) = (fc_token (cf_frpc c') = [])"
proof -
  have eq: "(cf_frpc c)\<lparr>fc_token := mask (fc_token (cf_frpc c))\<rparr> = (cf_frpc c')\<lparr>fc_token := mask (fc_token (cf_frpc c'))\<rparr>"
    using arg_cong [OF assms, of "\<lambda>(x, _). cf_frpc x"] by (simp add: public_view_def Let_def split_beta)
  show ?thesis
    using mask_eq [of "fc_token (cf_frpc c)" "fc_token (cf_frpc c')"] eq
    by (cases "cf_frpc c"; cases "cf_frpc c'") simp
qed

lemma public_console:
  assumes "public_view h kw c = public_view h kw c'"
  shows "cc_port (cf_console c) = cc_port (cf_console c') \<and> cc_tls (cf_console c) = cc_tls (cf_console c') \<and>
    (cc_password_hash (cf_console c) = []) = (cc_password_hash (cf_console c') = [])"
proof -
  have eq: "(cf_console c)\<lparr>cc_password_hash := mask (cc_password_hash (cf_console c))\<rparr> =
      (cf_console c')\<lparr>cc_password_hash := mask (cc_password_hash (cf_console c'))\<rparr>"
    using arg_cong [OF assms, of "\<lambda>(x, _). cf_console x"] by (simp add: public_view_def Let_def split_beta)
  show ?thesis
    using mask_eq [of "cc_password_hash (cf_console c)" "cc_password_hash (cf_console c')"] eq
    by (cases "cf_console c"; cases "cf_console c'") simp
qed


definition ex_secret_app :: "string \<Rightarrow> app_state" where
  "ex_secret_app t = ex_app\<lparr>ap_config := (ap_config ex_app)\<lparr>cf_frps := (cf_frps (ap_config ex_app))\<lparr>token := t\<rparr>\<rparr>\<rparr>"


end
