(* ===== verification/Certs.thy ===== *)
theory Certs
  imports RemgrConfig
begin

text \<open>
  Service certificates (\<open>remgr/src/certs.rs\<close>): the names of the files, the checks on what is
  written and the staged installation of a pair. Minting a key pair and signing are functions
  of the environment.
\<close>

definition MAX_CERT_DAYS :: nat where "MAX_CERT_DAYS = 3650"

definition cert_paths :: "host \<Rightarrow> string \<Rightarrow> string \<Rightarrow> string \<times> string" where
  "cert_paths h dir service =
     (path_join h dir (service @ ''_cert.pem''), path_join h dir (service @ ''_key.pem''))"

definition is_ascii_alphanumeric :: "char \<Rightarrow> bool" where
  "is_ascii_alphanumeric c =
     (let n = (of_char c :: nat) in
      48 \<le> n \<and> n \<le> 57 \<or> 65 \<le> n \<and> n \<le> 90 \<or> 97 \<le> n \<and> n \<le> 122)"

definition valid_service_name :: "string \<Rightarrow> bool" where
  "valid_service_name service \<longleftrightarrow>
     service \<noteq> [] \<and> list_all (\<lambda>c. is_ascii_alphanumeric c \<or> c = CHR ''_'') service"

datatype cert_error = BadService | NotACertificate | NotAKey | NoNames | MintFailed | CertIo

text \<open>The two staged files.\<close>

definition cert_tmp :: "host \<Rightarrow> string \<Rightarrow> string \<Rightarrow> string" where
  "cert_tmp h dir service = path_join h dir (service @ ''_cert.pem.new'')"

definition key_tmp :: "host \<Rightarrow> string \<Rightarrow> string \<Rightarrow> string" where
  "key_tmp h dir service = path_join h dir (service @ ''_key.pem.new'')"

definition stage_ops :: "host \<Rightarrow> string \<Rightarrow> string \<Rightarrow> string \<Rightarrow> string \<Rightarrow> fs_op list" where
  "stage_ops h dir service cert_pem key_pem =
     [CreateDirs dir,
      OpenPublic (cert_tmp h dir service), WriteAll (cert_tmp h dir service) cert_pem,
      OpenPrivate (key_tmp h dir service), WriteAll (key_tmp h dir service) key_pem]"

definition install_ops :: "host \<Rightarrow> string \<Rightarrow> string \<Rightarrow> fs_op list" where
  "install_ops h dir service =
     [Rename (cert_tmp h dir service) (fst (cert_paths h dir service)),
      Rename (key_tmp h dir service) (snd (cert_paths h dir service))]"

text \<open>The modes are set once more at the end, on unix and as far as that works.\<close>

definition set_private :: "bool \<Rightarrow> string \<Rightarrow> files \<Rightarrow> files" where
  "set_private b p fs = (case fs p of None \<Rightarrow> fs | Some f \<Rightarrow> fs(p \<mapsto> f\<lparr>f_private := b\<rparr>))"

definition fix_modes :: "host \<Rightarrow> bool \<times> bool \<Rightarrow> string \<Rightarrow> string \<Rightarrow> files \<Rightarrow> files" where
  "fix_modes h chmod_ok cert_path key_path fs =
     (if h_windows h then fs
      else
        (let fs1 = (if fst chmod_ok then set_private True key_path fs else fs)
         in if snd chmod_ok then set_private False cert_path fs1 else fs1))"

definition write_service_cert ::
  "host \<Rightarrow> (nat \<Rightarrow> nat option) \<Rightarrow> bool \<times> bool \<Rightarrow> string \<Rightarrow> string \<Rightarrow> string \<Rightarrow> string \<Rightarrow> files
     \<Rightarrow> (cert_error + string \<times> string) \<times> files" where
  "write_service_cert h fails chmod_ok dir service cert_pem key_pem fs =
     (if \<not> valid_service_name service then (Err BadService, fs)
      else if \<not> str_contains ''BEGIN CERTIFICATE'' cert_pem \<or> \<not> str_contains ''END CERTIFICATE'' cert_pem
      then (Err NotACertificate, fs)
      else if \<not> str_contains ''PRIVATE KEY'' key_pem \<or> \<not> str_contains ''END'' key_pem then (Err NotAKey, fs)
      else case run_ops h fails 0 (stage_ops h dir service cert_pem key_pem @ install_ops h dir service) fs of
        (False, fs1) \<Rightarrow> (Err CertIo, fs1)
      | (True, fs1) \<Rightarrow>
          (let (cert_path, key_path) = cert_paths h dir service
           in (Ok (cert_path, key_path), fix_modes h chmod_ok cert_path key_path fs1)))"

text \<open>\<open>mint names common_name days\<close> is a certificate and its key, in PEM, or a failure.\<close>

definition generate_service_cert_names ::
  "(string list \<Rightarrow> string \<Rightarrow> nat \<Rightarrow> (string \<times> string) option) \<Rightarrow> host \<Rightarrow> (nat \<Rightarrow> nat option) \<Rightarrow> bool \<times> bool
     \<Rightarrow> string \<Rightarrow> string \<Rightarrow> string list \<Rightarrow> string \<Rightarrow> nat \<Rightarrow> files \<Rightarrow> (cert_error + string \<times> string) \<times> files" where
  "generate_service_cert_names mint h fails chmod_ok dir service names common_name days fs =
     (if \<not> valid_service_name service then (Err BadService, fs)
      else if names = [] then (Err NoNames, fs)
      else case mint names common_name (max 1 (min days MAX_CERT_DAYS)) of
        None \<Rightarrow> (Err MintFailed, fs)
      | Some (cert_pem, key_pem) \<Rightarrow> write_service_cert h fails chmod_ok dir service cert_pem key_pem fs)"

definition generate_service_cert ::
  "(string list \<Rightarrow> string \<Rightarrow> nat \<Rightarrow> (string \<times> string) option) \<Rightarrow> host \<Rightarrow> (nat \<Rightarrow> nat option) \<Rightarrow> bool \<times> bool
     \<Rightarrow> string \<Rightarrow> string \<Rightarrow> string \<Rightarrow> nat \<Rightarrow> files \<Rightarrow> (cert_error + string \<times> string) \<times> files" where
  "generate_service_cert mint h fails chmod_ok dir service domain days fs =
     generate_service_cert_names mint h fails chmod_ok dir service [domain, ''localhost''] domain days fs"

section \<open>Properties\<close>

lemma valid_service_name_chars:
  "valid_service_name service \<Longrightarrow> c \<in> set service \<Longrightarrow> c \<noteq> CHR ''/'' \<and> c \<noteq> CHR ''.'' \<and> c \<noteq> CHR 0x5C"
  by (auto simp: valid_service_name_def list_all_iff is_ascii_alphanumeric_def)

lemma path_join_inj [simp]: "path_join h d a = path_join h d b \<longleftrightarrow> a = b"
  by (simp add: path_join_def)

lemma staged_paths_distinct:
  "distinct [cert_tmp h d s, key_tmp h d s, fst (cert_paths h d s), snd (cert_paths h d s)]"
  by (simp add: cert_tmp_def key_tmp_def cert_paths_def)

text \<open>Failures at any of the seven operations, one case at a time.\<close>

lemma run_ops_append:
  "run_ops h fails i (ps @ qs) fs =
     (case run_ops h fails i ps fs of
        (True, fs1) \<Rightarrow> run_ops h fails (i + length ps) qs fs1
      | (False, fs1) \<Rightarrow> (False, fs1))"
proof (induction ps arbitrary: i fs)
  case (Cons p ps)
  then show ?case by (simp split: option.splits prod.splits bool.splits)
qed simp

lemma stage_keeps:
  assumes "run_ops h fails i (stage_ops h d s c k) fs = (b, fs')"
    and "p \<noteq> cert_tmp h d s" "p \<noteq> key_tmp h d s"
  shows "fs' p = fs p"
  using assms
  by (auto simp: stage_ops_def open_public_def open_private_def append_file_def split: option.splits)

lemma stage_done:
  assumes "run_ops h fails i (stage_ops h d s c k) fs = (True, fs')"
  shows "\<exists>fc fk. fs' (cert_tmp h d s) = Some fc \<and> f_data fc = c \<and> fs' (key_tmp h d s) = Some fk \<and> f_data fk = k"
  using assms staged_paths_distinct [of h d s]
  by (auto simp: stage_ops_def open_public_def open_private_def append_file_def split: option.splits)

lemma install_step:
  assumes "fs ct = Some fc" "fs kt = Some fk" "distinct [ct, kt, cp, kp]"
    and "run_ops h fails i [Rename ct cp, Rename kt kp] fs = (b, fs')"
  shows "if b then fs' cp = Some fc \<and> fs' kp = Some fk
     else fs' kp = fs kp \<and> (fs' cp = fs cp \<or> fs' cp = Some fc)"
  using assms by (auto split: option.splits if_splits)

lemma fix_modes_data:
  assumes "fs c = Some fc" "fs k = Some fk" "c \<noteq> k"
  shows "\<exists>fc' fk'. fix_modes h ok c k fs c = Some fc' \<and> f_data fc' = f_data fc \<and>
     fix_modes h ok c k fs k = Some fk' \<and> f_data fk' = f_data fk \<and> (fst ok \<and> \<not> h_windows h \<longrightarrow> f_private fk')"
  using assms by (auto simp: fix_modes_def set_private_def Let_def)

text \<open>Installing a certificate never leaves a truncated file under a live name: after an
  error the key is the old one and the certificate is the old one or the complete new one,
  after success both are the complete new ones and the key is private. The file names come
  from a service name without separators or dots, so nothing outside the directory is
  written.\<close>

lemma cert_install_complete:
  assumes "write_service_cert h fails chmod_ok dir service cert_pem key_pem fs = (r, fs')"
    and "cert_paths h dir service = (c, k)"
  shows "case r of
      Inl _ \<Rightarrow> fs' k = fs k \<and> (fs' c = fs c \<or> (\<exists>fc. fs' c = Some fc \<and> f_data fc = cert_pem))
    | Inr paths \<Rightarrow> paths = (c, k) \<and>
        list_all (\<lambda>ch. ch \<noteq> CHR ''/'' \<and> ch \<noteq> CHR ''.'' \<and> ch \<noteq> CHR 0x5C) service \<and>
        (\<exists>fc fk. fs' c = Some fc \<and> f_data fc = cert_pem \<and> fs' k = Some fk \<and> f_data fk = key_pem \<and>
           (f_private fk \<or> h_windows h \<or> \<not> fst chmod_ok))"
proof -
  define ct kt where "ct = cert_tmp h dir service" and "kt = key_tmp h dir service"
  have d: "distinct [ct, kt, c, k]"
    using staged_paths_distinct [of h dir service] assms(2) by (simp add: ct_def kt_def)
  have inst: "install_ops h dir service = [Rename ct c, Rename kt k]"
    by (simp add: install_ops_def ct_def kt_def assms(2))
  obtain b1 fs1 where st: "run_ops h fails 0 (stage_ops h dir service cert_pem key_pem) fs = (b1, fs1)"
    by (cases "run_ops h fails 0 (stage_ops h dir service cert_pem key_pem) fs")
  have kept: "fs1 c = fs c" "fs1 k = fs k"
    using stage_keeps [OF st, of c] stage_keeps [OF st, of k] d by (auto simp: ct_def kt_def)
  obtain b2 fs2 where i: "run_ops h fails (0 + length (stage_ops h dir service cert_pem key_pem)) [Rename ct c, Rename kt k] fs1 = (b2, fs2)"
    by (cases "run_ops h fails (0 + length (stage_ops h dir service cert_pem key_pem)) [Rename ct c, Rename kt k] fs1")
  have all: "run_ops h fails 0 (stage_ops h dir service cert_pem key_pem @ install_ops h dir service) fs =
      (if b1 then (b2, fs2) else (False, fs1))"
    by (simp only: run_ops_append st inst i prod.case) simp
  consider "fs' = fs" "\<exists>e. r = Inl e" | "\<not> b1" "fs' = fs1" "\<exists>e. r = Inl e"
    | "b1" "\<not> b2" "fs' = fs2" "\<exists>e. r = Inl e"
    | "b1" "b2" "r = Inr (c, k)" "fs' = fix_modes h chmod_ok c k fs2" "valid_service_name service"
    using assms by (auto simp: write_service_cert_def all split: if_splits bool.splits)
  then show ?thesis
  proof cases
    case 1
    then show ?thesis by auto
  next
    case 2
    then show ?thesis using kept by auto
  next
    case 3
    then obtain fc fk where f: "fs1 ct = Some fc" "f_data fc = cert_pem" "fs1 kt = Some fk"
      using stage_done [of h fails 0 dir service cert_pem key_pem fs fs1] st by (auto simp: ct_def kt_def)
    then show ?thesis using install_step [OF f(1,3) d i] 3 kept by auto
  next
    case 4
    then obtain fc fk where f: "fs1 ct = Some fc" "f_data fc = cert_pem" "fs1 kt = Some fk" "f_data fk = key_pem"
      using stage_done [of h fails 0 dir service cert_pem key_pem fs fs1] st by (auto simp: ct_def kt_def)
    then have "fs2 c = Some fc" "fs2 k = Some fk" using install_step [OF f(1,3) d i] 4 by auto
    with fix_modes_data [of fs2 c fc k fk h chmod_ok] d f 4 show ?thesis
      using valid_service_name_chars [of service] by (fastforce simp: list_all_iff)
  qed
qed

text \<open>Between the two moves the pair does not match: a new certificate beside the old key.\<close>

lemma torn_pair:
  assumes "valid_service_name service" "str_contains ''BEGIN CERTIFICATE'' cert_pem"
    "str_contains ''END CERTIFICATE'' cert_pem" "str_contains ''PRIVATE KEY'' key_pem" "str_contains ''END'' key_pem"
    and "fails = (\<lambda>i. if i = 6 then Some 0 else None)" "cert_paths h dir service = (c, k)"
  shows "\<exists>fs' fc. write_service_cert h fails ok dir service cert_pem key_pem fs = (Err CertIo, fs') \<and>
     fs' c = Some fc \<and> f_data fc = cert_pem \<and> fs' k = fs k"
proof -
  define ct kt where "ct = cert_tmp h dir service" and "kt = key_tmp h dir service"
  have d: "distinct [ct, kt, c, k]"
    using staged_paths_distinct [of h dir service] assms(7) by (simp add: ct_def kt_def)
  show ?thesis
    using assms(1-5) d
    by (auto simp: write_service_cert_def stage_ops_def install_ops_def assms(6,7) ct_def [symmetric] kt_def [symmetric]
        open_public_def open_private_def append_file_def split: option.splits)
qed

definition ex_cert_pem :: string where "ex_cert_pem = ''BEGIN CERTIFICATE END CERTIFICATE''"
definition ex_key_pem :: string where "ex_key_pem = ''PRIVATE KEY END''"

lemma cert_install_complete_example:
  "\<exists>fk. snd (write_service_cert ex_host (\<lambda>_. None) (True, True) ''/etc/remgr/ssl'' ''turn'' ex_cert_pem ex_key_pem Map.empty)
     ''/etc/remgr/ssl/turn_key.pem'' = Some fk \<and> f_private fk"
proof -
  have "\<exists>p. fst (write_service_cert ex_host (\<lambda>_. None) (True, True) ''/etc/remgr/ssl'' ''turn'' ex_cert_pem ex_key_pem Map.empty) = Inr p"
    by (simp add: write_service_cert_def valid_service_name_def is_ascii_alphanumeric_def ex_cert_pem_def ex_key_pem_def
        stage_ops_def install_ops_def starts_with_def split: prod.splits)
  moreover have "cert_paths ex_host ''/etc/remgr/ssl'' ''turn'' = (''/etc/remgr/ssl/turn_cert.pem'', ''/etc/remgr/ssl/turn_key.pem'')"
    by (simp add: cert_paths_def path_join_def is_path_sep_def ex_host_def)
  ultimately show ?thesis
    using cert_install_complete [OF prod.collapse [symmetric], of ex_host "''/etc/remgr/ssl''" "''turn''"
        "''/etc/remgr/ssl/turn_cert.pem''" "''/etc/remgr/ssl/turn_key.pem''" "\<lambda>_. None" "(True, True)"
        ex_cert_pem ex_key_pem Map.empty]
    by (auto simp: ex_host_def)
qed

end
