(* ===== verification/Secure.thy ===== *)
theory Secure
  imports RemgrConfig
begin

text \<open>
  The OpenBSD sandbox (\<open>remgr/src/secure.rs\<close>): the promises, the paths that stay visible, the
  console's check that a configured path is among them, and the directories prepared before
  the sandbox is entered.
\<close>

definition PROMISES :: string where
  "PROMISES = ''stdio rpath wpath cpath fattr flock inet unix dns getpw route wroute''"

definition unveil_paths :: "(string \<times> string) list" where
  "unveil_paths =
     [(''/var/lib/remgr'', ''rwc''), (''/etc/remgr'', ''rwc''), (''/var/db/remgr'', ''rwc''),
      (''/var/log/remgr'', ''rwc''), (''/var/run/remgr'', ''rwc''), (''/etc/ssl'', ''r''),
      (''/etc/resolv.conf'', ''r''), (''/etc/hosts'', ''r''), (''/etc/services'', ''r''),
      (''/var/account'', ''r'')] @
     map (\<lambda>i. (''/dev/tun'' @ dec_string i, ''rw'')) [0..<16] @
     [(''/dev/urandom'', ''r'')]"

definition VISIBLE_ROOTS :: "string list" where
  "VISIBLE_ROOTS = [''/var/lib/remgr'', ''/etc/remgr'', ''/var/db/remgr'', ''/var/log/remgr'',
     ''/var/run/remgr'', ''/etc/ssl'']"

text \<open>The components of a path: whether it is absolute, and the names between the separators;
  empty ones and \<open>.\<close> do not count, except a leading \<open>.\<close> of a relative path.\<close>

definition path_components :: "string \<Rightarrow> bool \<times> string list" where
  "path_components p =
     (let parts = split_on CHR ''/'' p;
          keep = filter (\<lambda>c. c \<noteq> [] \<and> c \<noteq> ''.'')
      in case parts of
           [] \<Rightarrow> (False, [])
         | q # qs \<Rightarrow>
             if q = [] \<and> qs \<noteq> [] then (True, keep qs)
             else (False, (if q = ''.'' then [''.''] else keep [q]) @ keep qs))"

definition path_starts_with :: "string \<Rightarrow> string \<Rightarrow> bool" where
  "path_starts_with root p =
     (let (ra, rc) = path_components root; (pa, pc) = path_components p
      in ra = pa \<and> take (length rc) pc = rc)"

definition path_is_visible :: "bool \<Rightarrow> string \<Rightarrow> bool" where
  "path_is_visible openbsd path = (if \<not> openbsd then True else list_ex (\<lambda>root. path_starts_with root path) VISIBLE_ROOTS)"

text \<open>The calls of \<open>apply\<close>: every path is unveiled, the set is locked, then the promises are
  made. A path that fails is skipped; a pledge that fails is an error.\<close>

datatype sandbox_call = Unveil string string | LockUnveil | Pledge string

definition sandbox_calls :: "sandbox_call list" where
  "sandbox_calls = map (\<lambda>(p, perms). Unveil p perms) unveil_paths @ [LockUnveil, Pledge PROMISES]"

record sandbox =
  sb_visible :: "(string \<times> string) list"
  sb_locked :: bool
  sb_promises :: "string option"

fun sandbox_step :: "(string \<Rightarrow> bool) \<Rightarrow> bool \<Rightarrow> sandbox_call \<Rightarrow> sandbox \<Rightarrow> bool \<times> sandbox" where
  "sandbox_step unveil_ok pledge_ok (Unveil p perms) sb =
     (True, if unveil_ok p \<and> \<not> sb_locked sb then sb\<lparr>sb_visible := sb_visible sb @ [(p, perms)]\<rparr> else sb)"
| "sandbox_step unveil_ok pledge_ok LockUnveil sb = (True, sb\<lparr>sb_locked := True\<rparr>)"
| "sandbox_step unveil_ok pledge_ok (Pledge ps) sb =
     (if pledge_ok then (True, sb\<lparr>sb_promises := Some ps\<rparr>) else (False, sb))"

fun sandbox_run :: "(string \<Rightarrow> bool) \<Rightarrow> bool \<Rightarrow> sandbox_call list \<Rightarrow> sandbox \<Rightarrow> bool \<times> sandbox" where
  "sandbox_run u pl [] sb = (True, sb)"
| "sandbox_run u pl (c # cs) sb =
     (case sandbox_step u pl c sb of (True, sb') \<Rightarrow> sandbox_run u pl cs sb' | (False, sb') \<Rightarrow> (False, sb'))"

definition sandbox_apply :: "bool \<Rightarrow> (string \<Rightarrow> bool) \<Rightarrow> bool \<Rightarrow> bool \<times> sandbox" where
  "sandbox_apply openbsd unveil_ok pledge_ok =
     (let sb = \<lparr> sb_visible = [], sb_locked = False, sb_promises = None \<rparr>
      in if openbsd then sandbox_run unveil_ok pledge_ok sandbox_calls sb else (True, sb))"

text \<open>The directories that are tried, in order, and whether the last one, which has to work,
  did.\<close>

definition prepare_dirs :: "host \<Rightarrow> (string \<Rightarrow> bool) \<Rightarrow> (string \<Rightarrow> bool) \<Rightarrow> string \<Rightarrow> bool \<times> string list" where
  "prepare_dirs h there creatable config_path =
     (let legacy = ''/var/db/remgr'';
          wanted = required_dirs h @ (if \<not> h_windows h \<and> \<not> there legacy then [legacy] else []);
          made = filter creatable wanted;
          par = parent config_path
      in if snd (path_components config_path) = [] \<or> par = [] then (True, made)
         else if creatable par then (True, made @ [par]) else (False, made))"

section \<open>Properties\<close>

lemma sandbox_run_unveils:
  "\<not> sb_locked sb \<Longrightarrow>
   sandbox_run u pl (map (\<lambda>(p, perms). Unveil p perms) ups @ cs) sb =
     sandbox_run u pl cs (sb\<lparr>sb_visible := sb_visible sb @ filter (u \<circ> fst) ups\<rparr>)"
proof (induction ups arbitrary: sb)
  case (Cons a ups)
  then show ?case by (cases a) (auto simp: comp_def)
qed simp

text \<open>The sandbox once it is in place.\<close>

lemma sandbox_apply_ok:
  "sandbox_apply True u True =
     (True, \<lparr> sb_visible = filter (u \<circ> fst) unveil_paths, sb_locked = True, sb_promises = Some PROMISES \<rparr>)"
  by (simp add: sandbox_apply_def sandbox_calls_def sandbox_run_unveils)

lemma no_exec: "''exec'' \<notin> set (split_on CHR '' '' PROMISES)" "''proc'' \<notin> set (split_on CHR '' '' PROMISES)"
  by (simp_all add: PROMISES_def)

lemma nothing_executable: "(p, perms) \<in> set unveil_paths \<Longrightarrow> CHR ''x'' \<notin> set perms"
  by (auto simp: unveil_paths_def)

lemma visible_roots_listed:
  "list_all (\<lambda>root. list_ex (\<lambda>(p, perms). p = root \<and> CHR ''r'' \<in> set perms) (take 6 unveil_paths)) VISIBLE_ROOTS"
  by (simp add: VISIBLE_ROOTS_def unveil_paths_def)

lemma visible_roots_unveiled:
  assumes "root \<in> set VISIBLE_ROOTS"
  shows "\<exists>perms. (root, perms) \<in> set unveil_paths \<and> CHR ''r'' \<in> set perms"
proof -
  from visible_roots_listed assms have "list_ex (\<lambda>(p, perms). p = root \<and> CHR ''r'' \<in> set perms) (take 6 unveil_paths)"
    by (simp add: list_all_iff)
  then obtain perms where "(root, perms) \<in> set (take 6 unveil_paths)" "CHR ''r'' \<in> set perms"
    by (auto simp: list_ex_iff)
  then show ?thesis by (meson in_set_takeD)
qed

text \<open>On OpenBSD, a path the console accepts as visible lies under a tree that the sandbox
  really opened for reading (when the tree exists), the set is locked before the promises are
  made, nothing may be executed, and no promise allows it.\<close>

lemma sandbox_shows_accepted_paths:
  assumes "path_is_visible True path" "sandbox_apply True (\<lambda>_. True) True = (ok, sb)"
  shows "ok \<and> sb_locked sb \<and> sb_promises sb = Some PROMISES \<and>
    (\<exists>root perms. (root, perms) \<in> set (sb_visible sb) \<and> CHR ''r'' \<in> set perms \<and> path_starts_with root path) \<and>
    list_all (\<lambda>(_, perms). CHR ''x'' \<notin> set perms) (sb_visible sb) \<and>
    ''exec'' \<notin> set (split_on CHR '' '' PROMISES)"
proof -
  from assms(1) obtain root where root: "root \<in> set VISIBLE_ROOTS" "path_starts_with root path"
    by (auto simp: path_is_visible_def list_ex_iff)
  from visible_roots_unveiled [OF root(1)] obtain perms
    where "(root, perms) \<in> set unveil_paths" "CHR ''r'' \<in> set perms" by blast
  with root(2) have "\<exists>root perms. (root, perms) \<in> set unveil_paths \<and> CHR ''r'' \<in> set perms \<and> path_starts_with root path"
    by blast
  moreover have "list_all (\<lambda>(_, perms). CHR ''x'' \<notin> set perms) unveil_paths"
    using nothing_executable by (auto simp: list_all_iff)
  moreover have "ok" "sb = \<lparr> sb_visible = unveil_paths, sb_locked = True, sb_promises = Some PROMISES \<rparr>"
    using assms(2) by (simp_all add: sandbox_apply_ok comp_def)
  ultimately show ?thesis
    using no_exec(1) by simp
qed

lemma sandbox_shows_accepted_paths_example:
  "\<exists>root perms. (root, perms) \<in> set (sb_visible (snd (sandbox_apply True (\<lambda>_. True) True))) \<and>
     CHR ''r'' \<in> set perms \<and> path_starts_with root ''/etc/ssl/private/key.pem''"
proof -
  have "path_is_visible True ''/etc/ssl/private/key.pem''"
    by (simp add: path_is_visible_def VISIBLE_ROOTS_def path_starts_with_def path_components_def)
  then show ?thesis
    using sandbox_shows_accepted_paths [OF _ prod.collapse [symmetric]] by blast
qed

text \<open>A sibling of a visible tree is not visible: whole components are compared.\<close>

lemma sibling_not_visible: "\<not> path_is_visible True ''/etc/remgrX/key.pem''"
  by (simp add: path_is_visible_def VISIBLE_ROOTS_def path_starts_with_def path_components_def)

end
