(* ===== verification/Logging.thy ===== *)
theory Logging
  imports RemgrConfig
begin

text \<open>
  The log hub (\<open>remgr/src/logging.rs\<close>): writes of arbitrary size are reassembled into lines,
  each line goes to a bounded ring for the console, to the broadcast channel of the live
  view and to a file that is rotated once. File operations succeed or fail as the
  environment says, one outcome per line.
\<close>

section \<open>The file\<close>

definition RING_SIZE :: nat where "RING_SIZE = 1000"
definition LOG_MAX_BYTES :: nat where "LOG_MAX_BYTES = 8 * 1024 * 1024"
definition MAX_PARTIAL :: nat where "MAX_PARTIAL = 64 * 1024"

text \<open>What the file system does during one line: the first open, the open after a rotation,
  the rename, and the write (which may store a prefix before it fails).\<close>

record log_io =
  io_open :: bool
  io_reopen :: bool
  io_rename :: bool
  io_write :: "nat option"

record file_sink =
  fk_path :: string
  fk_file :: bool
  fk_written :: nat
  fk_complained :: bool
  fk_said :: nat
  fk_disk :: files

definition file_sink_new :: "string \<Rightarrow> files \<Rightarrow> file_sink" where
  "file_sink_new path disk = \<lparr> fk_path = path, fk_file = False, fk_written = 0, fk_complained = False,
     fk_said = 0, fk_disk = disk \<rparr>"

text \<open>Reporting once per episode.\<close>

definition complain :: "file_sink \<Rightarrow> file_sink" where
  "complain s = (if fk_complained s then s else s\<lparr>fk_complained := True, fk_said := fk_said s + 1\<rparr>)"

definition sink_open :: "host \<Rightarrow> bool \<Rightarrow> file_sink \<Rightarrow> file_sink" where
  "sink_open h ok s =
     (if ok then
        (let f = (case fk_disk s (fk_path s) of
                    None \<Rightarrow> \<lparr> f_data = [], f_private = \<not> h_windows h, f_synced = False \<rparr>
                  | Some f \<Rightarrow> if h_windows h then f else f\<lparr>f_private := True\<rparr>)
         in s\<lparr>fk_disk := (fk_disk s)(fk_path s \<mapsto> f), fk_written := length (f_data f), fk_file := True\<rparr>)
      else complain s)"

text \<open>\<open>Path::with_file_name\<close> beside the log file.\<close>

definition rolled_path :: "string \<Rightarrow> string" where
  "rolled_path p = take (length p - length (file_name p)) p @ ''remgr.log.1''"

definition sink_rotate :: "host \<Rightarrow> log_io \<Rightarrow> file_sink \<Rightarrow> file_sink" where
  "sink_rotate h io s =
     sink_open h (io_reopen io)
       (s\<lparr>fk_file := False, fk_written := 0,
          fk_disk := (if io_rename io then exec_op h (Rename (fk_path s) (rolled_path (fk_path s))) (fk_disk s)
                      else fk_disk s)\<rparr>)"

definition newline :: string where "newline = [CHR 0x0A]"

definition sink_write_line :: "host \<Rightarrow> log_io \<Rightarrow> string \<Rightarrow> file_sink \<Rightarrow> file_sink" where
  "sink_write_line h io line s0 =
     (let s1 = (if \<not> fk_file s0 then sink_open h (io_open io) s0 else s0);
          s = (if fk_written s1 \<ge> LOG_MAX_BYTES then sink_rotate h io s1 else s1)
      in if \<not> fk_file s then s
         else case io_write io of
           None \<Rightarrow> s\<lparr>fk_disk := append_file (fk_path s) (line @ newline) (fk_disk s),
                     fk_written := fk_written s + length line + 1, fk_complained := False\<rparr>
         | Some n \<Rightarrow>
             (complain (s\<lparr>fk_disk := append_file (fk_path s) (take n (line @ newline)) (fk_disk s)\<rparr>))\<lparr>fk_file := False\<rparr>)"

section \<open>The hub\<close>

record log_hub =
  lh_entries :: "string list"
  lh_partial :: string
  lh_sent :: "string list"
  lh_sink :: file_sink

definition log_hub_new :: "host \<Rightarrow> files \<Rightarrow> log_hub" where
  "log_hub_new h disk = \<lparr> lh_entries = [], lh_partial = [], lh_sent = [],
     lh_sink = file_sink_new (log_file h) disk \<rparr>"

definition push_line :: "host \<Rightarrow> (nat \<Rightarrow> log_io) \<Rightarrow> string \<Rightarrow> log_hub \<Rightarrow> log_hub" where
  "push_line h io line s =
     s\<lparr>lh_entries := (if length (lh_entries s) = RING_SIZE then tl (lh_entries s) else lh_entries s) @ [line],
       lh_sink := sink_write_line h (io (length (lh_sent s))) line (lh_sink s),
       lh_sent := lh_sent s @ [line]\<rparr>"

definition snapshot :: "nat \<Rightarrow> log_hub \<Rightarrow> string list" where
  "snapshot n s = drop (length (lh_entries s) - n) (lh_entries s)"

definition push_trimmed :: "host \<Rightarrow> (nat \<Rightarrow> log_io) \<Rightarrow> string \<Rightarrow> log_hub \<Rightarrow> log_hub" where
  "push_trimmed h io line s = (if trim_end line \<noteq> [] then push_line h io (trim_end line) s else s)"

text \<open>The loop that takes complete lines out of the buffer.\<close>

function drain_lines :: "host \<Rightarrow> (nat \<Rightarrow> log_io) \<Rightarrow> log_hub \<Rightarrow> log_hub" where
  "drain_lines h io s =
     (case split_once CHR 0x0A (lh_partial s) of
        None \<Rightarrow> s
      | Some (line, rest) \<Rightarrow> drain_lines h io (push_trimmed h io (line @ newline) (s\<lparr>lh_partial := rest\<rparr>)))"
  by pat_completeness auto
termination
  by (relation "measure (\<lambda>(h, io, s). length (lh_partial s))")
     (auto simp: push_trimmed_def push_line_def dest!: split_once_SomeD)

declare drain_lines.simps [simp del]

definition ingest :: "host \<Rightarrow> (nat \<Rightarrow> log_io) \<Rightarrow> string \<Rightarrow> log_hub \<Rightarrow> log_hub" where
  "ingest h io buf s0 =
     (let s = drain_lines h io (s0\<lparr>lh_partial := lh_partial s0 @ buf\<rparr>)
      in if length (lh_partial s) > MAX_PARTIAL
         then push_trimmed h io (lh_partial s) (s\<lparr>lh_partial := []\<rparr>)
         else s)"

text \<open>A record of the ring, the live view and the file at once: what \<open>/api/logs?file\<close> reads.\<close>

definition read_log_file :: "host \<Rightarrow> files \<Rightarrow> nat \<Rightarrow> string list option" where
  "read_log_file h disk n =
     (let tail = (\<lambda>f. let ls = rust_lines (f_data f) in drop (length ls - n) ls) in
      case disk (log_file h) of
        Some f \<Rightarrow> Some (tail f)
      | None \<Rightarrow> map_option tail (disk (log_file_previous h)))"

section \<open>The specification: all complete lines so far\<close>

text \<open>The lines of a text that end in a newline, without trailing blanks, blank ones left out,
  and what follows the last newline.\<close>

definition complete_lines :: "string \<Rightarrow> string list" where
  "complete_lines s = filter (\<lambda>l. l \<noteq> []) (map trim_end (butlast (split_on CHR 0x0A s)))"

definition rest_line :: "string \<Rightarrow> string" where
  "rest_line s = last (split_on CHR 0x0A s)"

definition last_n :: "nat \<Rightarrow> 'a list \<Rightarrow> 'a list" where
  "last_n n xs = drop (length xs - n) xs"

text \<open>The abstraction: the ring holds the most recent lines of what was broadcast.\<close>

definition hub_abs :: "log_hub \<Rightarrow> string list \<times> string" where
  "hub_abs s = (lh_sent s, lh_partial s)"

definition hub_inv :: "log_hub \<Rightarrow> bool" where
  "hub_inv s \<longleftrightarrow> lh_entries s = last_n RING_SIZE (lh_sent s)"

section \<open>Lemmas\<close>

lemma length_last_n [simp]: "length (last_n n xs) = min n (length xs)"
  by (simp add: last_n_def)

lemma last_n_last_n: "last_n m (last_n n xs) = last_n (min m n) xs"
  unfolding last_n_def drop_drop length_drop
  by (rule arg_cong [where f = "\<lambda>k. drop k xs"]) (auto simp: min_def)

lemma last_n_snoc:
  "n > 0 \<Longrightarrow> last_n n (xs @ [x]) = (if length (last_n n xs) = n then tl (last_n n xs) else last_n n xs) @ [x]"
  by (auto simp: last_n_def drop_Suc [symmetric] Suc_diff_le tl_drop drop_Cons' min_def)

lemma push_line_fields [simp]:
  "lh_sent (push_line h io l s) = lh_sent s @ [l]" "lh_partial (push_line h io l s) = lh_partial s"
  by (simp_all add: push_line_def)

lemma push_line_inv: "hub_inv s \<Longrightarrow> hub_inv (push_line h io l s)"
  by (simp add: hub_inv_def push_line_def last_n_snoc RING_SIZE_def)

lemma push_trimmed_inv: "hub_inv s \<Longrightarrow> hub_inv (push_trimmed h io l s)"
  by (simp add: push_trimmed_def push_line_inv)

lemma push_trimmed_fields [simp]:
  "lh_sent (push_trimmed h io l s) = lh_sent s @ filter (\<lambda>l. l \<noteq> []) [trim_end l]"
  "lh_partial (push_trimmed h io l s) = lh_partial s"
  by (simp_all add: push_trimmed_def)

lemma trim_end_newline [simp]: "trim_end (l @ newline) = trim_end l"
  by (simp add: trim_end_def newline_def is_ws_def)

lemma split_lines:
  "complete_lines [] = []" "rest_line [] = []"
  "CHR 0x0A \<notin> set a \<Longrightarrow> complete_lines (a @ CHR 0x0A # b) = filter (\<lambda>l. l \<noteq> []) [trim_end a] @ complete_lines b"
  "CHR 0x0A \<notin> set a \<Longrightarrow> rest_line (a @ CHR 0x0A # b) = rest_line b"
  "CHR 0x0A \<notin> set a \<Longrightarrow> complete_lines a = []" "CHR 0x0A \<notin> set a \<Longrightarrow> rest_line a = a"
  by (simp_all add: complete_lines_def rest_line_def string_simps)

lemma rest_line_no_newline: "CHR 0x0A \<notin> set (rest_line s)"
  unfolding rest_line_def by (rule split_on_parts [of _ "CHR 0x0A" s]) simp

lemma split_rest_append:
  "complete_lines (s @ t) = complete_lines s @ complete_lines (rest_line s @ t) \<and>
   rest_line (s @ t) = rest_line (rest_line s @ t)"
proof (induction "length s" arbitrary: s rule: less_induct)
  case less
  show ?case
  proof (cases "split_once CHR 0x0A s")
    case None
    then show ?thesis by (simp add: split_once_None_iff split_lines)
  next
    case (Some ab)
    then obtain a b where s: "s = a @ CHR 0x0A # b" and a: "CHR 0x0A \<notin> set a"
      by (cases ab) (auto dest: split_once_SomeD)
    then show ?thesis using less [of b] by (simp add: split_lines)
  qed
qed

lemma drain_lines_spec:
  "lh_sent (drain_lines h io s) = lh_sent s @ complete_lines (lh_partial s) \<and>
   lh_partial (drain_lines h io s) = rest_line (lh_partial s) \<and>
   (hub_inv s \<longrightarrow> hub_inv (drain_lines h io s))"
proof (induction h io s rule: drain_lines.induct)
  case (1 h io s)
  show ?case
  proof (cases "split_once CHR 0x0A (lh_partial s)")
    case None
    then have "CHR 0x0A \<notin> set (lh_partial s)" by (simp add: split_once_None_iff)
    with None show ?thesis by (simp add: drain_lines.simps [of h io s] split_lines)
  next
    case (Some ab)
    obtain a b where ab: "ab = (a, b)" by (cases ab)
    have split: "lh_partial s = a @ CHR 0x0A # b" "CHR 0x0A \<notin> set a" using Some ab by (auto dest: split_once_SomeD)
    have "hub_inv s \<Longrightarrow> hub_inv (push_trimmed h io (a @ newline) (s\<lparr>lh_partial := b\<rparr>))"
      by (rule push_trimmed_inv) (simp add: hub_inv_def)
    then show ?thesis
      using "1.IH" [OF Some ab [symmetric]] Some ab split by (simp add: drain_lines.simps [of h io s] split_lines)
  qed
qed

lemma ingest_spec:
  assumes "length (rest_line (lh_partial s @ buf)) \<le> MAX_PARTIAL"
  shows "lh_sent (ingest h io buf s) = lh_sent s @ complete_lines (lh_partial s @ buf)"
    and "lh_partial (ingest h io buf s) = rest_line (lh_partial s @ buf)"
  using drain_lines_spec [of h io "s\<lparr>lh_partial := lh_partial s @ buf\<rparr>"] assms
  by (simp_all add: ingest_def Let_def)

lemma hub_inv_partial [simp]: "hub_inv (s\<lparr>lh_partial := p\<rparr>) = hub_inv s"
  by (simp add: hub_inv_def)

lemma ingest_inv: "hub_inv s \<Longrightarrow> hub_inv (ingest h io buf s)"
  using drain_lines_spec [of h io "s\<lparr>lh_partial := lh_partial s @ buf\<rparr>"]
  by (auto simp: ingest_def Let_def intro: push_trimmed_inv)

lemma ingest_all:
  assumes "\<forall>k \<le> length cs. length (rest_line (lh_partial s @ concat (take k cs))) \<le> MAX_PARTIAL"
  shows "hub_abs (foldl (\<lambda>s b. ingest h io b s) s cs) =
     (lh_sent s @ complete_lines (lh_partial s @ concat cs), rest_line (lh_partial s @ concat cs)) \<or> cs = []"
  using assms
proof (induction cs arbitrary: s)
  case (Cons b cs)
  have "length (rest_line (lh_partial s @ b)) \<le> MAX_PARTIAL"
    using Cons.prems [rule_format, of 1] by simp
  note step = ingest_spec [OF this, of h io]
  have "length (rest_line (rest_line (lh_partial s @ b) @ concat (take k cs))) \<le> MAX_PARTIAL" if "k \<le> length cs" for k
    using Cons.prems [rule_format, of "Suc k"] that split_rest_append [of "lh_partial s @ b" "concat (take k cs)"]
    by simp
  then have "hub_abs (foldl (\<lambda>s b. ingest h io b s) (ingest h io b s) cs) =
      (lh_sent (ingest h io b s) @ complete_lines (lh_partial (ingest h io b s) @ concat cs),
       rest_line (lh_partial (ingest h io b s) @ concat cs)) \<or> cs = []"
    by (intro Cons.IH) (simp add: step)
  then show ?case
    using split_rest_append [of "lh_partial s @ b" "concat cs"] rest_line_no_newline [of "lh_partial s @ b"]
    by (auto simp: step hub_abs_def split_lines)
qed simp

lemma foldl_ingest_inv: "hub_inv s \<Longrightarrow> hub_inv (foldl (\<lambda>s b. ingest h io b s) s cs)"
  by (induction cs arbitrary: s) (auto intro: ingest_inv)

section \<open>The file holds the most recent history\<close>

definition all_ok :: "log_io" where
  "all_ok = \<lparr> io_open = True, io_reopen = True, io_rename = True, io_write = None \<rparr>"

definition file_text :: "string list \<Rightarrow> string" where
  "file_text lines = concat (map (\<lambda>l. l @ newline) lines)"

fun disk_data :: "files \<Rightarrow> string \<Rightarrow> string" where
  "disk_data disk p = (case disk p of None \<Rightarrow> [] | Some f \<Rightarrow> f_data f)"

text \<open>The sink after some lines: its size counter is right, and what the two files hold is the
  end of everything written, the rotated one being full if anything is missing.\<close>

definition sink_inv :: "host \<Rightarrow> string list \<Rightarrow> file_sink \<Rightarrow> bool" where
  "sink_inv h lines s \<longleftrightarrow>
     rolled_path (fk_path s) \<noteq> fk_path s \<and> fk_written s = length (disk_data (fk_disk s) (fk_path s)) \<and>
     (fk_file s = (fk_disk s (fk_path s) \<noteq> None)) \<and>
     (\<forall>p f. fk_disk s p = Some f \<longrightarrow> f_private f \<or> h_windows h) \<and>
     (\<exists>old. file_text lines = old @ disk_data (fk_disk s) (rolled_path (fk_path s)) @ disk_data (fk_disk s) (fk_path s) \<and>
        (old \<noteq> [] \<longrightarrow> length (disk_data (fk_disk s) (rolled_path (fk_path s))) \<ge> LOG_MAX_BYTES))"

lemma file_text_snoc: "file_text (lines @ [l]) = file_text lines @ l @ newline"
  by (simp add: file_text_def)

lemma sink_write_line_step:
  assumes "sink_inv h lines s"
  shows "sink_inv h (lines @ [l]) (sink_write_line h all_ok l s) \<and> fk_path (sink_write_line h all_ok l s) = fk_path s"
proof -
  obtain old where old: "file_text lines = old @ disk_data (fk_disk s) (rolled_path (fk_path s)) @ disk_data (fk_disk s) (fk_path s)"
      "old \<noteq> [] \<longrightarrow> length (disk_data (fk_disk s) (rolled_path (fk_path s))) \<ge> LOG_MAX_BYTES"
    using assms by (auto simp: sink_inv_def)
  have pos: "0 < LOG_MAX_BYTES" by (simp add: LOG_MAX_BYTES_def)
  have ne: "rolled_path (fk_path s) \<noteq> fk_path s" "fk_path s \<noteq> rolled_path (fk_path s)"
    using assms by (auto simp: sink_inv_def)
  show ?thesis
  proof (cases "fk_disk s (fk_path s)")
    case None
    then have "sink_write_line h all_ok l s = s\<lparr>fk_file := True, fk_written := length l + 1, fk_complained := False,
        fk_disk := (fk_disk s)(fk_path s \<mapsto> \<lparr> f_data = l @ newline, f_private = \<not> h_windows h, f_synced = False \<rparr>)\<rparr>"
      using assms pos by (simp add: sink_inv_def sink_write_line_def sink_open_def all_ok_def append_file_def)
    then show ?thesis
      using assms None old by (auto simp: sink_inv_def file_text_snoc newline_def)
  next
    case (Some f)
    then have open_f: "fk_file s" "fk_written s = length (f_data f)" using assms by (auto simp: sink_inv_def)
    show ?thesis
    proof (cases "length (f_data f) \<ge> LOG_MAX_BYTES")
      case True
      then have "sink_write_line h all_ok l s = s\<lparr>fk_file := True, fk_written := length l + 1, fk_complained := False,
          fk_disk := ((fk_disk s)(fk_path s := None, rolled_path (fk_path s) \<mapsto> f))
            (fk_path s \<mapsto> \<lparr> f_data = l @ newline, f_private = \<not> h_windows h, f_synced = False \<rparr>)\<rparr>"
        using ne pos open_f Some
        by (simp add: sink_write_line_def sink_rotate_def sink_open_def all_ok_def append_file_def)
      then show ?thesis
        using assms Some old True
        by (auto simp: sink_inv_def file_text_snoc newline_def
            intro!: exI [of _ "old @ disk_data (fk_disk s) (rolled_path (fk_path s))"])
    next
      case False
      then have "sink_write_line h all_ok l s = s\<lparr>fk_written := length (f_data f) + length l + 1, fk_complained := False,
          fk_disk := (fk_disk s)(fk_path s \<mapsto> f\<lparr>f_data := f_data f @ l @ newline, f_synced := False\<rparr>)\<rparr>"
        using assms open_f Some by (simp add: sink_write_line_def all_ok_def append_file_def)
      then show ?thesis
        using assms Some old open_f by (auto simp: sink_inv_def file_text_snoc newline_def)
    qed
  qed
qed

lemma sink_write_lines:
  "sink_inv h lines s \<Longrightarrow> sink_inv h (lines @ ls) (foldl (\<lambda>s l. sink_write_line h all_ok l s) s ls) \<and>
     fk_path (foldl (\<lambda>s l. sink_write_line h all_ok l s) s ls) = fk_path s"
proof (induction ls arbitrary: lines s)
  case (Cons l ls)
  then show ?case
    using sink_write_line_step [OF Cons.prems, of l] Cons.IH [of "lines @ [l]" "sink_write_line h all_ok l s"] by auto
qed simp

section \<open>Properties\<close>

text \<open>
  C17: the log hub refines the plain list of all lines logged: however the bytes are cut into
  writes, the lines broadcast so far are exactly the complete non-blank lines of the text, the
  buffer holds what follows the last newline, and the ring shows the most recent thousand
  lines, as long as no unterminated fragment passes 64 KiB.
\<close>

theorem log_hub_refines_history:
  assumes "\<forall>k \<le> length cs. length (rest_line (concat (take k cs))) \<le> MAX_PARTIAL"
    and "s = foldl (\<lambda>s b. ingest h io b s) (log_hub_new h disk) cs"
  shows "hub_abs s = (complete_lines (concat cs), rest_line (concat cs)) \<and>
     snapshot n s = last_n (min n RING_SIZE) (complete_lines (concat cs))"
proof -
  have abs: "hub_abs s = (complete_lines (concat cs), rest_line (concat cs))"
    using ingest_all [of cs "log_hub_new h disk" h io] assms
    by (auto simp: log_hub_new_def hub_abs_def split_lines)
  have "hub_inv (log_hub_new h disk)" by (simp add: hub_inv_def log_hub_new_def last_n_def)
  then have "hub_inv s" unfolding assms(2) by (rule foldl_ingest_inv)
  then have "snapshot n s = last_n n (last_n RING_SIZE (lh_sent s))"
    by (simp add: snapshot_def hub_inv_def last_n_def)
  with abs show ?thesis by (simp add: hub_abs_def last_n_last_n)
qed

definition ex_chunks :: "string list" where
  "ex_chunks = [''he'', ''llo '' @ newline, newline @ ''wor'']"

theorem log_hub_refines_history_witness:
  "hub_abs (foldl (\<lambda>s b. ingest ex_host (\<lambda>_. all_ok) b s) (log_hub_new ex_host Map.empty) ex_chunks)
   = ([''hello''], ''wor'')"
proof -
  have "length (rest_line (concat (take k ex_chunks))) \<le> 3" if "k \<le> 3" for k
  proof -
    have "k = 0 \<or> k = 1 \<or> k = 2 \<or> k = 3" using that by auto
    then show ?thesis by (auto simp: ex_chunks_def rest_line_def newline_def)
  qed
  moreover have "length ex_chunks = 3" "3 \<le> MAX_PARTIAL" by (simp_all add: ex_chunks_def MAX_PARTIAL_def)
  ultimately have "\<forall>k \<le> length ex_chunks. length (rest_line (concat (take k ex_chunks))) \<le> MAX_PARTIAL"
    by (metis le_trans)
  moreover have "complete_lines (concat ex_chunks) = [''hello'']" "rest_line (concat ex_chunks) = ''wor''"
    by code_simp+
  ultimately show ?thesis using log_hub_refines_history [OF _ refl, of ex_chunks] by simp
qed

text \<open>While no file operation fails, the log file and its one rotated generation together
  hold exactly the end of everything that was logged; if anything is missing from them, the
  rotated generation alone is at least 8 MiB. Both are readable by their owner only.\<close>

lemma log_file_keeps_history:
  assumes "s = foldl (\<lambda>s l. sink_write_line h all_ok l s) (file_sink_new (log_file h) Map.empty) lines"
    and "rolled_path (log_file h) \<noteq> log_file h"
  shows "\<exists>old. file_text lines =
      old @ disk_data (fk_disk s) (rolled_path (log_file h)) @ disk_data (fk_disk s) (log_file h) \<and>
      (old = [] \<or> length (disk_data (fk_disk s) (rolled_path (log_file h))) \<ge> LOG_MAX_BYTES) \<and>
      (\<forall>p f. fk_disk s p = Some f \<longrightarrow> f_private f \<or> h_windows h)"
proof -
  have "sink_inv h [] (file_sink_new (log_file h) Map.empty)"
    using assms(2) by (simp add: sink_inv_def file_sink_new_def file_text_def)
  from sink_write_lines [OF this, of lines] assms(1) show ?thesis
    by (auto simp: sink_inv_def file_sink_new_def)
qed

lemma log_file_keeps_history_example:
  "\<exists>old. file_text [''a'', ''b''] =
      old @ disk_data (fk_disk (foldl (\<lambda>s l. sink_write_line ex_host all_ok l s)
               (file_sink_new (log_file ex_host) Map.empty) [''a'', ''b''])) (rolled_path (log_file ex_host))
          @ disk_data (fk_disk (foldl (\<lambda>s l. sink_write_line ex_host all_ok l s)
               (file_sink_new (log_file ex_host) Map.empty) [''a'', ''b''])) (log_file ex_host)"
proof -
  have "rolled_path (log_file ex_host) \<noteq> log_file ex_host" by code_simp
  from log_file_keeps_history [OF refl this] show ?thesis by blast
qed

end
