(* ===== verification/Console.thy ===== *)
theory Console
  imports Console_Status Certs Secure Logging
begin

text \<open>
  The console's routes (\<open>remgr/src/console/mod.rs\<close>): the listener it serves on and how a
  change of its own settings is applied, the configuration sections, starting and stopping
  services, certificates, logs, the reverse proxy to the EasyTier dashboard, and the router
  behind the authentication layer.
\<close>

section \<open>The listener\<close>

datatype bind_failure = AddrInUse | BindOther

text \<open>What binding a port gives (the port really bound), and whether a certificate and its key
  can be loaded.\<close>

record listen_env =
  le_bind :: "nat \<Rightarrow> bind_failure + nat"
  le_tls :: "string \<Rightarrow> string \<Rightarrow> bool"

datatype prepare_error = BindError bind_failure | TlsError

definition is_addr_in_use :: "prepare_error \<Rightarrow> bool" where
  "is_addr_in_use e \<longleftrightarrow> e = BindError AddrInUse"

definition prepare_console :: "listen_env \<Rightarrow> console_config \<Rightarrow> prepare_error + prepared_console" where
  "prepare_console le cfg =
     (case le_bind le (cc_port cfg) of
        Inl e \<Rightarrow> Err (BindError e)
      | Inr port \<Rightarrow>
          if cc_tls cfg then
            (if le_tls le (cc_tls_cert cfg) (cc_tls_key cfg) then Ok (TlsListener port) else Err TlsError)
          else Ok (PlainListener port))"

definition console_apply :: "sys \<Rightarrow> listen_env \<Rightarrow> app_state \<Rightarrow> response \<times> app_state" where
  "console_apply sy le s0 =
     (let (c, s) = config_blocking (sy_free sy) s0; cfg = cf_console c in
      case prepare_console le cfg of
        Inr prepared \<Rightarrow> (ok_reply, s\<lparr>ap_pending := Some prepared, ap_console_stop := False\<rparr>)
      | Inl e \<Rightarrow>
          if is_addr_in_use e \<and> ap_serving_port s = Some (cc_port cfg)
          then (ok_reply, s\<lparr>ap_console_stop := False\<rparr>)
          else (api_error 400 ''cannot apply console settings'', s))"

text \<open>Which listener the next round serves: the pending one, the configured one, the same port
  without TLS, or the settings that last worked. The attempts of a round may find different
  environments.\<close>

definition choose_listener ::
  "(nat \<Rightarrow> listen_env) \<Rightarrow> console_config \<Rightarrow> prepared_console option \<Rightarrow> console_config option
     \<Rightarrow> prepared_console option \<times> console_config option" where
  "choose_listener le cfg pending last_good =
     (case pending of
        Some p \<Rightarrow> (Some p, last_good)
      | None \<Rightarrow>
          (case prepare_console (le 0) cfg of
             Inr p \<Rightarrow> (Some p, Some cfg)
           | Inl _ \<Rightarrow>
               (case prepare_console (le 1) (cfg\<lparr>cc_tls := False\<rparr>) of
                  Inr p \<Rightarrow> (Some p, last_good)
                | Inl _ \<Rightarrow>
                    (case last_good of
                       None \<Rightarrow> (None, last_good)
                     | Some good \<Rightarrow>
                         (case prepare_console (le 2) good of
                            Inr p \<Rightarrow> (Some p, last_good)
                          | Inl _ \<Rightarrow> (None, last_good))))))"

fun listener_port :: "prepared_console \<Rightarrow> nat" where
  "listener_port (PlainListener p) = p"
| "listener_port (TlsListener p) = p"

fun listener_tls :: "prepared_console \<Rightarrow> bool" where
  "listener_tls (PlainListener _) = False"
| "listener_tls (TlsListener _) = True"

text \<open>One round of the serve loop up to the point where requests are served (or the loop waits
  and tries again): whether it serves, the state, and the settings that last worked.\<close>

definition serve_round ::
  "sys \<Rightarrow> (nat \<Rightarrow> listen_env) \<Rightarrow> console_config option \<Rightarrow> app_state \<Rightarrow> bool \<times> app_state \<times> console_config option" where
  "serve_round sy le last_good s0 =
     (let (c, s) = config_blocking (sy_free sy) s0;
          (chosen, good) = choose_listener le (cf_console c) (ap_pending s) last_good;
          s1 = s\<lparr>ap_pending := None\<rparr>
      in case chosen of
           None \<Rightarrow> (False, s1, good)
         | Some p \<Rightarrow> (True, s1\<lparr>ap_console_stop := True, ap_serving_port := Some (listener_port p),
             ap_serving_tls := listener_tls p\<rparr>, good))"

section \<open>Logs\<close>

datatype log_answer = LogLines "string list" | NoLogFile

definition logs :: "host \<Rightarrow> files \<Rightarrow> log_hub \<Rightarrow> nat \<Rightarrow> bool \<Rightarrow> log_answer" where
  "logs h disk hub n from_file =
     (let n = max 1 (min n 20000) in
      if from_file then
        (case read_log_file h disk n of Some lines \<Rightarrow> LogLines lines | None \<Rightarrow> NoLogFile)
      else LogLines (Logging.snapshot n hub))"

section \<open>Sections of the configuration\<close>

definition get_config :: "app_state \<Rightarrow> string \<Rightarrow> response" where
  "get_config s service =
     (let c = ap_config s;
          answer = (case map_of
            [(''easytier'', JObj (ser_easytier (cf_easytier c))), (''stun_turn'', JObj (ser_stun_turn (cf_stun_turn c))),
             (''rustdesk'', JObj (ser_rustdesk (cf_rustdesk c))), (''frps'', JObj (ser_frps_config (cf_frps c))),
             (''frpc'', JObj (ser_frpc_config (cf_frpc c))),
             (''console'', JObj (filter (\<lambda>(k, _). k \<noteq> ''password_hash'') (ser_console (cf_console c)) @
                [(''password_set'', JBool (cc_password_hash (cf_console c) \<noteq> []))]))] service of
              Some j \<Rightarrow> reply 200 j
            | None \<Rightarrow> api_error 404 ''unknown service'')
      in answer)"

text \<open>\<open>Path::is_absolute\<close>: on Windows a path needs a drive or a share as well as a root.\<close>

definition is_absolute :: "host \<Rightarrow> string \<Rightarrow> bool" where
  "is_absolute h p =
     (if \<not> h_windows h then take 1 p = ''/''
      else (case p of
          a # b # c # _ \<Rightarrow>
            (is_ascii_alphanumeric a \<and> \<not> is_digit a \<and> b = CHR '':'' \<and> is_path_sep h c) \<or>
            (is_path_sep h a \<and> is_path_sep h b \<and> \<not> is_path_sep h c)
        | _ \<Rightarrow> False))"

definition tls_path_error :: "host \<Rightarrow> bool \<Rightarrow> string \<times> string \<Rightarrow> string option" where
  "tls_path_error h openbsd wp =
     (case wp of (what, path) \<Rightarrow>
        if \<not> is_absolute h path \<or> str_contains ''..'' path then Some (what @ '' must be an absolute path'')
        else if \<not> path_is_visible openbsd path then Some (what @ '' is outside the sandbox'')
        else None)"

text \<open>The checks on the console's own section, in order.\<close>

definition check_console :: "host \<Rightarrow> bool \<Rightarrow> console_config \<Rightarrow> string option" where
  "check_console h openbsd console =
     (if cc_port console = 0 then Some ''console port must not be 0''
      else if trim (cc_username console) = [] then Some ''console username must not be empty''
      else if cc_session_ttl console = 0 then Some ''session_ttl must not be 0''
      else if cc_tls console \<and> (trim (cc_tls_cert console) = [] \<or> trim (cc_tls_key console) = [])
      then Some ''TLS needs both a certificate and a key path''
      else if cc_tls console then
        (case tls_path_error h openbsd (''tls_cert'', cc_tls_cert console) of
           Some e \<Rightarrow> Some e
         | None \<Rightarrow> tls_path_error h openbsd (''tls_key'', cc_tls_key console))
      else None)"

definition set_console :: "console_config \<Rightarrow> config \<Rightarrow> string + config" where
  "set_console console c =
     Ok (c\<lparr>cf_console := console\<lparr>cc_password_hash := cc_password_hash (cf_console c)\<rparr>\<rparr>)"

definition from_value :: "'a option \<Rightarrow> ('a \<Rightarrow> string + config) \<Rightarrow> string + config" where
  "from_value parsed f = (case parsed of None \<Rightarrow> Err ''invalid value'' | Some x \<Rightarrow> f x)"

fun set_section :: "host \<Rightarrow> service \<Rightarrow> json \<Rightarrow> config \<Rightarrow> string + config" where
  "set_section h EasyTier v c = from_value (de_easytier h v) (\<lambda>p.
     if parse_ip (ec_api_addr p) = None then Err ''api_addr must be an IP address''
     else Ok (c\<lparr>cf_easytier := p\<rparr>))"
| "set_section h StunTurn v c = from_value (de_stun_turn h v) (\<lambda>p. Ok (c\<lparr>cf_stun_turn := p\<rparr>))"
| "set_section h RustDesk v c = from_value (de_rustdesk v) (\<lambda>p. Ok (c\<lparr>cf_rustdesk := p\<rparr>))"
| "set_section h Frps v c = from_value (de_frps_config v) (\<lambda>p. Ok (c\<lparr>cf_frps := p\<rparr>))"
| "set_section h Frpc v c = from_value (de_frpc_config v) (\<lambda>p. Ok (c\<lparr>cf_frpc := p\<rparr>))"

definition put_config :: "sys \<Rightarrow> bool \<Rightarrow> string \<Rightarrow> json \<Rightarrow> app_state \<Rightarrow> response \<times> app_state" where
  "put_config sy openbsd service v s =
     (if v = JObj [] then (api_error 400 ''empty body'', s)
      else if service = ''console'' then
        (case de_console (sy_host sy) v of
           None \<Rightarrow> (api_error 400 ''invalid value'', s)
         | Some console \<Rightarrow>
             (case check_console (sy_host sy) openbsd console of
                Some e \<Rightarrow> (api_error 400 e, s)
              | None \<Rightarrow>
                  (case edit_config sy 0 (set_console console) s of
                     (Inl _, s1) \<Rightarrow> (api_error 500 ''could not save'', s1)
                   | (Inr _, s1) \<Rightarrow> (ok_reply, s1))))
      else case service_of service of
        None \<Rightarrow> (api_error 404 ''unknown service'', s)
      | Some sv \<Rightarrow>
          (case edit_config sy 0 (set_section (sy_host sy) sv v) s of
             (Inl _, s1) \<Rightarrow> (api_error 400 ''rejected or not saved'', s1)
           | (Inr _, s1) \<Rightarrow>
               (case module_apply sy 1 sv s1 of
                  (Inr _, s2) \<Rightarrow> (ok_reply, s2)
                | (Inl _, s2) \<Rightarrow> (api_error 500 ''restart failed'', s2))))"

section \<open>Starting and stopping services\<close>

fun set_enabled_flag :: "service \<Rightarrow> bool \<Rightarrow> config \<Rightarrow> config" where
  "set_enabled_flag EasyTier b c = c\<lparr>cf_easytier := (cf_easytier c)\<lparr>ec_enabled := b\<rparr>\<rparr>"
| "set_enabled_flag StunTurn b c = c\<lparr>cf_stun_turn := (cf_stun_turn c)\<lparr>sc_enabled := b\<rparr>\<rparr>"
| "set_enabled_flag RustDesk b c = c\<lparr>cf_rustdesk := (cf_rustdesk c)\<lparr>rc_enabled := b\<rparr>\<rparr>"
| "set_enabled_flag Frps b c = c\<lparr>cf_frps := (cf_frps c)\<lparr>enabled := b\<rparr>\<rparr>"
| "set_enabled_flag Frpc b c = c\<lparr>cf_frpc := (cf_frpc c)\<lparr>fc_enabled := b\<rparr>\<rparr>"

text \<open>The flag is set in memory first and saved afterwards; the callers only log a failure.\<close>

definition set_enabled :: "sys \<Rightarrow> nat \<Rightarrow> service \<Rightarrow> bool \<Rightarrow> app_state \<Rightarrow> (config_error + unit) \<times> app_state" where
  "set_enabled sy k sv b s = save_config sy k (s\<lparr>ap_config := set_enabled_flag sv b (ap_config s)\<rparr>)"

definition service_action :: "sys \<Rightarrow> string \<Rightarrow> string \<Rightarrow> app_state \<Rightarrow> response \<times> app_state" where
  "service_action sy service action s0 =
     (case service_of service of
        None \<Rightarrow> (api_error 404 ''unknown service'', s0)
      | Some sv \<Rightarrow>
          (let starting = (action = ''start'' \<or> action = ''restart'');
               s = (if starting then snd (set_enabled sy 0 sv True s0) else s0)
           in if action \<notin> {''start'', ''stop'', ''restart''} then (api_error 400 ''unknown action'', s)
              else
                (let (r, s1) = (if action = ''start'' then module_start sy 1 sv s
                                else if action = ''stop'' then (Ok (), module_stop sv s)
                                else module_start sy 1 sv (module_stop sv s))
                 in case r of
                      Inl _ \<Rightarrow> (api_error 500 ''failed'', s1)
                    | Inr _ \<Rightarrow>
                        (ok_reply,
                         if action = ''start'' \<or> action = ''stop''
                         then snd (set_enabled sy 2 sv (action = ''start'') s1) else s1))))"

section \<open>Certificates\<close>

record cert_env =
  cv_mint :: "string list \<Rightarrow> string \<Rightarrow> nat \<Rightarrow> (string \<times> string) option"
  cv_fails :: "nat \<Rightarrow> nat option"
  cv_chmod :: "bool \<times> bool"

definition cert_service :: "string \<Rightarrow> (service option \<times> string list) option" where
  "cert_service service =
     (if service = ''turn'' \<or> service = ''stun_turn''
      then Some (Some StunTurn, [''stun_turn.cert_path'', ''stun_turn.key_path''])
      else if service = ''frps'' then Some (Some Frps, [''frps.tls_cert_path'', ''frps.tls_key_path''])
      else if service = ''console'' then Some (None, [''console.tls_cert'', ''console.tls_key''])
      else None)"

fun set_cert_paths :: "service option \<Rightarrow> string \<Rightarrow> string \<Rightarrow> config \<Rightarrow> string + config" where
  "set_cert_paths (Some StunTurn) cert key c =
     Ok (c\<lparr>cf_stun_turn := (cf_stun_turn c)\<lparr>sc_cert_path := cert, sc_key_path := key\<rparr>\<rparr>)"
| "set_cert_paths (Some Frps) cert key c =
     Ok (c\<lparr>cf_frps := (cf_frps c)\<lparr>tls_cert_path := Some cert, tls_key_path := Some key\<rparr>\<rparr>)"
| "set_cert_paths None cert key c =
     Ok (c\<lparr>cf_console := (cf_console c)\<lparr>cc_tls_cert := cert, cc_tls_key := key\<rparr>\<rparr>)"
| "set_cert_paths _ cert key c = Ok c"

definition point_service_at_cert ::
  "sys \<Rightarrow> string \<Rightarrow> string \<Rightarrow> string \<Rightarrow> app_state \<Rightarrow> string list \<times> app_state" where
  "point_service_at_cert sy service cert key s =
     (case cert_service service of
        None \<Rightarrow> ([], s)
      | Some (target, updated) \<Rightarrow>
          (case edit_config sy 0 (set_cert_paths target cert key) s of
             (Inl _, s1) \<Rightarrow> ([], s1)
           | (Inr _, s1) \<Rightarrow>
               (updated, case target of Some sv \<Rightarrow> snd (module_apply sy 1 sv s1) | None \<Rightarrow> s1)))"

definition cert_answer ::
  "sys \<Rightarrow> string \<Rightarrow> app_state \<Rightarrow> (cert_error + string \<times> string) \<times> files \<Rightarrow> response \<times> app_state" where
  "cert_answer sy service s result =
     (case result of
        (Inl _, disk) \<Rightarrow> (api_error 500 ''certificate not written'', s\<lparr>ap_disk := disk\<rparr>)
      | (Inr (cert, key), disk) \<Rightarrow>
          (case point_service_at_cert sy service cert key (s\<lparr>ap_disk := disk\<rparr>) of
             (configured, s1) \<Rightarrow>
               (reply 200 (JObj [(''ok'', JBool True), (''cert_path'', JStr cert), (''key_path'', JStr key),
                  (''configured'', json_of_strs configured)]), s1)))"

definition certs_generate ::
  "sys \<Rightarrow> cert_env \<Rightarrow> string \<Rightarrow> string \<Rightarrow> nat \<Rightarrow> app_state \<Rightarrow> response \<times> app_state" where
  "certs_generate sy cv service domain days s =
     (if \<not> valid_service_name service then (api_error 400 ''invalid service name'', s)
      else if trim domain = [] then (api_error 400 ''domain must not be empty'', s)
      else if days = 0 \<or> days > MAX_CERT_DAYS then (api_error 400 ''days must be between 1 and 3650'', s)
      else cert_answer sy service s
             (generate_service_cert (cv_mint cv) (sy_host sy) (cv_fails cv) (cv_chmod cv)
                (cert_dir (sy_host sy)) service domain days (ap_disk s)))"

definition certs_upload ::
  "sys \<Rightarrow> cert_env \<Rightarrow> string \<Rightarrow> string \<Rightarrow> string \<Rightarrow> app_state \<Rightarrow> response \<times> app_state" where
  "certs_upload sy cv service cert_pem key_pem s =
     (if \<not> valid_service_name service then (api_error 400 ''invalid service name'', s)
      else if \<not> str_contains ''BEGIN CERTIFICATE'' cert_pem \<or> \<not> str_contains ''PRIVATE KEY'' key_pem
      then (api_error 400 ''not PEM'', s)
      else cert_answer sy service s
             (write_service_cert (sy_host sy) (cv_fails cv) (cv_chmod cv)
                (cert_dir (sy_host sy)) service cert_pem key_pem (ap_disk s)))"

section \<open>The reverse proxy\<close>

definition MAX_ET_RESPONSE :: nat where "MAX_ET_RESPONSE = 16 * 1024 * 1024"

definition et_url :: "easytier_config \<Rightarrow> string \<Rightarrow> string option \<Rightarrow> string" where
  "et_url cfg path query =
     (let rest = (case strip_prefix ''/et'' path of Some r \<Rightarrow> r | None \<Rightarrow> []);
          q = (case query of Some q \<Rightarrow> ''?'' @ q | None \<Rightarrow> [])
      in ''http://'' @ ec_api_addr cfg @ '':'' @ dec_string (ec_api_port cfg) @ ''/'' @
         dropWhile (\<lambda>c. c = CHR ''/'') rest @ q)"

text \<open>The headers sent on, and those of the answer that reach the browser. A header whose value
  is not text is left out of the model.\<close>

definition forward_header :: "string \<times> string \<Rightarrow> (string \<times> string) option" where
  "forward_header nv =
     (case nv of (n, v) \<Rightarrow>
        if list_ex (eq_ignore_ascii_case n) [''host'', ''connection'', ''content-length'', ''accept-encoding''] then None
        else if eq_ignore_ascii_case n ''cookie'' then map_option (Pair ''cookie'') (drop_console_cookie v)
        else Some (n, v))"

definition return_header :: "string \<times> string \<Rightarrow> (string \<times> string) option" where
  "return_header nv =
     (case nv of (n, v) \<Rightarrow>
        if list_ex (eq_ignore_ascii_case n) [''connection'', ''transfer-encoding'', ''content-encoding'', ''content-length'']
        then None
        else if eq_ignore_ascii_case n ''set-cookie'' then Some (''set-cookie'', scope_cookie_to_et v)
        else Some (n, v))"

text \<open>The body in chunks, up to a limit; \<open>None\<close> is a failed read.\<close>

fun read_capped :: "nat \<Rightarrow> bytes \<Rightarrow> bytes option list \<Rightarrow> bytes option" where
  "read_capped cap out [] = Some out"
| "read_capped cap out (None # rest) = None"
| "read_capped cap out (Some chunk # rest) =
     (if length out + length chunk > cap then None else read_capped cap (out @ chunk) rest)"

datatype et_upstream = EtAnswer nat "(string \<times> string) list" "bytes option list" | EtUnreachable | EtTimeout

definition easytier_web_proxy ::
  "(string \<Rightarrow> (string \<times> string) list \<Rightarrow> et_upstream) \<Rightarrow> easytier_config \<Rightarrow> string \<Rightarrow> string option
     \<Rightarrow> (string \<times> string) list \<Rightarrow> bool \<Rightarrow> nat \<times> (string \<times> string) list \<times> bytes" where
  "easytier_web_proxy upstream cfg path query headers body_ok =
     (if \<not> body_ok then (400, [], [])
      else case upstream (et_url cfg path query) (List.map_filter forward_header headers) of
        EtUnreachable \<Rightarrow> (502, [], [])
      | EtTimeout \<Rightarrow> (504, [], [])
      | EtAnswer code hs chunks \<Rightarrow>
          (case read_capped MAX_ET_RESPONSE [] chunks of
             None \<Rightarrow> (502, [], [])
           | Some body \<Rightarrow> (code, List.map_filter return_header hs, body)))"

section \<open>The router\<close>

datatype endpoint =
    EIndex
  | ELogin
  | ELogout
  | EStatus
  | EConfig string
  | EService string string
  | ELogs
  | EWsLogs
  | ECertGenerate
  | ECertUpload
  | EPassword
  | EApply
  | EEt

definition route :: "string \<Rightarrow> endpoint option" where
  "route path =
     (let ps = split_on CHR ''/'' path in
      if ps = [[], []] then Some EIndex
      else if ps = [[], ''api'', ''login''] then Some ELogin
      else if ps = [[], ''api'', ''logout''] then Some ELogout
      else if ps = [[], ''api'', ''status''] then Some EStatus
      else if ps = [[], ''api'', ''logs''] then Some ELogs
      else if ps = [[], ''api'', ''ws'', ''logs''] then Some EWsLogs
      else if ps = [[], ''api'', ''system'', ''certs'', ''generate''] then Some ECertGenerate
      else if ps = [[], ''api'', ''system'', ''certs'', ''upload''] then Some ECertUpload
      else if ps = [[], ''api'', ''console'', ''password''] then Some EPassword
      else if ps = [[], ''api'', ''console'', ''apply''] then Some EApply
      else if take 2 ps = [[], ''et''] then Some EEt
      else if length ps = 4 \<and> take 3 ps = [[], ''api'', ''config''] \<and> ps ! 3 \<noteq> [] then Some (EConfig (ps ! 3))
      else if length ps = 5 \<and> take 3 ps = [[], ''api'', ''service''] \<and> ps ! 3 \<noteq> [] \<and> ps ! 4 \<noteq> []
      then Some (EService (ps ! 3) (ps ! 4))
      else None)"

text \<open>A route for GET answers HEAD as well.\<close>

definition is_get :: "http_method \<Rightarrow> bool" where
  "is_get m \<longleftrightarrow> m = GET \<or> m = OtherMethod ''HEAD''"

definition method_allowed :: "http_method \<Rightarrow> endpoint \<Rightarrow> bool" where
  "method_allowed m e =
     (case e of
        EEt \<Rightarrow> True
      | EIndex \<Rightarrow> is_get m
      | EStatus \<Rightarrow> is_get m
      | ELogs \<Rightarrow> is_get m
      | EWsLogs \<Rightarrow> is_get m
      | EConfig _ \<Rightarrow> is_get m \<or> m = PUT
      | _ \<Rightarrow> m = POST)"

record console_env =
  cn_openbsd :: bool
  cn_listen :: listen_env
  cn_cert :: cert_env
  cn_et :: "request \<Rightarrow> response"
  cn_hub :: log_hub
  cn_log_query :: "nat \<times> bool"
  cn_status :: status_env

text \<open>A JSON body that has to have a certain shape: 400 when it is not JSON, 422 when it does
  not fit.\<close>

definition with_body ::
  "(json \<Rightarrow> 'a option) \<Rightarrow> request \<Rightarrow> ('a \<Rightarrow> app_state \<Rightarrow> response \<times> app_state) \<Rightarrow> app_state \<Rightarrow> response \<times> app_state" where
  "with_body rd rq f s =
     (case rq_body rq of
        None \<Rightarrow> (reply 400 JNull, s)
      | Some j \<Rightarrow> (case rd j of None \<Rightarrow> (reply 422 JNull, s) | Some x \<Rightarrow> f x s))"

definition de_cert_gen :: "json \<Rightarrow> (string \<times> string \<times> nat) option" where
  "de_cert_gen j = do {
     kvs \<leftarrow> struct_fields [''service'', ''domain'', ''days''] j;
     sv \<leftarrow> de_required ''service'' de_str kvs;
     dm \<leftarrow> de_required ''domain'' de_str kvs;
     dy \<leftarrow> de_field [''days''] (de_unsigned 32) 825 kvs;
     Some (sv, dm, dy) }"

definition de_cert_upload :: "json \<Rightarrow> (string \<times> string \<times> string) option" where
  "de_cert_upload j = do {
     kvs \<leftarrow> struct_fields [''service'', ''cert_pem'', ''key_pem''] j;
     sv \<leftarrow> de_required ''service'' de_str kvs;
     cp \<leftarrow> de_required ''cert_pem'' de_str kvs;
     kp \<leftarrow> de_required ''key_pem'' de_str kvs;
     Some (sv, cp, kp) }"

definition dispatch :: "sys \<Rightarrow> web \<Rightarrow> console_env \<Rightarrow> request \<Rightarrow> app_state \<Rightarrow> response \<times> app_state" where
  "dispatch sy wb cn rq s =
     (case route (rq_path rq) of
        None \<Rightarrow> (reply 404 JNull, s)
      | Some e \<Rightarrow>
          if \<not> method_allowed (rq_method rq) e then (reply 405 JNull, s)
          else case e of
            EIndex \<Rightarrow> (reply 200 JNull, s)
          | ELogin \<Rightarrow> with_body de_login_req rq (login sy wb) s
          | ELogout \<Rightarrow> logout rq s
          | EStatus \<Rightarrow> status sy (cn_status cn) s
          | EConfig service \<Rightarrow>
              if is_get (rq_method rq) then (get_config s service, s)
              else with_body Some rq (put_config sy (cn_openbsd cn) service) s
          | EService service action \<Rightarrow> service_action sy service action s
          | ELogs \<Rightarrow>
              ((case logs (sy_host sy) (ap_disk s) (cn_hub cn) (fst (cn_log_query cn)) (snd (cn_log_query cn)) of
                  LogLines ls \<Rightarrow> reply 200 (json_of_strs ls)
                | NoLogFile \<Rightarrow> api_error 404 ''no log file''), s)
          | EWsLogs \<Rightarrow> (reply 101 JNull, s)
          | ECertGenerate \<Rightarrow>
              with_body de_cert_gen rq (\<lambda>(service, domain, days). certs_generate sy (cn_cert cn) service domain days) s
          | ECertUpload \<Rightarrow>
              with_body de_cert_upload rq (\<lambda>(service, cert, key). certs_upload sy (cn_cert cn) service cert key) s
          | EPassword \<Rightarrow> with_body de_password_change rq (change_password sy wb rq) s
          | EApply \<Rightarrow> console_apply sy (cn_listen cn) s
          | EEt \<Rightarrow> (cn_et cn rq, snd (config_blocking (sy_free sy) s)))"

definition handle :: "sys \<Rightarrow> web \<Rightarrow> console_env \<Rightarrow> request \<Rightarrow> app_state \<Rightarrow> response \<times> app_state" where
  "handle sy wb cn rq s = auth_mw wb (dispatch sy wb cn rq) rq s"

section \<open>The gate\<close>

text \<open>Whether a request carries a token that is valid now.\<close>

definition authenticated :: "web \<Rightarrow> request \<Rightarrow> app_state \<Rightarrow> bool" where
  "authenticated wb rq s \<longleftrightarrow>
     (case request_token (rq_cookie rq) of None \<Rightarrow> False | Some t \<Rightarrow> sess_valid (wb_now wb) t (ap_sessions s))"

lemma session_ok_spec:
  "session_ok wb rq s = (b, s') \<Longrightarrow> b = authenticated wb rq s \<and> s'\<lparr>ap_sessions := ap_sessions s\<rparr> = s \<and>
     (\<forall>t n. wb_now wb \<le> n \<longrightarrow> sess_valid n t (ap_sessions s') = sess_valid n t (ap_sessions s)) \<and> (b \<longrightarrow> s' = s)"
  by (auto simp: session_ok_def sess_check_def authenticated_def sess_valid_def split: option.splits if_splits)

lemma public_routes: "is_public path \<Longrightarrow> route path \<in> {Some EIndex, Some ELogin}"
  unfolding is_public_def by (elim disjE) (simp_all add: route_def)


definition ex_console_env :: console_env where
  "ex_console_env = \<lparr> cn_openbsd = True, cn_listen = \<lparr> le_bind = (\<lambda>p. Ok p), le_tls = (\<lambda>_ _. False) \<rparr>,
     cn_cert = \<lparr> cv_mint = (\<lambda>_ _ _. None), cv_fails = (\<lambda>_. None), cv_chmod = (True, True) \<rparr>,
     cn_et = (\<lambda>_. reply 200 JNull), cn_hub = log_hub_new ex_host Map.empty, cn_log_query = (300, False),
     cn_status = ex_status_env \<rparr>"

definition ex_stop_rq :: request where
  "ex_stop_rq = \<lparr> rq_method = POST, rq_path = ''/api/service/frps/stop'', rq_cookie = None, rq_csrf = True,
     rq_body = None \<rparr>"


end
