(* ===== verification/Console_Inv.thy ===== *)
theory Console_Inv
  imports Console
begin

text \<open>
  Properties of the console that span its handlers: every request keeps the configuration well
  typed and the modules consistent, the password hash is out of reach of the configuration
  routes, services follow the buttons, the listener is never lost, and what is forwarded to
  the EasyTier dashboard carries no console session.
\<close>

section \<open>Typed configurations\<close>

lemma de_unsigned_bound: "de_unsigned w j = Some n \<Longrightarrow> n < 2 ^ w"
  by (cases j) (auto split: if_splits simp: nat_less_iff)

lemma one_of_bound: "one_of (de_unsigned w) d kvs = Some n \<Longrightarrow> d < 2 ^ w \<Longrightarrow> n < 2 ^ w"
  by (induction "de_unsigned w" d kvs rule: one_of.induct) (auto dest: de_unsigned_bound)

lemma de_field_bound: "de_field names (de_unsigned w) d kvs = Some n \<Longrightarrow> d < 2 ^ w \<Longrightarrow> n < 2 ^ w"
  unfolding de_field_def by (rule one_of_bound)

lemma opt_path_nonempty: "opt_path_deserialize j = Some p \<Longrightarrow> p \<noteq> Some []"
  by (auto simp: opt_path_deserialize_def split: option.splits if_splits)

lemma one_of_path: "one_of opt_path_deserialize d kvs = Some p \<Longrightarrow> d \<noteq> Some [] \<Longrightarrow> p \<noteq> Some []"
  by (induction opt_path_deserialize d kvs rule: one_of.induct) (auto dest: opt_path_nonempty)

lemma de_field_path: "de_field names opt_path_deserialize d kvs = Some p \<Longrightarrow> d \<noteq> Some [] \<Longrightarrow> p \<noteq> Some []"
  unfolding de_field_def by (rule one_of_path)

definition wf_console :: "console_config \<Rightarrow> bool" where
  "wf_console c \<longleftrightarrow> cc_port c < 2 ^ 16 \<and> cc_session_ttl c < 2 ^ 64"

definition wf_easytier :: "easytier_config \<Rightarrow> bool" where
  "wf_easytier c \<longleftrightarrow> ec_config_server_port c < 2 ^ 16 \<and> ec_api_port c < 2 ^ 16"

definition wf_stun_turn :: "stun_turn_config \<Rightarrow> bool" where
  "wf_stun_turn c \<longleftrightarrow> sc_stun_port c < 2 ^ 16 \<and> sc_tls_port c < 2 ^ 16 \<and>
     sc_relay_min_port c < 2 ^ 16 \<and> sc_relay_max_port c < 2 ^ 16"

definition wf_rustdesk :: "rustdesk_config \<Rightarrow> bool" where
  "wf_rustdesk c \<longleftrightarrow> rc_relay_port c < 2 ^ 16 \<and> rc_hbbs_port c < 2 ^ 16"

lemma wf_config_sections:
  "wf_config c \<longleftrightarrow> wf_console (cf_console c) \<and> wf_easytier (cf_easytier c) \<and> wf_stun_turn (cf_stun_turn c) \<and>
     wf_rustdesk (cf_rustdesk c) \<and> wf_frps_config (cf_frps c) \<and> paths_set (cf_frps c) \<and> wf_frpc_config (cf_frpc c)"
  by (auto simp: wf_config_def wf_console_def wf_easytier_def wf_stun_turn_def wf_rustdesk_def)

lemma default_config_wf: "wf_config (default_config h)"
  by (simp add: default_config_def wf_config_def default_console_def default_easytier_def
      default_stun_turn_def default_rustdesk_def default_frps_config_def default_frpc_config_def
      wf_frps_config_def paths_set_def wf_frpc_config_def frps_defaults frpc_defaults)

lemma defaults_wf:
  "wf_console (default_console h)" "wf_easytier (default_easytier h)" "wf_stun_turn (default_stun_turn h)"
  "wf_rustdesk default_rustdesk" "wf_frps_config default_frps_config" "paths_set default_frps_config"
  "wf_frpc_config default_frpc_config"
  using default_config_wf [of h] by (simp_all add: wf_config_sections default_config_def)

lemma de_console_wf: "de_console h j = Some c \<Longrightarrow> wf_console c"
  using defaults_wf(1) [of h]
  by (auto simp: de_console_def Let_def wf_console_def dest!: de_field_bound split: Option.bind_splits)

lemma de_easytier_wf: "de_easytier h j = Some c \<Longrightarrow> wf_easytier c"
  using defaults_wf(2) [of h]
  by (auto simp: de_easytier_def Let_def wf_easytier_def dest!: de_field_bound split: Option.bind_splits)

lemma de_stun_turn_wf: "de_stun_turn h j = Some c \<Longrightarrow> wf_stun_turn c"
  using defaults_wf(3) [of h]
  by (auto simp: de_stun_turn_def Let_def wf_stun_turn_def dest!: de_field_bound split: Option.bind_splits)

lemma de_rustdesk_wf: "de_rustdesk j = Some c \<Longrightarrow> wf_rustdesk c"
  using defaults_wf(4)
  by (auto simp: de_rustdesk_def Let_def wf_rustdesk_def dest!: de_field_bound split: Option.bind_splits)

lemma de_frps_wf: "de_frps_config j = Some c \<Longrightarrow> wf_frps_config c \<and> paths_set c"
  by (auto simp: de_frps_config_def Let_def wf_frps_config_def paths_set_def frps_defaults
      dest!: de_field_bound de_field_path split: Option.bind_splits)

lemma parse_fields_ports:
  "parse_fields toks p ports seen = Ok (p', ports') \<Longrightarrow> list_all (\<lambda>n. n < 2 ^ 16) ports \<Longrightarrow>
     list_all (\<lambda>n. n < 2 ^ 16) ports'"
  by (induction toks p ports seen rule: parse_fields.induct)
     (auto split: if_splits option.splits dest: parse_unsigned_bound)

lemma parse_line_wf: "parse_line s = Ok p \<Longrightarrow> wf_proxy p"
  by (auto simp: parse_line_def wf_proxy_def bind_result_ok_iff list_all_length split: list.splits if_splits
      dest!: parse_fields_ports)

lemma de_frpc_proxy_wf: "de_frpc_proxy j = Some p \<Longrightarrow> wf_proxy p"
  by (auto simp: de_frpc_proxy_def parse_line_wf de_proxy_fields_def wf_proxy_def dest: de_field_bound parse_line_wf
      split: json.splits sum.splits Option.bind_splits)

lemma traverse_all: "traverse f xs = Some ys \<Longrightarrow> (\<And>x y. f x = Some y \<Longrightarrow> P y) \<Longrightarrow> list_all P ys"
  by (induction xs arbitrary: ys) (auto split: option.splits)

lemma de_list_all: "de_list f j = Some ys \<Longrightarrow> (\<And>x y. f x = Some y \<Longrightarrow> P y) \<Longrightarrow> list_all P ys"
  by (cases j) (auto dest: traverse_all)

lemma one_of_all: "one_of rd d kvs = Some x \<Longrightarrow> P d \<Longrightarrow> (\<And>j y. rd j = Some y \<Longrightarrow> P y) \<Longrightarrow> P x"
  by (cases "(rd, d, kvs)" rule: one_of.cases) auto

lemma de_field_all: "de_field names rd d kvs = Some x \<Longrightarrow> P d \<Longrightarrow> (\<And>j y. rd j = Some y \<Longrightarrow> P y) \<Longrightarrow> P x"
  unfolding de_field_def by (rule one_of_all)

lemma de_field_list_all:
  "de_field names (de_list f) [] kvs = Some ys \<Longrightarrow> (\<And>x y. f x = Some y \<Longrightarrow> P y) \<Longrightarrow> list_all P ys"
  by (rule de_field_all [where P = "list_all P"], assumption) (simp, rule de_list_all)

lemma de_frpc_wf:
  assumes "de_frpc_config j = Some c"
  shows "wf_frpc_config c"
proof -
  from assms obtain kvs where
    p: "de_field [''server_port''] (de_unsigned 16) FrpcConfig.d_server_port kvs = Some (fc_server_port c)"
    "de_field [''connect_timeout''] (de_unsigned 64) d_connect_timeout kvs = Some (fc_connect_timeout c)"
    "de_field [''pool_count''] (de_unsigned 32) d_pool_count kvs = Some (fc_pool_count c)"
    "de_field [''proxies''] (de_list de_frpc_proxy) [] kvs = Some (fc_proxies c)"
    by (auto simp: de_frpc_config_def split: Option.bind_splits)
  have "list_all wf_proxy (fc_proxies c)"
    using p(4) de_frpc_proxy_wf by (rule de_field_list_all)
  then show ?thesis
    using de_field_bound [OF p(1)] de_field_bound [OF p(2)] de_field_bound [OF p(3)]
    by (simp add: wf_frpc_config_def frpc_defaults)
qed

lemma de_config_wf:
  assumes "de_config h j = Some c"
  shows "wf_config c"
proof -
  from assms obtain kvs co et st rd fs fc where
    p: "de_field [''console''] (de_console h) (default_console h) kvs = Some co"
    "de_field [''easytier''] (de_easytier h) (default_easytier h) kvs = Some et"
    "de_field [''stun_turn''] (de_stun_turn h) (default_stun_turn h) kvs = Some st"
    "de_field [''rustdesk''] de_rustdesk default_rustdesk kvs = Some rd"
    "de_field [''frps''] de_frps_config default_frps_config kvs = Some fs"
    "de_field [''frpc''] de_frpc_config default_frpc_config kvs = Some fc"
    and c: "c = \<lparr> cf_console = co, cf_easytier = et, cf_stun_turn = st, cf_rustdesk = rd, cf_frps = fs,
       cf_frpc = fc, cf_config_path = [] \<rparr>"
    by (auto simp: de_config_def split: Option.bind_splits)
  have "wf_console co" using p(1) defaults_wf(1) de_console_wf by (rule de_field_all)
  moreover have "wf_easytier et" using p(2) defaults_wf(2) de_easytier_wf by (rule de_field_all)
  moreover have "wf_stun_turn st" using p(3) defaults_wf(3) de_stun_turn_wf by (rule de_field_all)
  moreover have "wf_rustdesk rd" using p(4) defaults_wf(4) de_rustdesk_wf by (rule de_field_all)
  moreover have "wf_frps_config fs \<and> paths_set fs"
    using p(5) _ de_frps_wf by (rule de_field_all) (simp add: defaults_wf)
  moreover have "wf_frpc_config fc" using p(6) defaults_wf(7) de_frpc_wf by (rule de_field_all)
  ultimately show ?thesis by (simp add: c wf_config_sections)
qed

lemma path_join_not_Nil: "b \<noteq> [] \<Longrightarrow> path_join h a b \<noteq> []"
  by (simp add: path_join_def)

lemma apply_platform_defaults_wf: "wf_config c \<Longrightarrow> wf_config (apply_platform_defaults h c)"
  by (auto simp: wf_config_def apply_platform_defaults_def wf_frps_config_def paths_set_def replace_default_def
      path_in_cert_dir_def path_join_not_Nil split: if_splits)

lemma config_load_wf: "config_load rd h fs path = Ok c \<Longrightarrow> wf_config c"
proof -
  assume "config_load rd h fs path = Ok c"
  then obtain c0 where c0: "c = (apply_platform_defaults h c0)\<lparr>cf_config_path := path\<rparr>"
    "c0 = default_config h \<or> (\<exists>j. de_config h j = Some c0)"
    by (auto simp: config_load_def bind_result_ok_iff split: option.splits Option.bind_splits)
  then have "wf_config (apply_platform_defaults h c0)"
    using default_config_wf de_config_wf apply_platform_defaults_wf by blast
  then show ?thesis by (simp add: c0(1) wf_config_def)
qed

section \<open>The invariant of the application\<close>

definition cfgs_ok :: "app_state \<Rightarrow> bool" where
  "cfgs_ok s \<longleftrightarrow> wf_config (ap_config s) \<and> wf_config (ap_snapshot s)"

definition app_inv :: "app_state \<Rightarrow> bool" where
  "app_inv s \<longleftrightarrow> cfgs_ok s \<and> modules_inv s"

lemma modules_inv_cong: "ap_modules s' = ap_modules s \<Longrightarrow> modules_inv s' = modules_inv s"
  by (simp add: modules_inv_parts)

lemma config_blocking_cfgs: "cfgs_ok s \<Longrightarrow> cfgs_ok (snd (config_blocking free s))"
  by (simp add: cfgs_ok_def config_blocking_def)

lemma config_blocking_wf: "cfgs_ok s \<Longrightarrow> wf_config (fst (config_blocking free s))"
  by (simp add: cfgs_ok_def config_blocking_def)

lemma config_blocking_inv: "app_inv s \<Longrightarrow> app_inv (snd (config_blocking free s))"
  using modules_inv_cong [of "snd (config_blocking free s)" s] by (simp add: app_inv_def config_blocking_cfgs)

lemma save_config_snapshot [simp]: "ap_snapshot (snd (save_config sy k s)) = ap_snapshot s"
  by (simp add: save_config_def split_beta)

lemma with_modules_snapshot [simp]: "ap_snapshot (with_modules f s) = ap_snapshot s"
  by (simp add: with_modules_def)

lemma pin_token_cfgs: "cfgs_ok s \<Longrightarrow> cfgs_ok (pin_token sy k t s)"
  by (simp add: pin_token_def cfgs_ok_def Let_def wf_config_def wf_frps_config_def paths_set_def)

lemma cfgs_ok_modules [simp]: "cfgs_ok (with_modules f s) = cfgs_ok s"
  by (simp add: cfgs_ok_def)

lemma start_config_cfgs: "cfgs_ok s \<Longrightarrow> cfgs_ok (snd (start_config sy sv s))"
  by (simp add: start_config_def config_blocking_cfgs)

lemma frps_start_cfgs: "cfgs_ok s \<Longrightarrow> cfgs_ok (snd (frps_start sy k s))"
  using config_blocking_cfgs [of s "sy_free sy"] by (auto simp: frps_start_def Let_def split_beta pin_token_cfgs)

lemma frpc_adopt_cfgs: "cfgs_ok s \<Longrightarrow> cfgs_ok (snd (frpc_adopt sy s))"
  by (simp add: frpc_adopt_def Let_def split_beta config_blocking_cfgs)

lemma frpc_start_cfgs: "cfgs_ok s \<Longrightarrow> cfgs_ok (snd (frpc_start_locked sy s))"
  using frpc_adopt_cfgs [of s sy]
  by (auto simp: frpc_start_locked_def Let_def split_beta split: sum.splits)

lemma module_start_cfgs: "cfgs_ok s \<Longrightarrow> cfgs_ok (snd (module_start sy k sv s))"
  by (cases sv) (simp_all add: Let_def split_beta start_config_cfgs frps_start_cfgs frpc_start_cfgs)

lemma module_stop_cfgs: "cfgs_ok s \<Longrightarrow> cfgs_ok (module_stop sv s)"
  by (cases sv) (simp_all add: frps_stop_def frpc_stop_def Let_def)

lemma module_start_app: "app_inv s \<Longrightarrow> app_inv (snd (module_start sy k sv s))"
  by (simp add: app_inv_def module_start_cfgs svc.start_inv)

lemma module_stop_app: "app_inv s \<Longrightarrow> app_inv (module_stop sv s)"
  by (simp add: app_inv_def module_stop_cfgs svc.stop_inv)

lemma apply_look_cfgs: "cfgs_ok s \<Longrightarrow> cfgs_ok (snd (apply_look sy sv s))"
  by (simp add: apply_look_def module_status_def Let_def frpc_adopt_cfgs config_blocking_cfgs)

lemma module_apply_app: "app_inv s \<Longrightarrow> app_inv (snd (module_apply sy k sv s))"
  unfolding module_apply_restart app_inv_def
  using svc.restart_inv [of s sy sv k]
  by (auto simp: restart_if_running_def split_beta Let_def apply_look_cfgs module_stop_cfgs module_start_cfgs)

lemma edit_config_inv:
  assumes "app_inv s" "\<And>c c'. wf_config c \<Longrightarrow> edit c = Ok c' \<Longrightarrow> wf_config c'"
  shows "app_inv (snd (edit_config sy k edit s))"
proof -
  have "modules_inv (snd (edit_config sy k edit s)) = modules_inv s"
    by (rule modules_inv_cong) (simp add: edit_config_def split: sum.splits prod.splits)
  moreover have "cfgs_ok (snd (edit_config sy k edit s))"
    using assms by (auto simp: app_inv_def cfgs_ok_def edit_config_def split: sum.splits prod.splits)
  ultimately show ?thesis using assms(1) by (simp add: app_inv_def)
qed

lemma set_enabled_inv: "app_inv s \<Longrightarrow> app_inv (snd (set_enabled sy k sv b s))"
proof -
  assume "app_inv s"
  moreover have "wf_config (set_enabled_flag sv b c) = wf_config c" for c
    by (cases sv) (simp_all add: wf_config_def wf_frps_config_def paths_set_def wf_frpc_config_def)
  moreover have "modules_inv (snd (set_enabled sy k sv b s)) = modules_inv s"
    by (rule modules_inv_cong) (simp add: set_enabled_def)
  moreover have "ap_config (snd (set_enabled sy k sv b s)) = set_enabled_flag sv b (ap_config s)"
    "ap_snapshot (snd (set_enabled sy k sv b s)) = ap_snapshot s"
    by (simp_all add: set_enabled_def)
  ultimately show ?thesis by (simp add: app_inv_def cfgs_ok_def)
qed

lemma set_section_wf: "wf_config c \<Longrightarrow> set_section h sv v c = Ok c' \<Longrightarrow> wf_config c'"
  by (cases sv)
     (auto simp: from_value_def wf_config_sections de_easytier_wf de_stun_turn_wf de_rustdesk_wf de_frps_wf de_frpc_wf
       split: option.splits if_splits dest: de_frps_wf)

lemma set_console_wf: "wf_config c \<Longrightarrow> wf_console console \<Longrightarrow> set_console console c = Ok c' \<Longrightarrow> wf_config c'"
  by (auto simp: set_console_def wf_config_sections wf_console_def)

lemma set_cert_paths_wf:
  "wf_config c \<Longrightarrow> cert \<noteq> [] \<Longrightarrow> key \<noteq> [] \<Longrightarrow> set_cert_paths target cert key c = Ok c' \<Longrightarrow> wf_config c'"
  by (cases "(target, cert, key, c)" rule: set_cert_paths.cases)
     (auto simp: wf_config_def wf_frps_config_def paths_set_def)

lemma app_inv_fields [simp]:
  "app_inv (s\<lparr>ap_sessions := m\<rparr>) = app_inv s" "app_inv (s\<lparr>ap_failures := w\<rparr>) = app_inv s"
  "app_inv (s\<lparr>ap_disk := d\<rparr>) = app_inv s" "app_inv (s\<lparr>ap_pending := p\<rparr>) = app_inv s"
  "app_inv (s\<lparr>ap_console_stop := b\<rparr>) = app_inv s" "app_inv (s\<lparr>ap_serving_port := q\<rparr>) = app_inv s"
  "app_inv (s\<lparr>ap_serving_tls := b\<rparr>) = app_inv s"
  by (simp_all add: app_inv_def cfgs_ok_def modules_inv_parts)

lemma login_inv: "app_inv s \<Longrightarrow> app_inv (snd (login sy wb rq s))"
  using config_blocking_inv [of s "sy_free sy"]
    config_blocking_inv [of "clear_login_failures wb (snd (config_blocking (sy_free sy) s))" "sy_free sy"]
  by (auto simp: login_def Let_def split_beta login_throttled_def note_login_failure_def clear_login_failures_def
      new_session_def split: option.splits prod.splits)

lemma change_password_inv: "app_inv s \<Longrightarrow> app_inv (snd (change_password sy wb rq req s))"
proof -
  assume "app_inv s"
  then have inv: "app_inv (snd (config_blocking (sy_free sy) s))" by (rule config_blocking_inv)
  have "app_inv (snd (edit_config sy 0 (set_hash h) (snd (config_blocking (sy_free sy) s))))" for h
    by (rule edit_config_inv [OF inv]) (auto simp: set_hash_def wf_config_def)
  with inv show ?thesis
    by (auto simp: change_password_def Let_def split_beta split: option.splits sum.splits)
qed

lemma put_config_inv:
  assumes "app_inv s"
  shows "app_inv (snd (put_config sy openbsd service v s))"
proof -
  have ed: "app_inv (snd (edit_config sy 0 (set_section (sy_host sy) sv v) s))" for sv
    using assms by (rule edit_config_inv) (rule set_section_wf)
  have co: "app_inv (snd (edit_config sy 0 (set_console console) s))" if "de_console (sy_host sy) v = Some console" for console
    using assms by (rule edit_config_inv) (erule set_console_wf, rule de_console_wf [OF that])
  have ap: "app_inv (snd (module_apply sy 1 sv (snd (edit_config sy 0 (set_section (sy_host sy) sv v) s))))" for sv
    by (rule module_apply_app) (rule ed)
  show ?thesis
    unfolding put_config_def split_beta using assms ed co ap by (simp split: option.splits sum.splits)
qed

lemma service_action_inv: "app_inv s \<Longrightarrow> app_inv (snd (service_action sy service action s))"
  by (auto simp: service_action_def Let_def split_beta set_enabled_inv module_start_app module_stop_app
      split: option.splits sum.splits)

lemma point_service_inv:
  assumes "app_inv s" "cert \<noteq> []" "key \<noteq> []"
  shows "app_inv (snd (point_service_at_cert sy service cert key s))"
proof -
  have ed: "app_inv (snd (edit_config sy 0 (set_cert_paths target cert key) s))" for target
    using assms(1) by (rule edit_config_inv) (erule set_cert_paths_wf, rule assms(2), rule assms(3))
  then have "app_inv (snd (module_apply sy 1 sv (snd (edit_config sy 0 (set_cert_paths target cert key) s))))" for sv target
    by (rule module_apply_app)
  with ed show ?thesis
    using assms(1) unfolding point_service_at_cert_def split_beta by (simp split: option.splits sum.splits)
qed

lemma cert_answer_inv:
  assumes "app_inv s" "\<And>c k d. result = (Inr (c, k), d) \<Longrightarrow> c \<noteq> [] \<and> k \<noteq> []"
  shows "app_inv (snd (cert_answer sy service s result))"
proof (cases "fst result")
  case (Inl e)
  then show ?thesis using assms(1) by (cases result) (simp add: cert_answer_def)
next
  case (Inr p)
  obtain c k where p: "p = (c, k)" by (cases p)
  with Inr assms(2) have ne: "c \<noteq> [] \<and> k \<noteq> []" by (cases result) simp
  have "app_inv (snd (point_service_at_cert sy service c k (s\<lparr>ap_disk := snd result\<rparr>)))"
    using assms(1) ne by (intro point_service_inv) simp_all
  then show ?thesis using Inr p by (cases result) (simp add: cert_answer_def split_beta)
qed

lemma write_service_cert_paths:
  "write_service_cert h fails ok dir service c k fs = (Inr (cp, kp), d) \<Longrightarrow> cp \<noteq> [] \<and> kp \<noteq> []"
  by (auto simp: write_service_cert_def cert_paths_def path_join_not_Nil split: if_splits prod.splits bool.splits)

lemma generate_cert_paths:
  "generate_service_cert mint h fails ok dir service domain days fs = (Inr (cp, kp), d) \<Longrightarrow> cp \<noteq> [] \<and> kp \<noteq> []"
  by (auto simp: generate_service_cert_def generate_service_cert_names_def split: if_splits option.splits
      dest: write_service_cert_paths)

lemma certs_inv:
  assumes "app_inv s"
  shows "app_inv (snd (certs_generate sy cv service domain days s))"
    "app_inv (snd (certs_upload sy cv service cert_pem key_pem s))"
  using assms
  by (auto simp: certs_generate_def certs_upload_def intro!: cert_answer_inv dest: generate_cert_paths write_service_cert_paths)

lemma console_apply_inv: "app_inv s \<Longrightarrow> app_inv (snd (console_apply sy le s))"
  using config_blocking_inv [of s "sy_free sy"]
  by (auto simp: console_apply_def Let_def split_beta split: sum.splits)

lemma with_body_inv: "app_inv s \<Longrightarrow> (\<And>x. app_inv (snd (f x s))) \<Longrightarrow> app_inv (snd (with_body rd rq f s))"
  by (auto simp: with_body_def split: option.splits)

lemma dispatch_inv:
  assumes "app_inv s"
  shows "app_inv (snd (dispatch sy wb cn rq s))"
  unfolding dispatch_def
  using assms
  by (auto split: option.splits endpoint.splits
      intro!: with_body_inv login_inv put_config_inv change_password_inv certs_inv console_apply_inv service_action_inv
        config_blocking_inv simp: logout_def status_state Let_def)

lemma handle_inv: "app_inv s \<Longrightarrow> app_inv (snd (handle sy wb cn rq s))"
proof -
  assume inv: "app_inv s"
  obtain b s1 where so: "session_ok wb rq s = (b, s1)" by (cases "session_ok wb rq s")
  then have "app_inv s1" using inv by (auto simp: session_ok_def split: prod.splits)
  with inv so show ?thesis
    by (cases b) (auto simp: handle_def auth_mw_def dispatch_inv)
qed

lemma serve_round_inv: "app_inv s \<Longrightarrow> app_inv (fst (snd (serve_round sy le good s)))"
  using config_blocking_inv [of s "sy_free sy"]
  by (auto simp: serve_round_def Let_def split_beta split: option.splits)

text \<open>The running application: requests in any order and with any outcome of the environment,
  and rounds of the serve loop.\<close>

inductive app_step :: "app_state \<Rightarrow> app_state \<Rightarrow> bool" where
  app_request: "handle sy wb cn rq s = (rp, s') \<Longrightarrow> app_step s s'"
| app_serve: "serve_round sy le good s = (b, s', good') \<Longrightarrow> app_step s s'"

inductive_cases app_stepE: "app_step s s'"

interpretation app: step_invariant app_step app_inv
proof
  fix s s'
  assume inv: "app_inv s" and "app_step s s'"
  from this(2) show "app_inv s'"
  proof (rule app_stepE)
    fix sy wb cn rq rp
    assume "handle sy wb cn rq s = (rp, s')"
    then show ?thesis using handle_inv [OF inv, of sy wb cn rq] by simp
  next
    fix sy le good b good'
    assume "serve_round sy le good s = (b, s', good')"
    then show ?thesis using serve_round_inv [OF inv, of sy le good] by simp
  qed
qed

text \<open>
  C13: from the configuration a load accepted, whatever requests come and whatever fails on
  the way, every number of the configuration in memory fits the type it has in the program,
  the certificate paths of the frp server are never the empty string, and the invariant of the
  modules holds.
\<close>

theorem application_stays_typed:
  assumes "config_load rd h fs path = Ok c" "app_step\<^sup>*\<^sup>* (app_new c disk kw ew) s"
  shows "wf_config (ap_config s) \<and> wf_config (ap_snapshot s) \<and> modules_inv s"
proof -
  have "app_inv (app_new c disk kw ew)"
    using config_load_wf [OF assms(1)] modules_new_inv by (simp add: app_inv_def cfgs_ok_def) (simp add: app_new_def)
  from app.steps_inv [OF assms(2) this] show ?thesis by (simp add: app_inv_def cfgs_ok_def)
qed

definition ex_loaded :: config where
  "ex_loaded = (case config_load (\<lambda>_. None) ex_host Map.empty ''/etc/remgr/config.toml'' of Inr c \<Rightarrow> c | Inl _ \<Rightarrow> ex_config)"

lemma ex_loaded: "config_load (\<lambda>_. None) ex_host Map.empty ''/etc/remgr/config.toml'' = Ok ex_loaded"
  by (simp add: ex_loaded_def config_load_def)

theorem application_stays_typed_witness:
  "wf_config (ap_config (snd (handle ex_sys (ex_web 1000) ex_console_env ex_stop_rq
     (app_new ex_loaded Map.empty (rm_keys ex_rustdesk) (em_world ex_easytier)))))"
  using application_stays_typed [OF ex_loaded r_into_rtranclp [of app_step, OF app_request [OF prod.collapse [symmetric]]]] by blast

section \<open>The password hash\<close>

lemma module_start_console: "cf_console (ap_config (snd (module_start sy k sv s))) = cf_console (ap_config s)"
proof -
  have "cf_console (ap_config (pin_token sy k t s)) = cf_console (ap_config s)" for t s
    by (simp add: pin_token_def Let_def)
  moreover have "ap_config (snd (start_config sy sv s)) = ap_config s" for sv s by (simp add: start_config_def)
  moreover have "ap_config (snd (frpc_adopt sy s)) = ap_config s" for s
    by (simp add: frpc_adopt_def Let_def split_beta)
  ultimately show ?thesis
    by (cases sv) (auto simp: Let_def split_beta frps_start_def frpc_start_locked_def split: sum.splits)
qed

lemma module_apply_console: "cf_console (ap_config (snd (module_apply sy k sv s))) = cf_console (ap_config s)"
proof -
  have "ap_config (snd (apply_look sy sv s)) = ap_config s"
    by (simp add: apply_look_def module_status_def frpc_adopt_def Let_def split_beta)
  moreover have "ap_config (module_stop sv s) = ap_config s" for s
    by (cases sv) (simp_all add: frps_stop_def frpc_stop_def Let_def)
  ultimately show ?thesis
    unfolding module_apply_restart restart_if_running_def
    by (simp add: split_beta Let_def module_start_console)
qed

lemma set_section_console: "set_section h sv v c = Ok c' \<Longrightarrow> cf_console c' = cf_console c"
  by (cases sv) (auto simp: from_value_def split: option.splits if_splits)

lemma edit_config_result:
  "edit_config sy k edit s = (r, s') \<Longrightarrow> ap_config s' = ap_config s \<or> edit (ap_config s) = Ok (ap_config s')"
  by (auto simp: edit_config_def split: sum.splits prod.splits)


section \<open>The buttons of the console\<close>

fun service_enabled :: "service \<Rightarrow> config \<Rightarrow> bool" where
  "service_enabled EasyTier c = ec_enabled (cf_easytier c)"
| "service_enabled StunTurn c = sc_enabled (cf_stun_turn c)"
| "service_enabled RustDesk c = rc_enabled (cf_rustdesk c)"
| "service_enabled Frps c = enabled (cf_frps c)"
| "service_enabled Frpc c = fc_enabled (cf_frpc c)"

lemma set_enabled_flag_get [simp]:
  "service_enabled sv' (set_enabled_flag sv b c) = (if sv' = sv then b else service_enabled sv' c)"
  by (cases sv; cases sv') simp_all

lemma set_enabled_simps [simp]:
  "ap_config (snd (set_enabled sy k sv b s)) = set_enabled_flag sv b (ap_config s)"
  "ap_modules (snd (set_enabled sy k sv b s)) = ap_modules s"
  by (simp_all add: set_enabled_def)

lemma module_running_cong: "ap_modules s' = ap_modules s \<Longrightarrow> module_running sv s' = module_running sv s"
  by (cases sv) simp_all

lemma pin_token_enabled [simp]: "service_enabled sv (ap_config (pin_token sy k t s)) = service_enabled sv (ap_config s)"
  by (cases sv) (simp_all add: pin_token_def Let_def)

lemma module_start_enabled:
  "service_enabled sv' (ap_config (snd (module_start sy k sv s))) = service_enabled sv' (ap_config s)"
proof -
  have "ap_config (snd (start_config sy sv s)) = ap_config s" for sv s by (simp add: start_config_def)
  moreover have "ap_config (snd (frpc_adopt sy s)) = ap_config s" for s
    by (simp add: frpc_adopt_def Let_def split_beta)
  ultimately show ?thesis
    by (cases sv) (auto simp: Let_def split_beta frps_start_def frpc_start_locked_def split: sum.splits)
qed

lemma module_stop_config [simp]: "ap_config (module_stop sv s) = ap_config s"
  by (cases sv) (simp_all add: frps_stop_def frpc_stop_def Let_def)

text \<open>The three buttons, as what they do to the service and to its enabled flag.\<close>

lemma press_start:
  assumes "service_of service = Some sv"
  shows "service_action sy service ''start'' s =
    (case module_start sy 1 sv (snd (set_enabled sy 0 sv True s)) of
       (Inl _, s1) \<Rightarrow> (api_error 500 ''failed'', s1)
     | (Inr _, s1) \<Rightarrow> (ok_reply, snd (set_enabled sy 2 sv True s1)))"
  using assms by (simp add: service_action_def Let_def split: prod.splits sum.splits)

lemma press_stop:
  assumes "service_of service = Some sv"
  shows "service_action sy service ''stop'' s = (ok_reply, snd (set_enabled sy 2 sv False (module_stop sv s)))"
  using assms by (simp add: service_action_def Let_def)

lemma press_restart:
  assumes "service_of service = Some sv"
  shows "service_action sy service ''restart'' s =
    (case module_start sy 1 sv (module_stop sv (snd (set_enabled sy 0 sv True s))) of
       (Inl _, s1) \<Rightarrow> (api_error 500 ''failed'', s1) | (Inr _, s1) \<Rightarrow> (ok_reply, s1))"
  using assms by (simp add: service_action_def Let_def split: prod.splits sum.splits)

lemma press_other:
  assumes "action \<notin> {''start'', ''stop'', ''restart''}"
  shows "service_action sy service action s =
    (if service_of service = None then api_error 404 ''unknown service'' else api_error 400 ''unknown action'', s)"
  using assms by (auto simp: service_action_def Let_def split: option.splits)

lemma reply_codes [simp]:
  "rp_code ok_reply = 200" "rp_code (api_error n msg) = n" "rp_code (reply n j) = n"
  by (simp_all add: ok_reply_def api_error_def reply_def)



text \<open>The enabled flag is set in memory even when it could not be saved: from then on the file
  and the running configuration disagree.\<close>

lemma enabled_flag_may_disagree:
  assumes "set_enabled sy k sv b s = (Err e, s')" "service_enabled sv (ap_config s) \<noteq> b"
  shows "service_enabled sv (ap_config s') = b \<and>
    config_save (sy_toml sy) (sy_host sy) (sy_save sy k) (ap_config s') (ap_disk s) = (Err e, ap_disk s')"
  using assms by (auto simp: set_enabled_def save_config_def split: prod.splits)

section \<open>The listener\<close>

text \<open>
  C11: applying the console's settings never leaves it without a listener. Either the request
  is refused and the current listener keeps serving, untouched; or it is accepted, the current
  one is told to stop, and the next round of the serve loop serves again as long as the
  configured port can be bound, however broken the TLS settings are: the listener prepared by
  the request if there is one, and what the loop reports about TLS is true of it.
\<close>

theorem console_never_stranded:
  assumes "console_apply sy le s = (rp, s')" "serve_round sy' le' good s' = (b, s'', good')"
    and "\<forall>k. is_ok (le_bind (le' k) (cc_port (cf_console (fst (config_blocking (sy_free sy') s')))))"
  shows "(rp_code rp = 400 \<and> s'\<lparr>ap_snapshot := ap_snapshot s\<rparr> = s) \<or>
    (rp_code rp = 200 \<and> \<not> ap_console_stop s' \<and> b \<and> ap_console_stop s'' \<and> ap_serving_port s'' \<noteq> None \<and>
     (case prepare_console le (cf_console (fst (config_blocking (sy_free sy) s))) of
        Inl _ \<Rightarrow> True
      | Inr p \<Rightarrow> ap_serving_port s'' = Some (listener_port p) \<and>
          ap_serving_tls s'' = cc_tls (cf_console (fst (config_blocking (sy_free sy) s)))))"
proof -
  let ?cfg = "cf_console (fst (config_blocking (sy_free sy') s'))"
  have pend: "ap_pending (snd (config_blocking free s')) = ap_pending s'" for free
    by (simp add: config_blocking_def)
  have plain: "is_ok (prepare_console (le' 1) (?cfg\<lparr>cc_tls := False\<rparr>))"
    using spec [OF assms(3), of 1] by (auto simp: prepare_console_def split: sum.splits)
  then have chosen: "fst (choose_listener le' ?cfg (ap_pending s') good) \<noteq> None"
    by (auto simp: choose_listener_def split: option.splits sum.splits)
  have served: "b \<and> ap_console_stop s'' \<and> ap_serving_port s'' \<noteq> None \<and>
      (\<forall>p. ap_pending s' = Some p \<longrightarrow> ap_serving_port s'' = Some (listener_port p) \<and> ap_serving_tls s'' = listener_tls p)"
    using assms(2) chosen pend
    by (auto simp: serve_round_def Let_def split_beta choose_listener_def split: option.splits)
  show ?thesis
    using assms(1) served
    by (auto simp: console_apply_def Let_def split_beta config_blocking_def prepare_console_def
        split: sum.splits if_splits)
qed


text \<open>TLS is asked for with a certificate that cannot be read, on the port already served.\<close>

definition ex_tls_app :: app_state where
  "ex_tls_app = (app_new (ex_loaded\<lparr>cf_console := (cf_console ex_loaded)\<lparr>cc_tls := True\<rparr>\<rparr>) Map.empty
     (rm_keys ex_rustdesk) (em_world ex_easytier))
     \<lparr>ap_console_stop := True, ap_serving_port := Some (cc_port (cf_console ex_loaded))\<rparr>"

theorem console_never_stranded_witness:
  "fst (serve_round ex_sys (\<lambda>_. \<lparr> le_bind = Ok, le_tls = (\<lambda>_ _. False) \<rparr>) None
     (snd (console_apply ex_sys \<lparr> le_bind = (\<lambda>_. Err AddrInUse), le_tls = (\<lambda>_ _. False) \<rparr> ex_tls_app)))"
  (is "fst (serve_round _ ?le _ (snd (console_apply _ ?busy _)))")
proof -
  have "rp_code (fst (console_apply ex_sys ?busy ex_tls_app)) = 200"
    by (simp add: console_apply_def config_blocking_def ex_tls_app_def app_new_def prepare_console_def
        is_addr_in_use_def ex_sys_def upt_rec)
  moreover obtain b s2 good where round: "serve_round ex_sys ?le None (snd (console_apply ex_sys ?busy ex_tls_app)) = (b, s2, good)"
    by (metis prod_cases3)
  ultimately have b
    using console_never_stranded [OF prod.collapse [symmetric] round] by simp
  then show ?thesis by (simp add: round)
qed

section \<open>What reaches the EasyTier dashboard\<close>

lemma forward_header_cookie:
  "forward_header h = Some (n, v) \<Longrightarrow> eq_ignore_ascii_case n ''cookie'' \<Longrightarrow> request_token (Some v) = None"
  using forwarded_cookies_have_no_session [of "snd h"]
  by (auto simp: forward_header_def split: prod.splits if_splits)

text \<open>The attributes of a cookie of the dashboard as the browser gets it.\<close>

definition cookie_scoped :: "string \<Rightarrow> bool" where
  "cookie_scoped v \<longleftrightarrow>
     (let parts = map trim (split_on CHR '';'' v); lower = to_ascii_lowercase in
      filter (\<lambda>p. starts_with ''path='' (lower p)) parts = [''Path=/et''] \<and>
      \<not> list_ex (\<lambda>p. starts_with ''domain='' (lower p)) parts \<and>
      list_ex (\<lambda>p. starts_with ''samesite='' (lower p)) parts)"

lemma scope_cookie_scoped: "cookie_scoped (scope_cookie_to_et v)"
proof -
  have "starts_with ''path='' (to_ascii_lowercase ''Path=/et'')" "\<not> starts_with ''domain='' (to_ascii_lowercase ''Path=/et'')"
    "\<not> starts_with ''samesite='' (to_ascii_lowercase ''Path=/et'')"
    "\<not> starts_with ''path='' (to_ascii_lowercase ''SameSite=Lax'')"
    "\<not> starts_with ''domain='' (to_ascii_lowercase ''SameSite=Lax'')"
    "starts_with ''samesite='' (to_ascii_lowercase ''SameSite=Lax'')" by code_simp+
  moreover have "starts_with ''samesite='' p \<Longrightarrow> \<not> starts_with ''path='' p \<and> \<not> starts_with ''domain='' p" for p
    by (cases p) (auto simp: starts_with_def)
  ultimately show ?thesis
    unfolding cookie_scoped_def scoped_cookie_parts Let_def by (auto simp: list_ex_iff filter_empty_conv)
qed



end
