(* ===== verification/Signals.thy ===== *)
theory Signals
  imports Prelude
begin

text \<open>
  Termination signals (\<open>remgr/src/signals.rs\<close>): the record the handler writes with plain
  buffer arithmetic, the parser on the other side of the self-pipe, the handler's policy
  (SIGHUP never stops the process, a second stop signal ends it at once), the reader
  thread, and the console-control requests of the Windows build. The two numeric signal
  values of the platform's C library that the sources name are constants.
\<close>

section \<open>Events\<close>

record sig_event =
  t_signal :: int
  t_sender_pid :: int
  t_sender_uid :: nat
  t_code :: int

definition SIGHUP :: int where "SIGHUP = 1"
definition SIGINT :: int where "SIGINT = 2"
definition SIGTERM :: int where "SIGTERM = 15"

definition sig_name :: "sig_event \<Rightarrow> string" where
  "sig_name t = (if t_signal t = SIGTERM then ''SIGTERM''
     else if t_signal t = SIGINT then ''SIGINT''
     else if t_signal t = SIGHUP then ''SIGHUP'' else ''signal'')"

definition stops :: "sig_event \<Rightarrow> bool" where
  "stops t \<longleftrightarrow> t_signal t = SIGTERM \<or> t_signal t = SIGINT"

definition origin :: "sig_event \<Rightarrow> string" where
  "origin t =
     (let c = t_code t in
      if c = 0 \<or> c = 0x10001 then ''sent by a process: kill(2)/raise(3)''
      else if c = - 1 \<or> c = 0x10002 then ''sent by a process: lwp_kill(2)/sigqueue(3)''
      else if c = - 2 then ''an expiring timer''
      else if c = - 3 \<or> c = - 5 then ''a message queue (SIGEV_*)''
      else if c = - 4 then ''asynchronous I/O completion''
      else if c = 0x80 then ''the kernel''
      else ''si_code='' @ dec_string_int c)"

definition em_dash :: string where
  "em_dash = [CHR 0xE2, CHR 0x80, CHR 0x94]"

definition sig_describe :: "sig_event \<Rightarrow> string" where
  "sig_describe t =
     sig_name t @ '' received '' @
     (if t_sender_pid t > 0
      then ''from pid '' @ dec_string_int (t_sender_pid t) @ '' (uid '' @ dec_string (t_sender_uid t) @ '')''
      else ''with no sender reported by the kernel'') @
     '' ('' @ origin t @ ''): '' @
     (if stops t then ''stopping the modules''
      else ''kept running '' @ em_dash @ '' remgr has nothing to reload from disk'')"

section \<open>Writing a record\<close>

text \<open>Appending to a fixed buffer from a position; bytes beyond its end are dropped.\<close>

fun put :: "string \<Rightarrow> nat \<Rightarrow> string \<Rightarrow> string \<times> nat" where
  "put buf n [] = (buf, n)"
| "put buf n (b # bs) = (if n \<ge> length buf then (buf, n) else put (buf[n := b]) (n + 1) bs)"

text \<open>The digits of a number, least significant first.\<close>

fun digits_of :: "nat \<Rightarrow> string" where
  "digits_of rest = digit_char (rest mod 10) # (if rest div 10 = 0 then [] else digits_of (rest div 10))"

declare digits_of.simps [simp del]

fun put_digits :: "string \<Rightarrow> nat \<Rightarrow> string \<Rightarrow> string \<times> nat" where
  "put_digits buf n [] = (buf, n)"
| "put_digits buf n (d # ds) = (let (buf', n') = put buf n [d] in put_digits buf' n' ds)"

definition put_int :: "string \<Rightarrow> nat \<Rightarrow> int \<Rightarrow> string \<times> nat" where
  "put_int buf at v =
     (let digits = digits_of (nat \<bar>v\<bar>);
          (buf1, n1) = (if v < 0 then put buf at ''-'' else (buf, at))
      in put_digits buf1 n1 (rev digits))"

definition REC_SIGNAL :: string where "REC_SIGNAL = ''signal ''"
definition REC_PID :: string where "REC_PID = '' from pid=''"
definition REC_UID :: string where "REC_UID = '' uid=''"
definition REC_CODE :: string where "REC_CODE = '' code=''"

lemmas rec_defs = REC_SIGNAL_def REC_PID_def REC_UID_def REC_CODE_def

definition record_bytes :: "int \<Rightarrow> int \<Rightarrow> nat \<Rightarrow> int \<Rightarrow> string \<times> nat" where
  "record_bytes sig pid uid code =
     (let (b, n) = (replicate 80 (CHR 0x00), 0);
          (b, n) = put b n REC_SIGNAL;
          (b, n) = put_int b n sig;
          (b, n) = put b n REC_PID;
          (b, n) = put_int b n pid;
          (b, n) = put b n REC_UID;
          (b, n) = put_int b n (int uid);
          (b, n) = put b n REC_CODE;
          (b, n) = put_int b n code;
          (b, n) = put b n [CHR 0x0A]
      in (b, min n (length b)))"

text \<open>What the handler hands to \<open>write(2)\<close>.\<close>

definition written :: "sig_event \<Rightarrow> string" where
  "written t = (let (b, n) = record_bytes (t_signal t) (t_sender_pid t) (t_sender_uid t) (t_code t) in take n b)"

section \<open>The handler\<close>

record sig_state =
  g_pipe :: "string option"
  g_log :: "string option"
  g_stopping :: bool

datatype handled = Exited int | Returned sig_state

definition handler :: "sig_event \<Rightarrow> sig_state \<Rightarrow> handled" where
  "handler t g =
     (let g1 = g\<lparr>g_pipe := map_option (\<lambda>p. p @ written t) (g_pipe g),
                 g_log := map_option (\<lambda>l. l @ written t) (g_log g)\<rparr>
      in if t_signal t \<noteq> SIGHUP then
           (if g_stopping g1 then Exited (128 + t_signal t) else Returned (g1\<lparr>g_stopping := True\<rparr>))
         else Returned g1)"

fun handle_all :: "sig_event list \<Rightarrow> sig_state \<Rightarrow> handled" where
  "handle_all [] g = Returned g"
| "handle_all (t # ts) g = (case handler t g of Exited c \<Rightarrow> Exited c | Returned g' \<Rightarrow> handle_all ts g')"

section \<open>Reading records\<close>

definition rec_parse :: "string \<Rightarrow> sig_event option" where
  "rec_parse line =
     (case strip_prefix REC_SIGNAL line of None \<Rightarrow> None | Some r0 \<Rightarrow>
     (case split_once CHR '' '' r0 of None \<Rightarrow> None | Some (a, r1) \<Rightarrow>
     (case parse_signed 32 a of None \<Rightarrow> None | Some signal \<Rightarrow>
     (case strip_prefix (trim_start REC_PID) r1 of None \<Rightarrow> None | Some r2 \<Rightarrow>
     (case split_once CHR '' '' r2 of None \<Rightarrow> None | Some (b, r3) \<Rightarrow>
     (case parse_signed 32 b of None \<Rightarrow> None | Some pid \<Rightarrow>
     (case strip_prefix (trim_start REC_UID) r3 of None \<Rightarrow> None | Some r4 \<Rightarrow>
     (case split_once CHR '' '' r4 of None \<Rightarrow> None | Some (c, r5) \<Rightarrow>
     (case parse_unsigned 32 c of None \<Rightarrow> None | Some uid \<Rightarrow>
     (case strip_prefix (trim_start REC_CODE) r5 of None \<Rightarrow> None | Some r6 \<Rightarrow>
     (case parse_signed 32 (trim_end r6) of None \<Rightarrow> None | Some code \<Rightarrow>
        Some \<lparr> t_signal = signal, t_sender_pid = pid, t_sender_uid = uid, t_code = code \<rparr>)))))))))))"

definition parse_all :: "string \<Rightarrow> sig_event list" where
  "parse_all s = List.map_filter rec_parse (rust_lines s)"

text \<open>The reader thread: each read of the pipe returns at most 128 bytes of what it holds,
  and each read is parsed on its own.\<close>

function read_pipe :: "string \<Rightarrow> sig_event list" where
  "read_pipe s = (if s = [] then [] else parse_all (take 128 s) @ read_pipe (drop 128 s))"
  by pat_completeness auto
termination
  by (relation "measure length") auto

declare read_pipe.simps [simp del]

section \<open>Windows\<close>

definition CTRL_C_EVENT :: int where "CTRL_C_EVENT = 0"
definition CTRL_BREAK_EVENT :: int where "CTRL_BREAK_EVENT = 1"
definition CTRL_CLOSE_EVENT :: int where "CTRL_CLOSE_EVENT = 2"
definition CTRL_LOGOFF_EVENT :: int where "CTRL_LOGOFF_EVENT = 5"
definition CTRL_SHUTDOWN_EVENT :: int where "CTRL_SHUTDOWN_EVENT = 6"

definition win_name :: "sig_event \<Rightarrow> string" where
  "win_name t =
     (if t_code t = CTRL_C_EVENT then ''CTRL_C_EVENT''
      else if t_code t = CTRL_BREAK_EVENT then ''CTRL_BREAK_EVENT''
      else if t_code t = CTRL_CLOSE_EVENT then ''CTRL_CLOSE_EVENT''
      else if t_code t = CTRL_LOGOFF_EVENT then ''CTRL_LOGOFF_EVENT''
      else if t_code t = CTRL_SHUTDOWN_EVENT then ''CTRL_SHUTDOWN_EVENT''
      else ''stop request'')"

definition win_stops :: "sig_event \<Rightarrow> bool" where
  "win_stops t = True"

definition win_describe :: "sig_event \<Rightarrow> string" where
  "win_describe t =
     (if t_signal t = 0 then ''stop file found in the run directory: stopping the modules''
      else win_name t @ '' received (Windows console control): stopping the modules'')"

definition console_control :: "int \<Rightarrow> sig_event" where
  "console_control event = \<lparr> t_signal = event, t_sender_pid = 0, t_sender_uid = 0, t_code = event \<rparr>"

section \<open>What is written is what is read\<close>

definition holds :: "nat \<Rightarrow> string \<Rightarrow> string \<times> nat \<Rightarrow> bool" where
  "holds L w s \<longleftrightarrow> length (fst s) = L \<and> snd s = length w \<and> take (length w) (fst s) = w"

lemma holds_snoc:
  "holds L w (b, n) \<Longrightarrow> length w < L \<Longrightarrow> n = length w \<and> n < length b \<and> holds L (w @ [x]) (b[n := x], n + 1)"
  by (auto simp: holds_def take_Suc_conv_app_nth)

lemma put_holds:
  "holds L w (b, n) \<Longrightarrow> length w + length bs \<le> L \<Longrightarrow> holds L (w @ bs) (put b n bs)"
proof (induction bs arbitrary: b n w)
  case (Cons x bs)
  have "n < length b" "holds L (w @ [x]) (b[n := x], n + 1)"
    using holds_snoc [OF Cons.prems(1), of x] Cons.prems(2) by auto
  then show ?case using Cons.IH [of "w @ [x]" "b[n := x]" "n + 1"] Cons.prems(2) by simp
qed simp

lemma put_digits_holds:
  "holds L w (b, n) \<Longrightarrow> length w + length ds \<le> L \<Longrightarrow> holds L (w @ ds) (put_digits b n ds)"
proof (induction ds arbitrary: b n w)
  case (Cons d ds)
  obtain b' n' where p: "put b n [d] = (b', n')" by force
  have "holds L (w @ [d]) (b', n')" using put_holds [OF Cons.prems(1), of "[d]"] Cons.prems(2) p by simp
  from Cons.IH [OF this] Cons.prems(2) p show ?case by (simp del: put.simps)
qed simp

lemma rev_digits_of: "rev (digits_of n) = dec_string n"
proof (induction n rule: digits_of.induct)
  case (1 n)
  then show ?case
    by (subst digits_of.simps, subst dec_string.simps) (auto simp: dec_string.simps [of 0] div_eq_0_iff)
qed

lemma put_int_holds:
  assumes "holds L w (b, n)" "length w + length (dec_string_int v) \<le> L"
  shows "holds L (w @ dec_string_int v) (put_int b n v)"
proof (cases "v < 0")
  case True
  obtain b1 n1 where p: "put b n ''-'' = (b1, n1)" by force
  have "holds L (w @ ''-'') (b1, n1)"
    using put_holds [OF assms(1), of "''-''"] assms(2) True p by (simp add: dec_string_int_def)
  from put_digits_holds [OF this, of "dec_string (nat (- v))"] assms(2) True p show ?thesis
    by (simp add: put_int_def rev_digits_of dec_string_int_def del: put.simps)
next
  case False
  then show ?thesis
    using put_digits_holds [OF assms(1), of "dec_string (nat v)"] assms(2)
    by (simp add: put_int_def rev_digits_of dec_string_int_def)
qed

definition rec_text :: "sig_event \<Rightarrow> string" where
  "rec_text t = REC_SIGNAL @ dec_string_int (t_signal t) @ REC_PID @ dec_string_int (t_sender_pid t) @
     REC_UID @ dec_string (t_sender_uid t) @ REC_CODE @ dec_string_int (t_code t)"

definition event_ok :: "sig_event \<Rightarrow> bool" where
  "event_ok t \<longleftrightarrow> - (2 ^ 31) \<le> t_signal t \<and> t_signal t < 2 ^ 31 \<and>
     - (2 ^ 31) \<le> t_sender_pid t \<and> t_sender_pid t < 2 ^ 31 \<and> t_sender_uid t < 2 ^ 32 \<and>
     - (2 ^ 31) \<le> t_code t \<and> t_code t < 2 ^ 31"

lemma length_dec_string: "n < 10 ^ k \<Longrightarrow> 0 < k \<Longrightarrow> length (dec_string n) \<le> k"
proof (induction k arbitrary: n)
  case (Suc k)
  show ?case
  proof (cases "n < 10")
    case False
    then have "0 < k" using Suc.prems by (cases k) auto
    moreover have "n div 10 < 10 ^ k" using Suc.prems by (simp add: less_mult_imp_div_less mult.commute)
    ultimately have "length (dec_string (n div 10)) \<le> k" by (intro Suc.IH)
    then show ?thesis using False by (subst dec_string.simps) simp
  qed (subst dec_string.simps, simp)
qed simp

lemma length_dec_i32: "- (2 ^ 31) \<le> v \<Longrightarrow> v < 2 ^ 31 \<Longrightarrow> length (dec_string_int v) \<le> 11"
  using length_dec_string [of "nat (- v)" 10] length_dec_string [of "nat v" 11]
  by (auto simp: dec_string_int_def)

lemma length_rec_text: "event_ok t \<Longrightarrow> length (rec_text t) \<le> 71"
  using length_dec_i32 [of "t_signal t"] length_dec_i32 [of "t_sender_pid t"] length_dec_i32 [of "t_code t"]
    length_dec_string [of "t_sender_uid t" 10]
  by (simp add: event_ok_def rec_text_def rec_defs)

lemma dec_string_int_nat [simp]: "dec_string_int (int n) = dec_string n"
  by (simp add: dec_string_int_def)

lemma written_text:
  assumes "event_ok t"
  shows "written t = rec_text t @ [CHR 0x0A]"
proof -
  note len = length_rec_text [OF assms, unfolded rec_text_def length_append]
  note hs = put_holds [where L = 80] put_int_holds [where L = 80]
  let ?b0 = "replicate 80 (CHR 0x00)"
  obtain b1 n1 where 1: "put ?b0 0 REC_SIGNAL = (b1, n1)" by force
  obtain b2 n2 where 2: "put_int b1 n1 (t_signal t) = (b2, n2)" by force
  obtain b3 n3 where 3: "put b2 n2 REC_PID = (b3, n3)" by force
  obtain b4 n4 where 4: "put_int b3 n3 (t_sender_pid t) = (b4, n4)" by force
  obtain b5 n5 where 5: "put b4 n4 REC_UID = (b5, n5)" by force
  obtain b6 n6 where 6: "put_int b5 n5 (int (t_sender_uid t)) = (b6, n6)" by force
  obtain b7 n7 where 7: "put b6 n6 REC_CODE = (b7, n7)" by force
  obtain b8 n8 where 8: "put_int b7 n7 (t_code t) = (b8, n8)" by force
  obtain b9 n9 where 9: "put b8 n8 [CHR 0x0A] = (b9, n9)" by force
  have "holds 80 [] (?b0, 0)" by (simp add: holds_def)
  note h1 = hs(1) [OF this, of REC_SIGNAL, unfolded 1]
  note h2 = hs(2) [OF h1, of "t_signal t", unfolded 2]
  note h3 = hs(1) [OF h2, of REC_PID, unfolded 3]
  note h4 = hs(2) [OF h3, of "t_sender_pid t", unfolded 4]
  note h5 = hs(1) [OF h4, of REC_UID, unfolded 5]
  note h6 = hs(2) [OF h5, of "int (t_sender_uid t)", unfolded 6]
  note h7 = hs(1) [OF h6, of REC_CODE, unfolded 7]
  note h8 = hs(2) [OF h7, of "t_code t", unfolded 8]
  note h9 = hs(1) [OF h8, of "[CHR 0x0A]", unfolded 9]
  have "holds 80 (rec_text t @ [CHR 0x0A]) (b9, n9)"
    using h9 len by (simp add: rec_text_def)
  moreover have "written t = take (min n9 (length b9)) b9"
    unfolding written_def record_bytes_def Let_def by (simp only: 1 2 3 4 5 6 7 8 9 prod.case)
  moreover have "length (rec_text t @ [CHR 0x0A]) \<le> 80" using length_rec_text [OF assms] by simp
  ultimately show ?thesis by (simp add: holds_def)
qed

lemma dec_string_int_char: "c \<in> set (dec_string_int v) \<Longrightarrow> is_digit c \<or> c = CHR ''-''"
  by (auto simp: dec_string_int_def dest: dec_string_digit split: if_splits)

lemma dec_string_int_plain:
  "CHR '' '' \<notin> set (dec_string_int v)" "CHR '' '' \<notin> set (dec_string n)"
  "CHR 0x0A \<notin> set (dec_string_int v)" "CHR 0x0A \<notin> set (dec_string n)"
  "CHR 0x0D \<notin> set (dec_string_int v)" "CHR 0x0D \<notin> set (dec_string n)"
  by (auto dest!: dec_string_int_char dec_string_digit simp: is_digit_def)

lemma trim_end_dec: "trim_end (dec_string_int v) = dec_string_int v"
proof -
  have "\<not> is_ws c" if "c \<in> set (dec_string_int v)" for c
    using dec_string_int_char [OF that] is_digit_neq(7) by (auto simp: is_ws_def)
  then show ?thesis unfolding trim_end_def
    by (metis dropWhile_eq_self_iff hd_in_set rev_rev_ident set_rev)
qed

lemma rec_parse_text:
  assumes "event_ok t"
  shows "rec_parse (rec_text t) = Some t"
proof -
  have split: "split_once CHR '' '' (dec_string_int v @ CHR '' '' # r) = Some (dec_string_int v, r)" for v r
    by (rule split_once_append) (rule dec_string_int_plain)
  have split': "split_once CHR '' '' (dec_string n @ CHR '' '' # r) = Some (dec_string n, r)" for n r
    by (rule split_once_append) (rule dec_string_int_plain)
  show ?thesis
    using assms
    by (simp add: rec_parse_def rec_text_def rec_defs strip_prefix_def trim_start_def is_ws_def split split'
        trim_end_dec event_ok_def)
qed

lemma rec_text_line: "CHR 0x0A \<notin> set (rec_text t)" "CHR 0x0D \<notin> set (rec_text t)"
  by (simp_all add: rec_text_def rec_defs dec_string_int_plain)

definition event_dec :: "string \<Rightarrow> (sig_event \<times> string) option" where
  "event_dec s = (case split_once (CHR 0x0A) s of None \<Rightarrow> None
     | Some (l, rest) \<Rightarrow> map_option (\<lambda>t. (t, rest)) (rec_parse l))"

interpretation sigrec: frame_codec event_ok written event_dec
proof unfold_locales
  fix t rest
  assume ok: "event_ok t"
  have "split_once (CHR 0x0A) (rec_text t @ CHR 0x0A # rest) = Some (rec_text t, rest)"
    by (rule split_once_append) (rule rec_text_line)
  then show "event_dec (written t @ rest) = Some (t, rest)"
    using rec_parse_text [OF ok] by (simp add: event_dec_def written_text [OF ok])
qed (simp add: event_dec_def)

lemma parse_all_records: "list_all event_ok ts \<Longrightarrow> parse_all (concat (map written ts) @ s) = ts @ parse_all s"
proof (induction ts)
  case (Cons t ts)
  then show ?case
    using rust_lines_line [OF rec_text_line, of t "concat (map written ts) @ s"] rec_parse_text [of t]
    by (simp add: parse_all_def written_text List.map_filter_simps)
qed (simp add: parse_all_def List.map_filter_simps)

lemma parse_all_Nil [simp]: "parse_all [] = []"
  by (simp add: parse_all_def List.map_filter_simps)

lemma handle_hups:
  "list_all (\<lambda>t. t_signal t = SIGHUP) hs \<Longrightarrow>
     handle_all (hs @ ts) g = handle_all ts (g\<lparr>g_pipe := map_option (\<lambda>p. p @ concat (map written hs)) (g_pipe g),
        g_log := map_option (\<lambda>l. l @ concat (map written hs)) (g_log g)\<rparr>)"
proof (induction hs arbitrary: g)
  case Nil
  then show ?case by (simp add: option.map_ident)
next
  case (Cons h hs)
  then show ?case by (simp add: handler_def Let_def option.map_comp comp_def)
qed

section \<open>Properties\<close>

text \<open>Whatever signals arrive, with any signal number, sender, user and code, the records
  the handler writes fit its 80-byte buffer and the parser reads back exactly the sequence
  of signals, in order, from the text of all of them.\<close>

lemma signal_records_roundtrip:
  assumes "list_all event_ok ts"
  shows "parse_all (concat (map written ts)) = ts \<and> list_all (\<lambda>t. length (written t) \<le> 72) ts"
  using assms parse_all_records [of ts "[]"] length_rec_text by (auto simp: list_all_iff written_text)

definition ex_event :: "int \<Rightarrow> sig_event" where
  "ex_event sig = \<lparr> t_signal = sig, t_sender_pid = 0, t_sender_uid = 0, t_code = 0 \<rparr>"

lemma signal_records_roundtrip_example:
  "parse_all (concat (map written [ex_event 1, ex_event 15])) = [ex_event 1, ex_event 15] \<and>
     list_all (\<lambda>t. length (written t) \<le> 72) [ex_event 1, ex_event 15]"
  by (rule signal_records_roundtrip) (simp add: ex_event_def event_ok_def)

text \<open>
  C31: SIGHUP is recorded and never stops the process; the first stop signal is recorded
  and lets the process end in its own time; a second one ends it at once with 128 plus the
  signal number, whatever arrived in between.
\<close>

theorem handler_policy:
  assumes "list_all (\<lambda>t. t_signal t = SIGHUP) hs" "list_all (\<lambda>t. t_signal t = SIGHUP) hs'"
    and "t_signal t \<noteq> SIGHUP" "t_signal u \<noteq> SIGHUP" "\<not> g_stopping g"
  shows "handle_all (hs @ t # hs') g =
      Returned (g\<lparr>g_pipe := map_option (\<lambda>p. p @ concat (map written (hs @ t # hs'))) (g_pipe g),
                  g_log := map_option (\<lambda>l. l @ concat (map written (hs @ t # hs'))) (g_log g),
                  g_stopping := True\<rparr>)
    \<and> handle_all (hs @ t # hs' @ u # rest) g = Exited (128 + t_signal u)"
proof -
  have "handle_all (hs @ t # hs' @ []) g =
      Returned (g\<lparr>g_pipe := map_option (\<lambda>p. p @ concat (map written (hs @ t # hs'))) (g_pipe g),
                  g_log := map_option (\<lambda>l. l @ concat (map written (hs @ t # hs'))) (g_log g),
                  g_stopping := True\<rparr>)"
    using assms by (simp add: handle_hups handler_def Let_def option.map_comp comp_def
        del: append_Nil2) 
  moreover have "handle_all (hs @ t # hs' @ u # rest) g = Exited (128 + t_signal u)"
    using assms by (simp add: handle_hups handler_def Let_def)
  ultimately show ?thesis by simp
qed

theorem handler_policy_witness:
  "handle_all ([ex_event 1] @ ex_event 15 # [ex_event 1]) \<lparr> g_pipe = Some [], g_log = None, g_stopping = False \<rparr> =
      Returned \<lparr> g_pipe = Some (concat (map written [ex_event 1, ex_event 15, ex_event 1])), g_log = None,
                 g_stopping = True \<rparr>
    \<and> handle_all ([ex_event 1] @ ex_event 15 # [ex_event 1] @ ex_event 2 # [])
        \<lparr> g_pipe = Some [], g_log = None, g_stopping = False \<rparr> = Exited 130"
  using handler_policy [of "[ex_event 1]" "[ex_event 1]" "ex_event 15" "ex_event 2"
      "\<lparr> g_pipe = Some [], g_log = None, g_stopping = False \<rparr>" "[]"]
  by (simp add: ex_event_def SIGHUP_def)

lemma ex_event_ok: "event_ok (ex_event SIGHUP)" "event_ok (ex_event SIGTERM)"
  by (simp_all add: event_ok_def ex_event_def SIGHUP_def SIGTERM_def)

lemma ex_written:
  "written (ex_event SIGHUP) = ''signal 1 from pid=0 uid=0 code=0'' @ [CHR 0x0A]"
  "written (ex_event SIGTERM) = ''signal 15 from pid=0 uid=0 code=0'' @ [CHR 0x0A]"
  by (simp_all only: written_text ex_event_ok)
     (simp_all add: rec_text_def rec_defs ex_event_def SIGHUP_def SIGTERM_def dec_string_int_def
      dec_string.simps digit_char_def char_of_def bit_0)

lemma half_records:
  "parse_all ''signal 15 from pid=0 uid=0 co'' = []" "parse_all (''de=0'' @ [CHR 0x0A]) = []"
proof -
  have "rust_lines ''signal 15 from pid=0 uid=0 co'' = [''signal 15 from pid=0 uid=0 co'']"
    by (rule rust_lines_last) simp_all
  moreover have "rust_lines (''de=0'' @ [CHR 0x0A]) = [''de=0'']"
    using rust_lines_line [of "''de=0''" "[]"] by simp
  moreover have "rec_parse ''signal 15 from pid=0 uid=0 co'' = None" "rec_parse ''de=0'' = None"
    by (simp_all add: rec_parse_def rec_defs strip_prefix_def trim_start_def is_ws_def split: option.splits)
  ultimately show "parse_all ''signal 15 from pid=0 uid=0 co'' = []" "parse_all (''de=0'' @ [CHR 0x0A]) = []"
    by (simp_all add: parse_all_def List.map_filter_simps)
qed

text \<open>The reader thread parses every read on its own, and a read ends after 128 bytes: when
  four records are waiting the last one is cut in two, neither half parses, and a SIGTERM
  that follows three SIGHUPs never reaches the process.\<close>

lemma reader_loses_torn_record:
  "read_pipe (concat (map written [ex_event SIGHUP, ex_event SIGHUP, ex_event SIGHUP, ex_event SIGTERM]))
     = [ex_event SIGHUP, ex_event SIGHUP, ex_event SIGHUP]"
proof -
  let ?hups = "[ex_event SIGHUP, ex_event SIGHUP, ex_event SIGHUP]"
  let ?s = "concat (map written (?hups @ [ex_event SIGTERM]))"
  have "take 128 ?s = concat (map written ?hups) @ ''signal 15 from pid=0 uid=0 co''"
    and "drop 128 ?s = ''de=0'' @ [CHR 0x0A]"
    by (simp_all add: ex_written)
  moreover have "parse_all (concat (map written ?hups) @ ''signal 15 from pid=0 uid=0 co'') = ?hups"
    using parse_all_records [of ?hups] ex_event_ok half_records(1) by simp
  moreover have "read_pipe (''de=0'' @ [CHR 0x0A]) = []"
    by (subst read_pipe.simps) (simp add: half_records(2) [simplified] read_pipe.simps [of "[]"])
  ultimately have "read_pipe ?s = ?hups"
    by (subst read_pipe.simps) (simp add: ex_written)
  then show ?thesis by simp
qed

end
