(* ===== verification/Acct.thy ===== *)
theory Acct
  imports Prelude
begin

unbundle bit_operations_syntax

text \<open>
  The tail of the process accounting file (\<open>remgr/src/acct.rs\<close>): the 64-byte record of the
  kernel, read through its in-memory layout (little-endian, as on the platforms that have
  the file), the reading of its flags and the log line. The textual form of a time stamp
  comes from a library and is a parameter.
\<close>

section \<open>Records\<close>

definition ACCT_RECORD_SIZE :: nat where "ACCT_RECORD_SIZE = 64"

record acct_record =
  ar_comm :: bytes
  ar_utime :: nat
  ar_stime :: nat
  ar_etime :: nat
  ar_io :: nat
  ar_btime :: int
  ar_uid :: nat
  ar_gid :: nat
  ar_mem :: nat
  ar_tty :: nat
  ar_pid :: int
  ar_flag :: u32

definition AFORK :: u32 where "AFORK = 0x1"
definition AMAP :: u32 where "AMAP = 0x4"
definition ACORE :: u32 where "ACORE = 0x8"
definition AXSIG :: u32 where "AXSIG = 0x10"
definition APLEDGE :: u32 where "APLEDGE = 0x20"
definition ATRAP :: u32 where "ATRAP = 0x40"
definition AUNVEIL :: u32 where "AUNVEIL = 0x80"

record acct_entry =
  en_comm :: string
  en_pid :: int
  en_uid :: nat
  en_tty :: string
  en_btime :: int
  en_flag :: u32

definition outcome :: "acct_entry \<Rightarrow> string" where
  "outcome e =
     (let f = en_flag e;
          parts = (if f AND AXSIG \<noteq> 0 then [''killed by a signal''] else []) @
                  (if f AND ACORE \<noteq> 0 then [''dumped core''] else []) @
                  (if f AND APLEDGE \<noteq> 0 then [''killed by pledge''] else []) @
                  (if f AND AUNVEIL \<noteq> 0 then [''killed by unveil''] else []) @
                  (if f AND ATRAP \<noteq> 0 \<or> f AND AMAP \<noteq> 0 then [''memory/syscall violation''] else []) @
                  (if f AND AFORK \<noteq> 0 then [''forked, no exec''] else [])
      in if parts = [] then ''normal exit'' else join '', '' parts)"

definition acct_describe :: "(int \<Rightarrow> string option) \<Rightarrow> acct_entry \<Rightarrow> string" where
  "acct_describe rfc3339 e =
     (case rfc3339 (en_btime e) of Some w \<Rightarrow> w | None \<Rightarrow> ''btime='' @ dec_string_int (en_btime e)) @
     '' '' @ en_comm e @ '' uid='' @ dec_string (en_uid e) @ '' pid='' @ dec_string_int (en_pid e) @
     '' tty='' @ en_tty e @ '' ('' @ outcome e @ '')''"

section \<open>Reading the file\<close>

definition le_decode :: "bytes \<Rightarrow> nat" where
  "le_decode bs = be_decode (rev bs)"

definition le_encode :: "nat \<Rightarrow> nat \<Rightarrow> bytes" where
  "le_encode k n = rev (be_encode k n)"

text \<open>The bytes of a field: \<open>n\<close> bytes at offset \<open>at\<close>.\<close>

definition field_at :: "nat \<Rightarrow> nat \<Rightarrow> bytes \<Rightarrow> bytes" where
  "field_at at n c = take n (drop at c)"

definition acct_of_bytes :: "bytes \<Rightarrow> acct_record" where
  "acct_of_bytes c = \<lparr>
     ar_comm = field_at 0 24 c,
     ar_utime = le_decode (field_at 24 2 c), ar_stime = le_decode (field_at 26 2 c),
     ar_etime = le_decode (field_at 28 2 c), ar_io = le_decode (field_at 30 2 c),
     ar_btime = sint (of_nat (le_decode (field_at 32 8 c)) :: 64 word),
     ar_uid = le_decode (field_at 40 4 c), ar_gid = le_decode (field_at 44 4 c),
     ar_mem = le_decode (field_at 48 4 c), ar_tty = le_decode (field_at 52 4 c),
     ar_pid = sint (of_nat (le_decode (field_at 56 4 c)) :: 32 word),
     ar_flag = of_nat (le_decode (field_at 60 4 c)) \<rparr>"

definition hex_lower_digit :: "nat \<Rightarrow> char" where
  "hex_lower_digit d = (if d < 10 then char_of (48 + d) else char_of (87 + d))"

fun hex_fixed :: "nat \<Rightarrow> nat \<Rightarrow> string" where
  "hex_fixed 0 n = []"
| "hex_fixed (Suc k) n = hex_fixed k (n div 16) @ [hex_lower_digit (n mod 16)]"

definition entry_of :: "acct_record \<Rightarrow> acct_entry" where
  "entry_of r = \<lparr>
     en_comm = trim (map (\<lambda>b. char_of (unat b)) (takeWhile (\<lambda>b. b \<noteq> 0) (ar_comm r))),
     en_pid = ar_pid r, en_uid = ar_uid r,
     en_tty = (if ar_tty r = 2 ^ 32 - 1 then ''none'' else ''dev=0x'' @ hex_fixed 8 (ar_tty r)),
     en_btime = ar_btime r, en_flag = ar_flag r \<rparr>"

function chunks_exact :: "nat \<Rightarrow> bytes \<Rightarrow> bytes list" where
  "chunks_exact n bs = (if n = 0 \<or> length bs < n then [] else take n bs # chunks_exact n (drop n bs))"
  by pat_completeness auto
termination
  by (relation "measure (\<lambda>(n, bs). length bs)") auto

declare chunks_exact.simps [simp del]

definition recent :: "bytes \<Rightarrow> nat \<Rightarrow> acct_entry list" where
  "recent file limit =
     (let complete = length file div ACCT_RECORD_SIZE;
          tk = min limit complete
      in if tk = 0 then []
         else (let buf = take (tk * ACCT_RECORD_SIZE) (drop ((complete - tk) * ACCT_RECORD_SIZE) file)
               in map (\<lambda>c. entry_of (acct_of_bytes c)) (chunks_exact ACCT_RECORD_SIZE buf)))"

section \<open>The layout\<close>

text \<open>The bytes the kernel writes for a record.\<close>

definition acct_bytes :: "acct_record \<Rightarrow> bytes" where
  "acct_bytes r = ar_comm r @ le_encode 2 (ar_utime r) @ le_encode 2 (ar_stime r) @ le_encode 2 (ar_etime r) @
     le_encode 2 (ar_io r) @ le_encode 8 (unat (of_int (ar_btime r) :: 64 word)) @ le_encode 4 (ar_uid r) @
     le_encode 4 (ar_gid r) @ le_encode 4 (ar_mem r) @ le_encode 4 (ar_tty r) @
     le_encode 4 (unat (of_int (ar_pid r) :: 32 word)) @ le_encode 4 (unat (ar_flag r))"

definition acct_ok :: "acct_record \<Rightarrow> bool" where
  "acct_ok r \<longleftrightarrow> length (ar_comm r) = 24 \<and> ar_utime r < 2 ^ 16 \<and> ar_stime r < 2 ^ 16 \<and> ar_etime r < 2 ^ 16 \<and>
     ar_io r < 2 ^ 16 \<and> - (2 ^ 63) \<le> ar_btime r \<and> ar_btime r < 2 ^ 63 \<and> ar_uid r < 2 ^ 32 \<and> ar_gid r < 2 ^ 32 \<and>
     ar_mem r < 2 ^ 32 \<and> ar_tty r < 2 ^ 32 \<and> - (2 ^ 31) \<le> ar_pid r \<and> ar_pid r < 2 ^ 31"

lemma le_roundtrip [codec_simps]: "n < 256 ^ k \<Longrightarrow> le_decode (le_encode k n) = n"
  by (simp add: le_decode_def le_encode_def codec_simps)

lemma length_le_encode [simp]: "length (le_encode k n) = k"
  by (simp add: le_encode_def)

lemma field_at_skip: "length a \<le> at \<Longrightarrow> field_at at n (a @ b) = field_at (at - length a) n b"
  by (simp add: field_at_def)

lemma field_at_here: "length a = n \<Longrightarrow> field_at 0 n (a @ b) = a" "length a = n \<Longrightarrow> field_at 0 n a = a"
  by (simp_all add: field_at_def)

lemma length_acct_bytes: "acct_ok r \<Longrightarrow> length (acct_bytes r) = ACCT_RECORD_SIZE"
  by (simp add: acct_bytes_def acct_ok_def ACCT_RECORD_SIZE_def)

lemma acct_of_bytes_bytes:
  assumes "acct_ok r"
  shows "acct_of_bytes (acct_bytes r) = r"
proof -
  have "unat (w :: 64 word) < 256 ^ 8" "unat (v :: 32 word) < 256 ^ 4" for w v
    using unsigned_less [of w, where 'a = nat] unsigned_less [of v, where 'a = nat] by simp_all
  then have w: "le_decode (le_encode 8 (unat (w :: 64 word))) = unat w"
    "le_decode (le_encode 4 (unat (v :: 32 word))) = unat v" for w v
    by (simp_all only: le_roundtrip)
  have i: "sint (of_int (ar_btime r) :: 64 word) = ar_btime r" "sint (of_int (ar_pid r) :: 32 word) = ar_pid r"
    using assms by (simp_all add: acct_ok_def signed_of_int signed_take_bit_int_eq_self)
  show ?thesis
    using assms unfolding acct_of_bytes_def acct_bytes_def acct_ok_def
    by (simp add: field_at_skip field_at_here le_roundtrip w i)
qed

lemma chunks_exact_concat:
  "list_all (\<lambda>c. length c = n) cs \<Longrightarrow> 0 < n \<Longrightarrow> chunks_exact n (concat cs) = cs"
proof (induction cs)
  case Nil
  then show ?case by (subst chunks_exact.simps) simp
next
  case (Cons c cs)
  then show ?case by (subst chunks_exact.simps) simp
qed

lemma concat_drop_take:
  "list_all (\<lambda>c. length c = n) cs \<Longrightarrow> drop (k * n) (concat cs) = concat (drop k cs)"
proof (induction cs arbitrary: k)
  case (Cons c cs)
  then show ?case by (cases k) auto
qed simp

lemma length_concat_same: "list_all (\<lambda>c. length c = n) cs \<Longrightarrow> length (concat cs) = length cs * n"
  by (induction cs) auto

section \<open>Properties\<close>

text \<open>Reading the accounting file gives the last \<open>limit\<close> complete records, oldest first, each
  decoded to what the kernel wrote; a record still being written at the end is ignored.\<close>

lemma recent_is_tail:
  assumes "list_all acct_ok rs" "length torn < 64"
  shows "recent (concat (map acct_bytes rs) @ torn) limit = map entry_of (drop (length rs - limit) rs)"
proof -
  let ?cs = "map acct_bytes rs"
  have len: "list_all (\<lambda>c. length c = 64) ?cs"
    using assms(1) length_acct_bytes by (auto simp: list_all_iff ACCT_RECORD_SIZE_def)
  have total: "length (concat ?cs @ torn) = length rs * 64 + length torn"
    using length_concat_same [OF len] by simp
  have complete: "length (concat ?cs @ torn) div 64 = length rs"
    unfolding total using assms(2) by simp
  let ?k = "length rs - limit" and ?t = "min limit (length rs)"
  have k: "length rs - ?t = ?k" by simp
  show ?thesis
  proof (cases "?t = 0")
    case True
    then show ?thesis unfolding recent_def ACCT_RECORD_SIZE_def complete Let_def by auto
  next
    case False
    have tail: "list_all (\<lambda>c. length c = 64) (drop ?k ?cs)"
      using len unfolding list_all_iff by (meson in_set_dropD)
    have "drop (?k * 64) (concat ?cs @ torn) = concat (drop ?k ?cs) @ torn"
      using concat_drop_take [OF len, of ?k] length_concat_same [OF len] by simp
    moreover have "length (concat (drop ?k ?cs)) = ?t * 64"
      using length_concat_same [OF tail] by (simp add: min_def)
    ultimately have "take (?t * 64) (drop (?k * 64) (concat ?cs @ torn)) = concat (drop ?k ?cs)" by simp
    moreover have "chunks_exact 64 (concat (drop ?k ?cs)) = drop ?k ?cs"
      using tail by (rule chunks_exact_concat) simp
    ultimately have "recent (concat ?cs @ torn) limit = map (\<lambda>c. entry_of (acct_of_bytes c)) (drop ?k ?cs)"
      unfolding recent_def ACCT_RECORD_SIZE_def complete Let_def k using False by simp
    also have "\<dots> = map entry_of (drop ?k rs)"
      using assms(1) by (simp add: drop_map list_all_iff acct_of_bytes_bytes in_set_dropD)
    finally show ?thesis .
  qed
qed

definition ex_record :: "int \<Rightarrow> acct_record" where
  "ex_record pid = \<lparr> ar_comm = [115, 104] @ replicate 22 0, ar_utime = 0, ar_stime = 0, ar_etime = 0, ar_io = 0,
     ar_btime = 1790412428, ar_uid = 0, ar_gid = 0, ar_mem = 0, ar_tty = 2 ^ 32 - 1, ar_pid = pid,
     ar_flag = AFORK \<rparr>"

lemma recent_is_tail_example:
  "recent (concat (map acct_bytes [ex_record 4711, ex_record 4712]) @ [1, 2, 3]) 1
     = map entry_of (drop (length [ex_record 4711, ex_record 4712] - 1) [ex_record 4711, ex_record 4712])"
  by (rule recent_is_tail) (simp_all add: ex_record_def acct_ok_def)

end
