(* ===== verification/Boot.thy ===== *)
theory Boot
  imports Console_Inv Signals Acct
begin

text \<open>
  The main program (\<open>remgr/src/main.rs\<close>): the command line, the order of start-up from the
  signal handler through the configuration, the first password and certificate to the sandbox
  and the enabled modules, and the shutdown on a termination signal. System calls appear as
  outcomes of the environment.
\<close>

section \<open>The command line\<close>

datatype cli = RunWith string | ShowVersion | ShowHelp | BadArgument string

fun parse_args :: "string list \<Rightarrow> string \<Rightarrow> cli" where
  "parse_args [] config_path = RunWith config_path"
| "parse_args (arg # args) config_path =
     (if arg = ''--config'' \<or> arg = ''-c'' then
        (case args of [] \<Rightarrow> RunWith config_path | p # rest \<Rightarrow> parse_args rest p)
      else if arg = ''--version'' \<or> arg = ''-V'' then ShowVersion
      else if arg = ''--help'' \<or> arg = ''-h'' then ShowHelp
      else BadArgument arg)"

text \<open>A relative path is resolved before the working directory changes.\<close>

definition pin_config_path :: "host \<Rightarrow> string option \<Rightarrow> string \<Rightarrow> string" where
  "pin_config_path h cwd config_path =
     (if \<not> is_absolute h config_path
      then (case cwd of Some d \<Rightarrow> path_join h d config_path | None \<Rightarrow> config_path)
      else config_path)"

section \<open>Names for the console certificate\<close>

definition trim_dots :: "string \<Rightarrow> string" where
  "trim_dots s = rev (dropWhile (\<lambda>c. c = CHR ''.'') (rev s))"

text \<open>\<open>platform::hostname\<close>, from what the system calls the machine.\<close>

definition hostname :: "host \<Rightarrow> string option \<Rightarrow> string option" where
  "hostname h raw =
     (case raw of
        None \<Rightarrow> None
      | Some n \<Rightarrow> (let t = (if h_windows h then trim n else trim_dots (trim n)) in if t = [] then None else Some t))"

definition add_name :: "string \<Rightarrow> string list \<Rightarrow> string list" where
  "add_name n names = (if n \<noteq> [] \<and> n \<notin> set names then names @ [n] else names)"

text \<open>The address a default route would use: for each target, whether connecting works and the
  local address it gives.\<close>

fun routed_address :: "(bool \<times> string option) list \<Rightarrow> string option" where
  "routed_address [] = None"
| "routed_address ((connected, addr) # targets) =
     (if connected then (case addr of Some ip \<Rightarrow> Some ip | None \<Rightarrow> routed_address targets)
      else routed_address targets)"

definition console_cert_names :: "string option \<Rightarrow> (bool \<times> string option) list option \<Rightarrow> string list" where
  "console_cert_names host_name probes =
     (let names = (case host_name of Some h \<Rightarrow> if h \<noteq> ''localhost'' then add_name h [] else [] | None \<Rightarrow> []);
          names = add_name ''::1'' (add_name ''127.0.0.1'' (add_name ''localhost'' names))
      in case Option.bind probes routed_address of Some ip \<Rightarrow> add_name ip names | None \<Rightarrow> names)"

section \<open>Start-up\<close>

definition DEFAULT_CONSOLE_PASSWORD :: string where "DEFAULT_CONSOLE_PASSWORD = ''admin''"

record boot_env =
  bo_sys :: sys
  bo_openbsd :: bool
  bo_toml_read :: "string \<Rightarrow> json option"
  bo_signals :: "nat \<Rightarrow> bool"
  bo_there :: "string \<Rightarrow> bool"
  bo_creatable :: "string \<Rightarrow> bool"
  bo_chdir :: bool
  bo_hash :: "string \<Rightarrow> string option"
  bo_pw_file :: "nat \<Rightarrow> nat option"
  bo_pw_chmod :: bool
  bo_raw_name :: "string option"
  bo_probes :: "(bool \<times> string option) list option"
  bo_cert :: cert_env
  bo_unveil :: "string \<Rightarrow> bool"
  bo_pledge :: bool
  bo_keys :: key_world
  bo_et :: et_world

datatype boot_error =
    SignalsFailed
  | BadConfig config_error
  | DirsFailed
  | ChdirFailed
  | HashFailed
  | SaveFailed config_error
  | PledgeFailed

definition boot_save :: "boot_env \<Rightarrow> nat \<Rightarrow> config \<Rightarrow> files \<Rightarrow> (config_error + unit) \<times> files" where
  "boot_save bo k c disk = config_save (sy_toml (bo_sys bo)) (sy_host (bo_sys bo)) (sy_save (bo_sys bo) k) c disk"

text \<open>The first password: only while no hash is configured. The copy in the run directory is
  written as far as that works.\<close>

definition initial_password_file :: "boot_env \<Rightarrow> files \<Rightarrow> files" where
  "initial_password_file bo disk =
     (let h = sy_host (bo_sys bo); p = path_join h (run_dir h) ''initial_password'';
          disk1 = snd (run_ops h (bo_pw_file bo) 0
            [OpenPublic p, WriteAll p (DEFAULT_CONSOLE_PASSWORD @ [CHR 0x0A])] disk)
      in if \<not> h_windows h \<and> bo_pw_chmod bo then set_private True p disk1 else disk1)"

definition boot_password :: "boot_env \<Rightarrow> config \<Rightarrow> files \<Rightarrow> (boot_error + config \<times> string option) \<times> files" where
  "boot_password bo c disk =
     (if cc_password_hash (cf_console c) \<noteq> [] then (Ok (c, None), disk)
      else case bo_hash bo DEFAULT_CONSOLE_PASSWORD of
        None \<Rightarrow> (Err HashFailed, disk)
      | Some hash \<Rightarrow>
          (let c1 = c\<lparr>cf_console := (cf_console c)\<lparr>cc_password_hash := hash\<rparr>\<rparr> in
           case boot_save bo 0 c1 disk of
             (Inl e, disk1) \<Rightarrow> (Err (SaveFailed e), disk1)
           | (Inr _, disk1) \<Rightarrow> (Ok (c1, Some DEFAULT_CONSOLE_PASSWORD), initial_password_file bo disk1)))"

text \<open>\<open>Path::parent\<close>, without the file name and the separators before it.\<close>

definition path_parent :: "host \<Rightarrow> string \<Rightarrow> string option" where
  "path_parent h p =
     (let name = dropWhile (is_path_sep h) (rev p) in
      if name = [] then None
      else (let dir = dropWhile (\<lambda>c. \<not> is_path_sep h c) name; above = dropWhile (is_path_sep h) dir
            in if dir = [] then Some [] else Some (if above = [] then [hd dir] else rev above)))"

text \<open>The first certificate: only while TLS is off and the configured file does not exist. A
  failure is logged and the console is served over plain HTTP.\<close>

definition boot_tls :: "boot_env \<Rightarrow> config \<Rightarrow> files \<Rightarrow> (boot_error + config) \<times> files" where
  "boot_tls bo c disk =
     (let h = sy_host (bo_sys bo); cert = cc_tls_cert (cf_console c) in
      if cc_tls (cf_console c) \<or> disk cert \<noteq> None then (Ok c, disk)
      else
        (let names = console_cert_names (hostname h (bo_raw_name bo)) (bo_probes bo);
             cn = (case names of [] \<Rightarrow> ''remgr.local'' | n # _ \<Rightarrow> n);
             dir = (case path_parent h cert of Some d \<Rightarrow> if d = [] then cert_dir h else d | None \<Rightarrow> cert_dir h)
         in case generate_service_cert_names (cv_mint (bo_cert bo)) h (cv_fails (bo_cert bo)) (cv_chmod (bo_cert bo))
                   dir ''console'' names cn 825 disk of
              (Inl _, disk1) \<Rightarrow> (Ok c, disk1)
            | (Inr (cp, kp), disk1) \<Rightarrow>
                (let c1 = c\<lparr>cf_console := (cf_console c)\<lparr>cc_tls := True, cc_tls_cert := cp, cc_tls_key := kp\<rparr>\<rparr> in
                 case boot_save bo 1 c1 disk1 of
                   (Inl e, disk2) \<Rightarrow> (Err (SaveFailed e), disk2)
                 | (Inr _, disk2) \<Rightarrow> (Ok c1, disk2))))"

text \<open>Everything up to the application state, in order; the second component is what the disk
  looks like afterwards, whatever happened.\<close>

definition boot_state ::
  "boot_env \<Rightarrow> string \<Rightarrow> files \<Rightarrow> (boot_error + app_state \<times> sandbox \<times> string option) \<times> files" where
  "boot_state bo config_path disk =
     (let h = sy_host (bo_sys bo) in
      if \<not> bo_signals bo 0 then (Err SignalsFailed, disk)
      else case config_load (bo_toml_read bo) h disk config_path of
        Inl e \<Rightarrow> (Err (BadConfig e), disk)
      | Inr c0 \<Rightarrow>
          if \<not> fst (prepare_dirs h (bo_there bo) (bo_creatable bo) config_path) then (Err DirsFailed, disk)
          else if bo_openbsd bo \<and> \<not> bo_chdir bo then (Err ChdirFailed, disk)
          else case boot_password bo (c0\<lparr>cf_config_path := config_path\<rparr>) disk of
            (Inl e, disk1) \<Rightarrow> (Err e, disk1)
          | (Inr (c1, initial), disk1) \<Rightarrow>
              (case boot_tls bo c1 disk1 of
                 (Inl e, disk2) \<Rightarrow> (Err e, disk2)
               | (Inr c2, disk2) \<Rightarrow>
                   (case sandbox_apply (bo_openbsd bo) (bo_unveil bo) (bo_pledge bo) of
                      (False, _) \<Rightarrow> (Err PledgeFailed, disk2)
                    | (True, sb) \<Rightarrow> (Ok (app_new c2 disk2 (bo_keys bo) (bo_et bo), sb, initial), disk2))))"

text \<open>The enabled modules, in this order; one that fails is logged and does not stop the rest.
  \<open>snapshot\<close> is the configuration read before the first of them.\<close>

definition auto_start :: "sys \<Rightarrow> app_state \<Rightarrow> app_state" where
  "auto_start sy s0 =
     (let (snap, s) = config_blocking (sy_free sy) s0
      in foldl (\<lambda>s sv. if service_enabled sv snap then snd (module_start sy 2 sv s) else s) s
           [EasyTier, StunTurn, RustDesk, Frps, Frpc])"

definition boot :: "boot_env \<Rightarrow> string \<Rightarrow> files \<Rightarrow> boot_error + app_state \<times> sandbox \<times> string option" where
  "boot bo config_path disk =
     (case fst (boot_state bo config_path disk) of
        Inl e \<Rightarrow> Err e
      | Inr (s, sb, initial) \<Rightarrow>
          (let s1 = auto_start (bo_sys bo) s
           in if bo_signals bo 1 then Ok (s1, sb, initial) else Err SignalsFailed))"

section \<open>Shutdown\<close>

text \<open>The task that waits for signals: those that do not stop the process are logged and
  skipped.\<close>

fun await_stop :: "sig_event list \<Rightarrow> (string list \<times> sig_event list) option" where
  "await_stop [] = None"
| "await_stop (t # ts) =
     (if stops t then Some ([sig_describe t], ts)
      else map_option (\<lambda>(ls, rest). (sig_describe t # ls, rest)) (await_stop ts))"

definition shutdown_modules :: "app_state \<Rightarrow> app_state" where
  "shutdown_modules s = foldl (\<lambda>s sv. module_stop sv s) s [Frpc, Frps, RustDesk, StunTurn, EasyTier]"

text \<open>\<open>trace_recent_commands\<close>: the lines about the last commands; \<open>Inl\<close> is why the accounting
  file cannot be read.\<close>

definition ACCT_PATH :: string where "ACCT_PATH = ''/var/account/acct''"

definition trace_recent_commands ::
  "(int \<Rightarrow> string option) \<Rightarrow> host \<Rightarrow> string + bytes \<Rightarrow> nat \<Rightarrow> string \<Rightarrow> string list" where
  "trace_recent_commands rfc3339 h acct wanted when =
     (if h_windows h then []
      else case acct of
        Inl e \<Rightarrow> [''accounting ('' @ when @ ''): cannot read '' @ ACCT_PATH @ '': '' @ e]
      | Inr raw \<Rightarrow>
          (let entries = recent raw wanted in
           if entries = []
           then [''accounting: '' @ ACCT_PATH @ '' has no records yet '' @ em_dash @
             '' enable accounting (accounting=YES in              rc.conf.local, then accton(8)) to have the commands before a signal recorded'']
           else (''accounting ('' @ when @ ''): the last '' @ dec_string (length entries) @ '' commands the kernel recorded:'') #
             map (\<lambda>e. ''accounting: '' @ acct_describe rfc3339 e) entries))"

text \<open>The whole task: wait for a signal that stops the process, log who may have sent it, stop the
  modules, log again. The accounting file is read twice, so it has two outcomes.\<close>

definition shutdown_task ::
  "(int \<Rightarrow> string option) \<Rightarrow> host \<Rightarrow> (string + bytes) \<times> (string + bytes) \<Rightarrow> sig_event list \<Rightarrow> app_state \<Rightarrow>
     (string list \<times> app_state) option" where
  "shutdown_task rfc3339 h accts signals s =
     (case await_stop signals of
        None \<Rightarrow> None
      | Some (ls, _) \<Rightarrow>
          Some (ls @ trace_recent_commands rfc3339 h (fst accts) 12 ''before the shutdown''
                @ trace_recent_commands rfc3339 h (snd accts) 6 ''while the shutdown completed''
                @ [''stopped; exiting''],
            shutdown_modules s))"

section \<open>Properties\<close>

text \<open>What the two bootstrap steps leave of the configuration.\<close>

lemma boot_password_result:
  assumes "boot_password bo c disk = (Inr (c1, initial), disk1)"
  shows "if cc_password_hash (cf_console c) \<noteq> [] then c1 = c \<and> initial = None \<and> disk1 = disk
     else initial = Some DEFAULT_CONSOLE_PASSWORD \<and>
       (\<exists>hash. bo_hash bo DEFAULT_CONSOLE_PASSWORD = Some hash \<and>
          c1 = c\<lparr>cf_console := (cf_console c)\<lparr>cc_password_hash := hash\<rparr>\<rparr>)"
  using assms by (auto simp: boot_password_def Let_def split: if_splits option.splits prod.splits sum.splits)

lemma boot_tls_result:
  assumes "boot_tls bo c disk = (Inr c1, disk1)"
  shows "\<exists>on cert key. c1 = c\<lparr>cf_console := (cf_console c)\<lparr>cc_tls := on, cc_tls_cert := cert, cc_tls_key := key\<rparr>\<rparr> \<and>
     (cc_tls (cf_console c) \<longrightarrow> on)"
proof -
  have "c = c\<lparr>cf_console := (cf_console c)\<lparr>cc_tls := cc_tls (cf_console c),
      cc_tls_cert := cc_tls_cert (cf_console c), cc_tls_key := cc_tls_key (cf_console c)\<rparr>\<rparr>"
    by simp
  then show ?thesis
    using assms by (auto simp: boot_tls_def Let_def split: if_splits prod.splits sum.splits; blast)
qed

lemma boot_state_result:
  assumes "fst (boot_state bo path disk) = Inr (s, sb, initial)"
  obtains c0 c1 c2 disk1 disk2 where
    "config_load (bo_toml_read bo) (sy_host (bo_sys bo)) disk path = Ok c0"
    "boot_password bo (c0\<lparr>cf_config_path := path\<rparr>) disk = (Inr (c1, initial), disk1)"
    "boot_tls bo c1 disk1 = (Inr c2, disk2)"
    "sandbox_apply (bo_openbsd bo) (bo_unveil bo) (bo_pledge bo) = (True, sb)"
    "s = app_new c2 disk2 (bo_keys bo) (bo_et bo)"
  using assms by (auto simp: boot_state_def Let_def split: if_splits prod.splits sum.splits bool.splits)

lemma sandbox_entered:
  assumes "sandbox_apply True u pl = (True, sb)"
  shows "sb_locked sb \<and> sb_promises sb = Some PROMISES \<and> set (sb_visible sb) \<subseteq> set unveil_paths"
  using assms sandbox_apply_ok [of u]
  by (cases pl) (auto simp: sandbox_apply_def sandbox_calls_def sandbox_run_unveils)

text \<open>The enabled modules are started one after the other.\<close>

lemma foldl_start:
  assumes "\<And>s sv. P s \<Longrightarrow> P (snd (module_start sy 2 sv s))" "P s"
  shows "P (foldl (\<lambda>s sv. if want sv then snd (module_start sy 2 sv s) else s) s svs)"
  using assms(2) by (induction svs arbitrary: s) (simp_all add: assms(1))

lemma auto_start_inv: "app_inv s \<Longrightarrow> app_inv (auto_start sy s)"
  unfolding auto_start_def split_beta Let_def
  by (rule foldl_start [where P = app_inv]) (simp_all only: module_start_app config_blocking_inv)

lemma auto_start_console: "cf_console (ap_config (auto_start sy s)) = cf_console (ap_config s)"
  unfolding auto_start_def split_beta Let_def
  by (rule foldl_start [where P = "\<lambda>s'. cf_console (ap_config s') = cf_console (ap_config s)"])
     (simp_all add: module_start_console)

lemma module_start_sessions: "ap_sessions (snd (module_start sy k sv s)) = ap_sessions s"
  by (cases sv)
     (auto simp: Let_def split_beta frps_start_def frpc_start_locked_def frpc_adopt_def start_config_def
       split: sum.splits)

lemma auto_start_sessions: "ap_sessions (auto_start sy s) = ap_sessions s"
  unfolding auto_start_def split_beta Let_def
  by (rule foldl_start [where P = "\<lambda>s'. ap_sessions s' = ap_sessions s"])
     (simp_all add: module_start_sessions)

lemma bootstrap_wf:
  assumes "config_load rd h disk path = Ok c0"
    and "boot_password bo (c0\<lparr>cf_config_path := path\<rparr>) disk = (Inr (c1, initial), disk1)"
    and "boot_tls bo c1 disk1 = (Inr c2, disk2)"
  shows "wf_config c2"
  using config_load_wf [OF assms(1)] boot_password_result [OF assms(2)] boot_tls_result [OF assms(3)]
  by (auto simp: wf_config_def split: if_splits)

lemma boot_result:
  assumes "boot bo path disk = Ok (s, sb, initial)"
  obtains c0 c1 c2 disk1 disk2 where
    "config_load (bo_toml_read bo) (sy_host (bo_sys bo)) disk path = Ok c0"
    "boot_password bo (c0\<lparr>cf_config_path := path\<rparr>) disk = (Inr (c1, initial), disk1)"
    "boot_tls bo c1 disk1 = (Inr c2, disk2)"
    "sandbox_apply (bo_openbsd bo) (bo_unveil bo) (bo_pledge bo) = (True, sb)"
    "s = auto_start (bo_sys bo) (app_new c2 disk2 (bo_keys bo) (bo_et bo))"
  using assms
  by (auto simp: boot_def Let_def split: sum.splits if_splits elim!: boot_state_result)

text \<open>
  C14: a start-up that gets to serving the console establishes the invariant every later
  request relies on, starts with no session, and on OpenBSD has entered the sandbox. A
  password hash the operator configured is never replaced; without one the hash is that of
  the default password. TLS that was on stays on.
\<close>

theorem boot_establishes_invariant:
  assumes "boot bo path disk = Ok (s, sb, initial)"
    and "config_load (bo_toml_read bo) (sy_host (bo_sys bo)) disk path = Ok c0"
  shows "wf_config (ap_config s) \<and> wf_config (ap_snapshot s) \<and> modules_inv s \<and> ap_sessions s = Map.empty \<and>
    (bo_openbsd bo \<longrightarrow> sb_locked sb \<and> sb_promises sb = Some PROMISES \<and> set (sb_visible sb) \<subseteq> set unveil_paths) \<and>
    (if cc_password_hash (cf_console c0) \<noteq> []
     then initial = None \<and> cc_password_hash (cf_console (ap_config s)) = cc_password_hash (cf_console c0)
     else initial = Some DEFAULT_CONSOLE_PASSWORD \<and>
       bo_hash bo DEFAULT_CONSOLE_PASSWORD = Some (cc_password_hash (cf_console (ap_config s)))) \<and>
    (cc_tls (cf_console c0) \<longrightarrow> cc_tls (cf_console (ap_config s)))"
  using assms(1)
proof (cases rule: boot_result)
  case (1 c0' c1 c2 disk1 disk2)
  then have c0: "c0' = c0" using assms(2) by simp
  define s0 where "s0 = app_new c2 disk2 (bo_keys bo) (bo_et bo)"
  have "app_inv s0"
    using bootstrap_wf [OF 1(1-3)] modules_new_inv
    by (simp add: app_inv_def cfgs_ok_def s0_def) (simp add: app_new_def)
  then have inv: "app_inv s" using auto_start_inv 1(5) s0_def by simp
  have co: "cf_console (ap_config s) = cf_console c2" "ap_sessions s = Map.empty"
    using 1(5) by (simp_all add: auto_start_console auto_start_sessions) (simp_all add: app_new_def)
  have sandboxed: "bo_openbsd bo \<longrightarrow> sb_locked sb \<and> sb_promises sb = Some PROMISES \<and> set (sb_visible sb) \<subseteq> set unveil_paths"
    using sandbox_entered 1(4) by (cases "bo_openbsd bo") auto
  obtain on where console: "cc_password_hash (cf_console c2) = cc_password_hash (cf_console c1)"
    "cc_tls (cf_console c2) = on" "cc_tls (cf_console c1) \<longrightarrow> on"
    using boot_tls_result [OF 1(3)] by auto
  show ?thesis
    using inv sandboxed boot_password_result [OF 1(2)] co console
    by (auto simp: app_inv_def cfgs_ok_def c0)
qed

text \<open>A host on which everything works and nothing is installed yet.\<close>

definition ex_boot :: boot_env where
  "ex_boot = \<lparr> bo_sys = ex_sys, bo_openbsd = True, bo_toml_read = (\<lambda>_. None), bo_signals = (\<lambda>_. True),
     bo_there = (\<lambda>_. False), bo_creatable = (\<lambda>_. True), bo_chdir = True, bo_hash = (\<lambda>p. Some (''#'' @ p)),
     bo_pw_file = (\<lambda>_. None), bo_pw_chmod = True, bo_raw_name = Some ''relay'', bo_probes = None,
     bo_cert = \<lparr> cv_mint = (\<lambda>_ _ _. Some (ex_cert_pem, ex_key_pem)), cv_fails = (\<lambda>_. None), cv_chmod = (True, True) \<rparr>,
     bo_unveil = (\<lambda>_. True), bo_pledge = True, bo_keys = rm_keys ex_rustdesk, bo_et = em_world ex_easytier \<rparr>"

lemma ex_boot_save: "fst (boot_save ex_boot k c fs) = Ok ()"
  using config_save_no_failure [of "''x''" ex_host c fs] by (simp add: boot_save_def ex_boot_def ex_sys_def)

lemma ex_boot_password: "\<exists>c1 initial disk1. boot_password ex_boot c disk = (Inr (c1, initial), disk1)"
proof -
  have "bo_hash ex_boot DEFAULT_CONSOLE_PASSWORD = Some ''#admin''"
    by (simp add: ex_boot_def DEFAULT_CONSOLE_PASSWORD_def)
  then show ?thesis
    using ex_boot_save [of 0 "c\<lparr>cf_console := (cf_console c)\<lparr>cc_password_hash := ''#admin''\<rparr>\<rparr>" disk]
    by (auto simp: boot_password_def Let_def split: prod.splits sum.splits)
qed

lemma ex_boot_tls: "\<exists>c1 disk1. boot_tls ex_boot c disk = (Inr c1, disk1)"
proof -
  have "\<exists>d. boot_save ex_boot 1 c1 fs = (Inr (), d)" for c1 fs
    using ex_boot_save [of 1 c1 fs] by (metis prod.collapse)
  then show ?thesis by (auto simp: boot_tls_def Let_def split: prod.splits sum.splits) (metis prod.inject sum.distinct(1))+
qed

lemma ex_boot_ok: "\<exists>s sb initial. boot ex_boot ''/etc/remgr/config.toml'' Map.empty = Ok (s, sb, initial)"
proof -
  have load: "config_load (bo_toml_read ex_boot) (sy_host (bo_sys ex_boot)) Map.empty ''/etc/remgr/config.toml'' = Ok ex_loaded"
    using ex_loaded by (simp add: ex_boot_def ex_sys_def)
  obtain c1 initial disk1 where p: "boot_password ex_boot (ex_loaded\<lparr>cf_config_path := ''/etc/remgr/config.toml''\<rparr>) Map.empty
      = (Inr (c1, initial), disk1)"
    using ex_boot_password by blast
  obtain c2 disk2 where t: "boot_tls ex_boot c1 disk1 = (Inr c2, disk2)" using ex_boot_tls by blast
  have "fst (prepare_dirs (sy_host (bo_sys ex_boot)) (bo_there ex_boot) (bo_creatable ex_boot) ''/etc/remgr/config.toml'')"
    by (simp add: prepare_dirs_def ex_boot_def Let_def)
  moreover have "bo_signals ex_boot n" "bo_chdir ex_boot" for n by (simp_all add: ex_boot_def)
  moreover have "\<exists>sb. sandbox_apply (bo_openbsd ex_boot) (bo_unveil ex_boot) (bo_pledge ex_boot) = (True, sb)"
    by (simp add: ex_boot_def sandbox_apply_ok)
  ultimately show ?thesis using load p t by (auto simp: boot_def boot_state_def Let_def)
qed

theorem boot_establishes_invariant_witness:
  "\<exists>s sb. boot ex_boot ''/etc/remgr/config.toml'' Map.empty = Ok (s, sb, Some ''admin'') \<and>
     cc_password_hash (cf_console (ap_config s)) = ''#admin'' \<and> sb_locked sb"
proof -
  have load: "config_load (bo_toml_read ex_boot) (sy_host (bo_sys ex_boot)) Map.empty ''/etc/remgr/config.toml'' = Ok ex_loaded"
    using ex_loaded by (simp add: ex_boot_def ex_sys_def)
  have "cc_password_hash (cf_console ex_loaded) = []"
    by (simp add: ex_loaded_def config_load_def apply_platform_defaults_def default_config_def default_console_def)
  moreover obtain s sb initial where b: "boot ex_boot ''/etc/remgr/config.toml'' Map.empty = Ok (s, sb, initial)"
    using ex_boot_ok by blast
  moreover have "bo_openbsd ex_boot" "bo_hash ex_boot DEFAULT_CONSOLE_PASSWORD = Some ''#admin''"
    by (simp_all add: ex_boot_def DEFAULT_CONSOLE_PASSWORD_def)
  ultimately show ?thesis
    using boot_establishes_invariant [OF b load] by (simp add: DEFAULT_CONSOLE_PASSWORD_def)
qed

section \<open>A fresh installation\<close>

lemma run_ops_other:
  assumes "run_ops h fails i ops fs = (b, fs')"
    and "list_all (\<lambda>op. case op of OpenPrivate q \<Rightarrow> q \<noteq> p | OpenPublic q \<Rightarrow> q \<noteq> p | WriteAll q _ \<Rightarrow> q \<noteq> p
       | SyncAll q \<Rightarrow> q \<noteq> p | Rename q r \<Rightarrow> q \<noteq> p \<and> r \<noteq> p | CreateDirs _ \<Rightarrow> True) ops"
  shows "fs' p = fs p"
  using assms
proof (induction ops arbitrary: i fs)
  case (Cons op ops)
  have "exec_op h op fs p = fs p" "partial_op op n fs p = fs p" for n
    using Cons.prems(2)
    by (cases op; auto simp: open_private_def open_public_def append_file_def split: option.splits)+
  then show ?case using Cons.prems Cons.IH [of "Suc i" "exec_op h op fs"] by (auto split: option.splits)
qed simp

lemma config_save_other:
  assumes "config_save tw h fails c fs = (r, fs')" "p \<noteq> cf_config_path c" "p \<noteq> with_extension ''toml.tmp'' (cf_config_path c)"
  shows "fs' p = fs p"
  using assms(1)
proof (cases rule: config_save_cases)
  case (late out e)
  from late(2) show ?thesis by (rule run_ops_other) (use assms(2,3) in \<open>auto simp: save_ops_def Let_def\<close>)
next
  case (saved out)
  from saved(3) show ?thesis by (rule run_ops_other) (use assms(2,3) in \<open>auto simp: save_ops_def Let_def\<close>)
qed simp

lemma last_path_join: "b \<noteq> [] \<Longrightarrow> last (path_join h a b) = last b"
  by (simp add: path_join_def)

lemma initial_password_other: "last p = CHR ''m'' \<Longrightarrow> initial_password_file bo disk p = disk p"
proof -
  assume m: "last p = CHR ''m''"
  define q where "q = path_join (sy_host (bo_sys bo)) (run_dir (sy_host (bo_sys bo))) ''initial_password''"
  have "last q = CHR ''d''" by (simp add: q_def last_path_join)
  then have "q \<noteq> p" using m by auto
  obtain b d where r: "run_ops (sy_host (bo_sys bo)) (bo_pw_file bo) 0
      [OpenPublic q, WriteAll q (DEFAULT_CONSOLE_PASSWORD @ [CHR 0x0A])] disk = (b, d)"
    by (cases "run_ops (sy_host (bo_sys bo)) (bo_pw_file bo) 0
      [OpenPublic q, WriteAll q (DEFAULT_CONSOLE_PASSWORD @ [CHR 0x0A])] disk")
  then have "d p = disk p" by (rule run_ops_other) (simp add: \<open>q \<noteq> p\<close>)
  then show ?thesis
    using r \<open>q \<noteq> p\<close> by (auto simp: initial_password_file_def Let_def q_def [symmetric] set_private_def split: option.splits)
qed

text \<open>A generator that works: it mints a pair for every request, and the files can be written.\<close>

definition cert_works :: "cert_env \<Rightarrow> bool" where
  "cert_works cv \<longleftrightarrow> cv_fails cv = (\<lambda>_. None) \<and>
     (\<forall>names cn days. case cv_mint cv names cn days of None \<Rightarrow> False
        | Some (c, k) \<Rightarrow> str_contains ''BEGIN CERTIFICATE'' c \<and> str_contains ''END CERTIFICATE'' c \<and>
            str_contains ''PRIVATE KEY'' k \<and> str_contains ''END'' k)"

lemma console_cert_names_not_Nil: "console_cert_names hn probes \<noteq> []"
  by (auto simp: console_cert_names_def add_name_def Let_def split: option.splits)

lemma generate_works:
  assumes "cert_works cv" "names \<noteq> []" "valid_service_name service"
  shows "fst (generate_service_cert_names (cv_mint cv) h (cv_fails cv) (cv_chmod cv) dir service names cn days fs) =
     Ok (cert_paths h dir service)"
proof -
  obtain c k where m: "cv_mint cv names cn (max 1 (min days MAX_CERT_DAYS)) = Some (c, k)"
    and pem: "str_contains ''BEGIN CERTIFICATE'' c" "str_contains ''END CERTIFICATE'' c"
      "str_contains ''PRIVATE KEY'' k" "str_contains ''END'' k"
    using assms(1) unfolding cert_works_def
    by (cases "cv_mint cv names cn (max 1 (min days MAX_CERT_DAYS))")
       (fastforce dest: spec [of _ names] spec [of _ cn] spec [of _ "max 1 (min days MAX_CERT_DAYS)"] split: option.splits)+
  obtain fs1 where r: "run_ops h (\<lambda>_. None) 0 (stage_ops h dir service c k @ install_ops h dir service) fs = (True, fs1)"
    using run_ops_no_failure [of h 0 "stage_ops h dir service c k @ install_ops h dir service" fs]
    by (metis prod.collapse)
  have "cv_fails cv = (\<lambda>_. None)" using assms(1) by (simp add: cert_works_def)
  then show ?thesis
    by (simp add: generate_service_cert_names_def write_service_cert_def assms(2,3) m pem r split_beta
        del: run_ops.simps One_nat_def)
qed

lemma boot_tls_works:
  assumes "boot_tls bo c disk = (Inr c1, disk1)" "cert_works (bo_cert bo)" "disk (cc_tls_cert (cf_console c)) = None"
  shows "cc_tls (cf_console c1)"
proof -
  have "valid_service_name ''console''" by (simp add: valid_service_name_def is_ascii_alphanumeric_def)
  note works = generate_works [OF assms(2) console_cert_names_not_Nil this]
  have "fst r = Ok p \<Longrightarrow> \<exists>d. r = (Inr p, d)" for r :: "(cert_error + string \<times> string) \<times> files" and p
    by (cases r) simp
  note made = this [OF works]
  show ?thesis
  proof (cases "cc_tls (cf_console c)")
    case True
    then show ?thesis using boot_tls_result [OF assms(1)] by auto
  next
    case False
    define h where "h = sy_host (bo_sys bo)"
    define cert where "cert = cc_tls_cert (cf_console c)"
    define names where "names = console_cert_names (hostname h (bo_raw_name bo)) (bo_probes bo)"
    define cn where "cn = (case names of [] \<Rightarrow> ''remgr.local'' | n # _ \<Rightarrow> n)"
    define dir where "dir = (case path_parent h cert of Some d \<Rightarrow> if d = [] then cert_dir h else d | None \<Rightarrow> cert_dir h)"
    obtain d where "generate_service_cert_names (cv_mint (bo_cert bo)) h (cv_fails (bo_cert bo)) (cv_chmod (bo_cert bo))
        dir ''console'' names cn 825 disk = (Inr (cert_paths h dir ''console''), d)"
      using made unfolding names_def by blast
    then show ?thesis
      using assms(1,3) False
      by (auto simp: boot_tls_def Let_def h_def [symmetric] cert_def [symmetric] names_def [symmetric] cn_def [symmetric]
          dir_def [symmetric] split: prod.splits sum.splits)
  qed
qed

lemma boot_password_fresh:
  assumes "boot_password bo c disk = (Inr (c1, initial), disk1)" "disk p = None" "last p = CHR ''m''"
    and "p \<noteq> cf_config_path c" "p \<noteq> with_extension ''toml.tmp'' (cf_config_path c)"
  shows "disk1 p = None"
proof (cases "cc_password_hash (cf_console c) \<noteq> []")
  case True
  then show ?thesis using assms(1,2) by (simp add: boot_password_def)
next
  case False
  then obtain hash d where
    "boot_save bo 0 (c\<lparr>cf_console := (cf_console c)\<lparr>cc_password_hash := hash\<rparr>\<rparr>) disk = (Inr (), d)"
    and d1: "disk1 = initial_password_file bo d"
    using assms(1) by (auto simp: boot_password_def Let_def split: option.splits prod.splits sum.splits)
  then have "d p = disk p" using assms(4,5) config_save_other unfolding boot_save_def by fastforce
  then show ?thesis using assms(2,3) d1 by (simp add: initial_password_other)
qed

text \<open>
  C15: a fresh installation can be used at once and is not served in the clear: on an empty
  disk, once start-up is through, logging in with the default password, with the user name
  or without one, is accepted and its session is open; and when a certificate can be made
  and written, TLS is on, unless the configuration file is given the name of the certificate.
\<close>

theorem fresh_install_usable:
  assumes "boot bo path Map.empty = Ok (s, sb, initial)"
    and "\<And>hash. bo_hash bo DEFAULT_CONSOLE_PASSWORD = Some hash \<Longrightarrow> wb_verify wb DEFAULT_CONSOLE_PASSWORD hash"
    and "wb_permit wb" "sy_free (bo_sys bo) 0" "wb_now wb < 2 ^ 64 - 1" "user \<in> {[], ''admin''}"
    and "login (bo_sys bo) wb \<lparr> lq_username = user, lq_password = DEFAULT_CONSOLE_PASSWORD \<rparr> s = (rp, s')"
  shows "rp_code rp = 200 \<and> fst (sess_check (wb_now wb) (Some (hex_lower (wb_token wb))) (ap_sessions s')) \<and>
    (cert_works (bo_cert bo) \<and>
       path_in_cert_dir (sy_host (bo_sys bo)) ''console_cert.pem'' \<notin> {path, with_extension ''toml.tmp'' path} \<longrightarrow>
     cc_tls (cf_console (ap_config s)))"
  using assms(1)
proof (cases rule: boot_result)
  case (1 c0 c1 c2 disk1 disk2)
  define h where "h = sy_host (bo_sys bo)"
  have "c0 = (apply_platform_defaults h (default_config h))\<lparr>cf_config_path := path\<rparr>"
    using 1(1) by (simp add: config_load_def h_def)
  then have c0: "cf_console (c0\<lparr>cf_config_path := path\<rparr>) = default_console h"
    by (simp add: apply_platform_defaults_def default_config_def)
  have no_hash: "cc_password_hash (default_console h) = []" by (simp add: default_console_def)
  obtain hash where c1: "bo_hash bo DEFAULT_CONSOLE_PASSWORD = Some hash"
    "cf_console c1 = (default_console h)\<lparr>cc_password_hash := hash\<rparr>"
    using boot_password_result [OF 1(2)] unfolding c0 no_hash by auto
  have console: "cf_console (ap_config s) = cf_console c2"
    unfolding 1(5) auto_start_console by (simp add: app_new_def)
  have c2: "cc_username (cf_console c2) = ''admin''" "cc_password_hash (cf_console c2) = hash"
    "cc_session_ttl (cf_console c2) = 7 * 24 * 3600"
    using boot_tls_result [OF 1(3)] c1(2) by (auto simp: default_console_def)
  have "trim ''admin'' = ''admin''" "trim [] = []"
    by (rule trim_id, auto simp: is_ws_def)+
  then have cred: "credentials_ok wb (cf_console (ap_config s)) \<lparr> lq_username = user, lq_password = DEFAULT_CONSOLE_PASSWORD \<rparr>"
    using assms(2) [OF c1(1)] assms(6) c2 by (auto simp: credentials_ok_def console)
  define s1 where "s1 = clear_login_failures wb (snd (config_blocking (sy_free (bo_sys bo)) s))"
  have cfg: "fst (config_blocking (sy_free (bo_sys bo)) s) = ap_config s"
    "fst (config_blocking (sy_free (bo_sys bo)) s1) = ap_config s"
    using config_blocking_free [of "sy_free (bo_sys bo)"] assms(4) by (simp_all add: s1_def clear_login_failures_def)
  have "rp_code rp = 200 \<and> s' = snd (new_session (bo_sys bo) wb s1)"
    using assms(3,7) cred by (auto simp: login_def cfg s1_def [symmetric] ok_reply_def reply_def split_beta Let_def)
  moreover have "ap_sessions (snd (new_session (bo_sys bo) wb s1)) (hex_lower (wb_token wb)) =
      Some (min (2 ^ 64 - 1) (wb_now wb + 7 * 24 * 3600))"
    by (simp add: new_session_def Let_def split_beta cfg sess_issue_def console c2)
  moreover have "cc_tls (cf_console c2)"
    if "cert_works (bo_cert bo)" "path_in_cert_dir h ''console_cert.pem'' \<notin> {path, with_extension ''toml.tmp'' path}"
  proof -
    have "disk1 (path_in_cert_dir h ''console_cert.pem'') = None"
      using 1(2) by (rule boot_password_fresh) (use that(2) in \<open>simp_all add: path_in_cert_dir_def last_path_join\<close>)
    then show ?thesis
      using boot_tls_works [OF 1(3) that(1)] by (simp add: c1(2) default_console_def)
  qed
  ultimately show ?thesis using assms(5) by (auto simp: sess_check_def console h_def)
qed

lemma ex_cert_works: "cert_works (bo_cert ex_boot)"
  by (simp add: cert_works_def ex_boot_def ex_cert_pem_def ex_key_pem_def starts_with_def)

theorem fresh_install_usable_witness:
  "\<exists>s sb initial. boot ex_boot ''/etc/remgr/config.toml'' Map.empty = Ok (s, sb, initial) \<and>
     rp_code (fst (login ex_sys (ex_web 1000) \<lparr> lq_username = ''admin'', lq_password = ''admin'' \<rparr> s)) = 200 \<and>
     cc_tls (cf_console (ap_config s))"
proof -
  obtain s sb initial where b: "boot ex_boot ''/etc/remgr/config.toml'' Map.empty = Ok (s, sb, initial)"
    using ex_boot_ok by blast
  have host: "bo_sys ex_boot = ex_sys" "sy_host ex_sys = ex_host" "sy_free ex_sys 0" "wb_permit (ex_web 1000)"
    "wb_now (ex_web 1000) < 2 ^ 64 - 1"
    "\<And>hash. bo_hash ex_boot DEFAULT_CONSOLE_PASSWORD = Some hash \<Longrightarrow> wb_verify (ex_web 1000) DEFAULT_CONSOLE_PASSWORD hash"
    by (simp_all add: ex_boot_def ex_sys_def ex_web_def)
  have "with_extension ''toml.tmp'' ''/etc/remgr/config.toml'' = ''/etc/remgr/config.toml.tmp''"
    by (simp add: with_extension_def file_name_def rsplit_once_def Let_def)
  moreover have "last (path_in_cert_dir ex_host ''console_cert.pem'') = CHR ''m''"
    by (simp add: path_in_cert_dir_def last_path_join)
  ultimately have "path_in_cert_dir ex_host ''console_cert.pem'' \<notin>
      {''/etc/remgr/config.toml'', with_extension ''toml.tmp'' ''/etc/remgr/config.toml''}"
    by auto
  then show ?thesis
    using fresh_install_usable [OF b host(6), of "''admin''" "fst (login ex_sys (ex_web 1000) \<lparr> lq_username = ''admin'', lq_password = ''admin'' \<rparr> s)"
        "snd (login ex_sys (ex_web 1000) \<lparr> lq_username = ''admin'', lq_password = ''admin'' \<rparr> s)"] b host ex_cert_works
    by (simp add: DEFAULT_CONSOLE_PASSWORD_def)
qed

section \<open>Stopping\<close>

lemma module_stop_running:
  "modules_inv s \<Longrightarrow> module_running sv (module_stop sv' s) \<longleftrightarrow> sv \<noteq> sv' \<and> module_running sv s"
  using module_stop_inv [of s sv'] same_others_running [OF module_stop_same [of sv' s], of sv] by auto

lemma shutdown_modules_stops:
  assumes "app_inv s"
  shows "app_inv (shutdown_modules s) \<and> \<not> module_running sv (shutdown_modules s)"
proof -
  have "app_inv (foldl (\<lambda>s sv. module_stop sv s) s svs) \<and>
      (module_running sv (foldl (\<lambda>s sv. module_stop sv s) s svs) \<longleftrightarrow> sv \<notin> set svs \<and> module_running sv s)"
    if "app_inv s" for svs s
    using that
  proof (induction svs arbitrary: s)
    case (Cons sv' svs)
    then have "modules_inv s" by (simp add: app_inv_def)
    from module_stop_running [OF this, of sv sv'] show ?case
      using Cons.IH [OF module_stop_app [OF Cons.prems], of sv'] by auto
  qed simp
  from this [OF assms, of "[Frpc, Frps, RustDesk, StunTurn, EasyTier]"] show ?thesis
    unfolding shutdown_modules_def by (cases sv) (simp_all del: foldl_Cons module_running.simps)
qed

lemma await_stop_split:
  "await_stop ts = Some (ls, rest) \<Longrightarrow>
     \<exists>pre t. ts = pre @ t # rest \<and> list_all (\<lambda>t. \<not> stops t) pre \<and> stops t \<and> ls = map sig_describe (pre @ [t])"
proof (induction ts arbitrary: ls)
  case (Cons t ts)
  show ?case
  proof (cases "stops t")
    case True
    then show ?thesis using Cons.prems by (auto intro!: exI [of _ "[]"])
  next
    case False
    with Cons.prems obtain ls' where ls: "await_stop ts = Some (ls', rest)" "ls = sig_describe t # ls'" by auto
    obtain pre u where "ts = pre @ u # rest" "list_all (\<lambda>t. \<not> stops t) pre" "stops u" "ls' = map sig_describe (pre @ [u])"
      using Cons.IH [OF ls(1)] by blast
    then show ?thesis using False ls(2) by (intro exI [of _ "t # pre"] exI [of _ u]) simp
  qed
qed simp

lemma await_stop_none: "await_stop ts = None \<longleftrightarrow> list_all (\<lambda>t. \<not> stops t) ts"
  by (induction ts) auto

text \<open>
  C36: the process ends exactly when a signal that stops it has arrived; every signal up to it
  is in the log in order, before anything is stopped; and then no module is left running,
  whatever was running before, with every port and socket of the modules given back.
\<close>

theorem shutdown_stops_all:
  assumes "app_inv s"
  shows "case shutdown_task rfc3339 h accts sigs s of
      None \<Rightarrow> list_all (\<lambda>t. \<not> stops t) sigs
    | Some (ls, s') \<Rightarrow>
        (\<exists>pre t later more. sigs = pre @ t # later \<and> list_all (\<lambda>t. \<not> stops t) pre \<and> stops t \<and>
           ls = map sig_describe (pre @ [t]) @ more) \<and>
        modules_inv s' \<and> (\<forall>sv. \<not> module_running sv s') \<and>
        sm_held (am_stun_turn (ap_modules s')) = {} \<and> ap_config s' = ap_config s"
proof (cases "await_stop sigs")
  case None
  then show ?thesis using await_stop_none [of sigs] by (simp add: shutdown_task_def)
next
  case (Some r)
  then obtain ls rest where r: "await_stop sigs = Some (ls, rest)" by (cases r) simp
  define s' where "s' = shutdown_modules s"
  have stopped: "app_inv s'" "\<not> module_running sv s'" for sv
    using shutdown_modules_stops [OF assms] by (simp_all add: s'_def)
  have "am_stun_turn (ap_modules s') = stun_stop (am_stun_turn (ap_modules s))"
    by (simp add: s'_def shutdown_modules_def frps_stop_def frpc_stop_def Let_def)
  then have "sm_held (am_stun_turn (ap_modules s')) = {}"
    using stopped(1) by (auto simp: app_inv_def modules_inv_parts stun_inv_def stun_stop_def split: option.splits)
  moreover have "ap_config s' = ap_config s" by (simp add: s'_def shutdown_modules_def frps_stop_def frpc_stop_def Let_def)
  moreover have "\<exists>pre t later more'. sigs = pre @ t # later \<and> list_all (\<lambda>t. \<not> stops t) pre \<and> stops t \<and>
      ls @ more = map sig_describe (pre @ [t]) @ more'" for more
    using await_stop_split [OF r] by blast
  ultimately show ?thesis
    using stopped by (simp add: shutdown_task_def r s'_def [symmetric] app_inv_def)
qed

theorem shutdown_stops_all_witness:
  "module_running EasyTier ex_app_running \<and>
   (case shutdown_task (\<lambda>_. None) ex_host (Inl ''no file'', Inl ''no file'') [ex_event SIGHUP, ex_event SIGTERM] ex_app_running of
      None \<Rightarrow> False | Some (_, s') \<Rightarrow> \<not> module_running EasyTier s')"
proof -
  have "app_inv ex_app_running"
    using ex_app_running_inv ex_config_facts(2)
    by (simp add: app_inv_def cfgs_ok_def ex_app_running_def ex_app_def app_new_def wf_config_def ex_easytier_config_def)
       (simp add: default_easytier_def)
  moreover have "module_running EasyTier ex_app_running"
    by (simp add: ex_app_running_def easytier_running_def)
  moreover have "stops (ex_event SIGTERM)" by (simp add: ex_event_def stops_def)
  ultimately show ?thesis
    using shutdown_stops_all [of ex_app_running "[ex_event SIGHUP, ex_event SIGTERM]" "\<lambda>_. None" ex_host
        "(Inl ''no file'', Inl ''no file'')"]
    by (simp split: option.splits prod.splits) (metis module_running.simps(1))
qed

end
