(* ===== verification/Frps_Conn.thy ===== *)
theory Frps_Conn
  imports Frps_Control
begin

text \<open>
  Connections of the frp server (\<open>remgr-frps/src/server.rs\<close>): accepting, the upgrade to TLS, the
  multiplexed session with its control stream and its work streams, and the tasks that serve the
  users of a proxy. yamux, TLS and sockets appear as outcomes: what arrived, or that it did not.
\<close>

section \<open>Accepting\<close>

text \<open>Something awaited under a time limit.\<close>

datatype 'a timed = TimedOut | IoFailed | Got 'a

definition prefixed_poll_write :: "bytes \<Rightarrow> prefixed \<Rightarrow> nat poll \<times> prefixed" where
  "prefixed_poll_write bs p = (let (r, t) = inner_write bs (pf_inner p) in (r, p\<lparr>pf_inner := t\<rparr>))"

text \<open>\<open>build_tls_acceptor\<close>: the PEM texts come from the files or from an ephemeral pair; reading
  them and building the TLS configuration is the library's.\<close>

definition build_tls_acceptor ::
  "(string \<Rightarrow> string option) \<Rightarrow> (string \<times> string) option \<Rightarrow> (string \<Rightarrow> 'cert list option) \<Rightarrow>
   (string \<Rightarrow> string + 'key option) \<Rightarrow> ('cert list \<Rightarrow> 'key \<Rightarrow> string + 'tls) \<Rightarrow> frps_config \<Rightarrow> string + 'tls" where
  "build_tls_acceptor read_file ephemeral pem_certs pem_key with_single_cert cfg =
     (case (case tls_choice read_file cfg of ConfiguredPem c k \<Rightarrow> Some (c, k) | EphemeralPem \<Rightarrow> ephemeral) of
        None \<Rightarrow> Err ''ephemeral certificate''
      | Some (cert_pem, key_pem) \<Rightarrow>
          (case pem_certs cert_pem of
             None \<Rightarrow> Err ''certificate pem''
           | Some certs \<Rightarrow>
               bind_result (pem_key key_pem) (\<lambda>k.
                 case k of None \<Rightarrow> Err ''no private key found in frps TLS key file''
                 | Some key \<Rightarrow> with_single_cert certs key)))"

text \<open>The listener's loop: a failed accept is logged and waited out, only the stop ends it. The
  result is the connections that got a task of their own.\<close>

datatype accept_event = Accepted nat | AcceptError | AcceptStop

fun accept_loop :: "accept_event list \<Rightarrow> nat list" where
  "accept_loop [] = []"
| "accept_loop (AcceptStop # evs) = []"
| "accept_loop (AcceptError # evs) = accept_loop evs"
| "accept_loop (Accepted c # evs) = c # accept_loop evs"

text \<open>The first byte of a connection and the TLS handshake it may ask for.\<close>

definition accept_stream :: "u8 timed \<Rightarrow> unit timed \<Rightarrow> string + first_io" where
  "accept_stream first handshake =
     (case first of
        TimedOut \<Rightarrow> Err ''timeout reading first byte''
      | IoFailed \<Rightarrow> Err ''first byte''
      | Got b \<Rightarrow>
          (case sniff b of
             PlainReplay p \<Rightarrow> Ok (PlainReplay p)
           | io \<Rightarrow> (case handshake of Got _ \<Rightarrow> Ok io | TimedOut \<Rightarrow> Err ''deadline has elapsed'' | IoFailed \<Rightarrow> Err ''tls handshake'')))"

text \<open>A fresh work connection: its first frame, under a time limit. The answer, if any, goes out
  on the connection.\<close>

definition handle_work_io ::
  "env \<Rightarrow> nat \<Rightarrow> nat \<Rightarrow> (u8 \<times> bytes) timed \<Rightarrow> server \<Rightarrow> (string + unit) \<times> server \<times> start_work_conn option" where
  "handle_work_io e now conn first s =
     (case first of
        TimedOut \<Rightarrow> (Err ''deadline has elapsed'', s, None)
      | IoFailed \<Rightarrow> (Err ''read frame'', s, None)
      | Got frame \<Rightarrow>
          (case handle_work_io_with_frame e now conn frame s of
             (s', None) \<Rightarrow> (Ok (), s', None)
           | (s', Some swc) \<Rightarrow> (Err (sw_error swc), s', Some swc)))"

definition handle_work_io_tagged ::
  "env \<Rightarrow> nat \<Rightarrow> nat \<Rightarrow> (u8 \<times> bytes) timed \<Rightarrow> server \<Rightarrow> (string + unit) \<times> server \<times> start_work_conn option" where
  "handle_work_io_tagged e now conn first s =
     (case handle_work_io e now conn first s of
        (Inl err, rest) \<Rightarrow> (Err (''work stream: '' @ err), rest)
      | (Inr u, rest) \<Rightarrow> (Ok u, rest))"

text \<open>A connection without multiplexing: its first frame decides what it is. The frames that
  follow a login come with the time they are read.\<close>

definition plain_connection ::
  "env \<Rightarrow> string \<Rightarrow> nat \<Rightarrow> bool \<Rightarrow> nat \<Rightarrow> (u8 \<times> bytes) timed \<Rightarrow> (nat \<times> u8 \<times> bytes) list \<Rightarrow> server \<Rightarrow> server" where
  "plain_connection e uuid now written conn first frames s =
     (case first of
        Got frame \<Rightarrow>
          (case dispatch_first_frame frame of
             ToControl \<Rightarrow> run_control_with_login e uuid now written frame frames s
           | ToWork \<Rightarrow> fst (handle_work_io_with_frame e now conn frame s)
           | BadFirst _ \<Rightarrow> s)
      | _ \<Rightarrow> s)"

section \<open>A multiplexed connection\<close>

text \<open>
  Four tasks share a multiplexed connection: the driver takes inbound streams off the yamux
  session and queues them, the connection's own task takes the first of them as the control
  stream, the forwarder acknowledges the others and gives each a task that waits for its first
  frame. The token \<open>session_over\<close> is cancelled when the driver is gone, however it ended. Every
  definition below is one atomic step of one of the tasks.
\<close>

datatype mux_stage =
    AwaitControl
  | AwaitLogin
  | Replying login string
  | Running nat
  | Closed "nat option"

record mux_conn =
  mx_queue :: "nat list"
  mx_receiver :: bool
  mx_driver :: bool
  mx_forwarder :: bool
  mx_stage :: mux_stage
  mx_control :: "nat option"
  mx_acked :: "nat list"
  mx_waiting :: "nat list"
  mx_refused :: "(nat \<times> start_work_conn) list"

definition INBOUND_CHANNEL :: nat where "INBOUND_CHANNEL = 16"

definition mux_start :: mux_conn where
  "mux_start = \<lparr> mx_queue = [], mx_receiver = True, mx_driver = True, mx_forwarder = False,
     mx_stage = AwaitControl, mx_control = None, mx_acked = [], mx_waiting = [], mx_refused = [] \<rparr>"

definition session_over :: "mux_conn \<Rightarrow> bool" where
  "session_over mx \<longleftrightarrow> \<not> mx_driver mx"

text \<open>The driver: an inbound stream goes into the channel, waits while it is full, and ends the
  driver when nobody receives any more. The stream is in the result when it went in.\<close>

definition driver_inbound :: "nat \<Rightarrow> mux_conn \<Rightarrow> nat list \<times> mux_conn" where
  "driver_inbound c mx =
     (if \<not> mx_driver mx then ([], mx)
      else if \<not> mx_receiver mx then ([], mx\<lparr>mx_driver := False\<rparr>)
      else if length (mx_queue mx) < INBOUND_CHANNEL then ([c], mx\<lparr>mx_queue := mx_queue mx @ [c]\<rparr>)
      else ([], mx))"

definition driver_end :: "mux_conn \<Rightarrow> mux_conn" where
  "driver_end mx = mx\<lparr>mx_driver := False\<rparr>"

text \<open>The connection's task waits for the control stream; the forwarder starts once it is there.\<close>

definition take_control :: "mux_conn \<Rightarrow> mux_conn" where
  "take_control mx =
     (case (mx_stage mx, mx_queue mx) of
        (AwaitControl, c # q) \<Rightarrow>
          mx\<lparr>mx_stage := AwaitLogin, mx_control := Some c, mx_queue := q, mx_forwarder := True\<rparr>
      | (AwaitControl, []) \<Rightarrow>
          if mx_driver mx then mx else mx\<lparr>mx_stage := Closed None, mx_receiver := False\<rparr>
      | _ \<Rightarrow> mx)"

text \<open>The thirty seconds for it are over: the task returns, and with it goes the receiver. The
  driver is not aborted on this way out.\<close>

definition control_timeout :: "mux_conn \<Rightarrow> mux_conn" where
  "control_timeout mx =
     (if mx_stage mx = AwaitControl \<and> mx_queue mx = [] then mx\<lparr>mx_stage := Closed None, mx_receiver := False\<rparr> else mx)"

text \<open>After the control has run, both helpers are aborted and what is queued is dropped.\<close>

definition mux_finish :: "nat option \<Rightarrow> mux_conn \<Rightarrow> mux_conn" where
  "mux_finish who mx =
     mx\<lparr>mx_stage := Closed who, mx_driver := False, mx_forwarder := False, mx_receiver := False, mx_queue := []\<rparr>"

text \<open>\<open>run_control\<close>: the login arrives or does not, its answer can be written or not, the reader
  loop ends.\<close>

definition control_login ::
  "env \<Rightarrow> string \<Rightarrow> (u8 \<times> bytes) timed \<Rightarrow> mux_conn \<Rightarrow> server \<Rightarrow> mux_conn \<times> server" where
  "control_login e uuid first mx s =
     (if mx_stage mx \<noteq> AwaitLogin then (mx, s)
      else case first of
        Got frame \<Rightarrow>
          (case login_begin e uuid frame s of
             (Inl _, s', _) \<Rightarrow> (mux_finish None mx, s')
           | (Inr (login, rid), s', _) \<Rightarrow> (mx\<lparr>mx_stage := Replying login rid\<rparr>, s'))
      | _ \<Rightarrow> (mux_finish None mx, s))"

definition control_replied :: "nat \<Rightarrow> bool \<Rightarrow> mux_conn \<Rightarrow> server \<Rightarrow> mux_conn \<times> server" where
  "control_replied now written mx s =
     (case mx_stage mx of
        Replying login rid \<Rightarrow>
          if written then (let (i, s') = login_finish now login rid s in (mx\<lparr>mx_stage := Running i\<rparr>, s'))
          else (mux_finish None mx, s)
      | _ \<Rightarrow> (mx, s))"

text \<open>The reader loop returns because the control was cancelled or the session is over, or with
  an error of the stream; \<open>run_control_with_login\<close> then tears the control down.\<close>

definition reader_may_end :: "bool \<Rightarrow> mux_conn \<Rightarrow> server \<Rightarrow> bool" where
  "reader_may_end failed mx s \<longleftrightarrow>
     (case mx_stage mx of Running i \<Rightarrow> failed \<or> session_over mx \<or> is_cancelled s i | _ \<Rightarrow> False)"

definition control_end :: "mux_conn \<Rightarrow> server \<Rightarrow> mux_conn \<times> server" where
  "control_end mx s =
     (case mx_stage mx of Running i \<Rightarrow> (mux_finish (Some i) mx, teardown i s) | _ \<Rightarrow> (mx, s))"

text \<open>The forwarder: an empty write acknowledges the stream, then its task waits for a frame.\<close>

definition forward_stream :: "mux_conn \<Rightarrow> mux_conn" where
  "forward_stream mx =
     (if \<not> mx_forwarder mx then mx
      else case mx_queue mx of
        c # q \<Rightarrow> mx\<lparr>mx_queue := q, mx_acked := mx_acked mx @ [c], mx_waiting := mx_waiting mx @ [c]\<rparr>
      | [] \<Rightarrow> if mx_driver mx then mx else mx\<lparr>mx_forwarder := False\<rparr>)"

definition work_stream ::
  "env \<Rightarrow> nat \<Rightarrow> nat \<Rightarrow> (u8 \<times> bytes) timed \<Rightarrow> mux_conn \<Rightarrow> server \<Rightarrow> mux_conn \<times> server" where
  "work_stream e now c first mx s =
     (if c \<notin> set (mx_waiting mx) then (mx, s)
      else case handle_work_io_tagged e now c first s of
        (_, s', answer) \<Rightarrow>
          (mx\<lparr>mx_waiting := remove1 c (mx_waiting mx),
              mx_refused := mx_refused mx @ (case answer of Some swc \<Rightarrow> [(c, swc)] | None \<Rightarrow> [])\<rparr>, s'))"

text \<open>All interleavings of these steps with the steps of every other task of the server. The
  first argument lists the inbound streams the channel took, in order.\<close>

inductive conn_reach ::
  "env \<Rightarrow> frps_config \<Rightarrow> nat list \<Rightarrow> mux_conn \<Rightarrow> server \<Rightarrow> (phase \<times> reg) list \<Rightarrow> bool" for e cfg where
  conn_start: "frps_reach e cfg s q \<Longrightarrow> conn_reach e cfg [] mux_start s q"
| conn_other: "conn_reach e cfg ins mx s q \<Longrightarrow> frps_step e s q s' q' \<Longrightarrow> conn_reach e cfg ins mx s' q'"
| conn_inbound: "conn_reach e cfg ins mx s q \<Longrightarrow> driver_inbound c mx = (new, mx') \<Longrightarrow>
     conn_reach e cfg (ins @ new) mx' s q"
| conn_driver_end: "conn_reach e cfg ins mx s q \<Longrightarrow> conn_reach e cfg ins (driver_end mx) s q"
| conn_take: "conn_reach e cfg ins mx s q \<Longrightarrow> conn_reach e cfg ins (take_control mx) s q"
| conn_timeout: "conn_reach e cfg ins mx s q \<Longrightarrow> conn_reach e cfg ins (control_timeout mx) s q"
| conn_login: "conn_reach e cfg ins mx s q \<Longrightarrow> control_login e uuid first mx s = (mx', s') \<Longrightarrow>
     conn_reach e cfg ins mx' s' q"
| conn_replied: "conn_reach e cfg ins mx s q \<Longrightarrow> control_replied now written mx s = (mx', s') \<Longrightarrow>
     conn_reach e cfg ins mx' s' q"
| conn_end: "conn_reach e cfg ins mx s q \<Longrightarrow> reader_may_end failed mx s \<Longrightarrow> control_end mx s = (mx', s') \<Longrightarrow>
     conn_reach e cfg ins mx' s' q"
| conn_forward: "conn_reach e cfg ins mx s q \<Longrightarrow> conn_reach e cfg ins (forward_stream mx) s q"
| conn_work: "conn_reach e cfg ins mx s q \<Longrightarrow> work_stream e now c first mx s = (mx', s') \<Longrightarrow>
     conn_reach e cfg ins mx' s' q"

section \<open>The control's writer\<close>

text \<open>The writer task takes queued messages and writes one frame each. A message the server never
  sends has an empty body; one that cannot be serialised is skipped; a frame that is refused,
  breaks off or is cancelled ends the task. Each message comes with what its write does, and how
  many bytes of the frame got out.\<close>

datatype wrote = Wrote | WriteBroke nat | WriterCancelled nat

fun writer_body :: "(json \<Rightarrow> bytes option) \<Rightarrow> message \<Rightarrow> bytes option" where
  "writer_body to_vec (MLogin _) = Some []"
| "writer_body to_vec (MNewProxy _) = Some []"
| "writer_body to_vec (MCloseProxy _) = Some []"
| "writer_body to_vec (MNewWorkConn _) = Some []"
| "writer_body to_vec (MPing _) = Some []"
| "writer_body to_vec m = to_vec (ser_message m)"

fun control_writer :: "(json \<Rightarrow> bytes option) \<Rightarrow> (message \<times> wrote) list \<Rightarrow> bytes \<times> message list" where
  "control_writer to_vec [] = ([], [])"
| "control_writer to_vec ((m, w) # ms) =
     (case writer_body to_vec m of
        None \<Rightarrow> control_writer to_vec ms
      | Some body \<Rightarrow>
          (case write_frame (type_byte m) body of
             Inl _ \<Rightarrow> ([], [])
           | Inr frame \<Rightarrow>
               (case w of
                  Wrote \<Rightarrow> (let (out, sent) = control_writer to_vec ms in (frame @ out, m # sent))
                | WriteBroke n \<Rightarrow> (take n frame, [])
                | WriterCancelled n \<Rightarrow> (take n frame, []))))"

section \<open>Serving the users of a proxy\<close>

text \<open>The tcp listener of a proxy: only cancellation ends it, a failed accept does not. Each user
  is counted and gets a task.\<close>

datatype user_event = UserConn "string \<times> nat" | UserError bool | UserCancelled

fun tcp_user_loop :: "user_event list \<Rightarrow> server \<Rightarrow> (string \<times> nat) list \<times> server" where
  "tcp_user_loop [] s = ([], s)"
| "tcp_user_loop (UserCancelled # evs) s = ([], s)"
| "tcp_user_loop (UserError cancelled # evs) s = (if cancelled then ([], s) else tcp_user_loop evs s)"
| "tcp_user_loop (UserConn peer # evs) s =
     (let (ps, s') = tcp_user_loop evs (accept_user s) in (peer # ps, s'))"

text \<open>One round of a udp proxy: the outcome of waiting for a work connection, of announcing the
  proxy on it, and what its two directions carry until one of them ends.\<close>

record 'ip udp_round =
  ur_now :: nat
  ur_wait :: waited
  ur_later :: nat
  ur_started :: bool
  ur_frames :: "(u8 \<times> bytes) list"
  ur_datagrams :: "((bytes \<times> 'ip \<times> nat) option \<times> bool) list"

record 'ip udp_codec =
  uc_to_vec :: "json \<Rightarrow> bytes option"
  uc_from_slice :: "bytes \<Rightarrow> json option"
  uc_b64_encode :: "bytes \<Rightarrow> string"
  uc_b64_decode :: "string \<Rightarrow> bytes option"
  uc_ip_text :: "'ip \<Rightarrow> string"
  uc_ip_parse :: "string \<Rightarrow> 'ip option"

definition udp_announce :: "string \<Rightarrow> start_work_conn" where
  "udp_announce name = (start_work_error [])\<lparr>sw_proxy_name := name\<rparr>"

fun udp_proxy_loop ::
  "'ip udp_codec \<Rightarrow> nat \<Rightarrow> nat \<Rightarrow> string \<Rightarrow> ('ip \<times> nat) option \<Rightarrow> 'ip udp_round list \<Rightarrow> server \<Rightarrow>
   (nat \<times> bytes \<times> (bytes \<times> 'ip \<times> nat) list) list \<times> server" where
  "udp_proxy_loop uc i tk name laddr [] s = ([], s)"
| "udp_proxy_loop uc i tk name laddr (r # rs) s =
     (if proxy_cancelled s i tk then ([], s)
      else case get_work_conn (ur_now r) i (ur_wait r) (ur_later r) s of
        (Inl _, s1) \<Rightarrow> udp_proxy_loop uc i tk name laddr rs s1
      | (Inr conn, s1) \<Rightarrow>
          (case write_msg (uc_to_vec uc) (ser_start_work_conn (udp_announce name)) TYPE_START_WORK_CONN of
             Inl _ \<Rightarrow> udp_proxy_loop uc i tk name laddr rs s1
           | Inr wire \<Rightarrow>
               if \<not> ur_started r then udp_proxy_loop uc i tk name laddr rs s1
               else
                 (let (sent, k_in) = udp_read_half (uc_from_slice uc) (uc_b64_decode uc) (uc_ip_parse uc)
                        (ur_frames r) (s_bytes_in s1);
                      (out, k_out) = udp_send_half (uc_to_vec uc) (uc_b64_encode uc) (uc_ip_text uc) laddr
                        (ur_datagrams r) (s_bytes_out s1);
                      (rest, s2) = udp_proxy_loop uc i tk name laddr rs (s1\<lparr>s_bytes_in := k_in, s_bytes_out := k_out\<rparr>)
                  in ((conn, wire @ out, sent) # rest, s2))))"

section \<open>Offline stays offline\<close>

definition offline_kept :: "server \<Rightarrow> server \<Rightarrow> bool" where
  "offline_kept s s' \<longleftrightarrow> length (s_heap s) \<le> length (s_heap s') \<and>
     (\<forall>i < length (s_heap s). \<not> c_online (ctl s i) \<longrightarrow> \<not> c_online (ctl s' i))"

lemma offline_kept_refl [simp]: "offline_kept s s"
  by (simp add: offline_kept_def)

lemma offline_kept_trans [trans]: "offline_kept s t \<Longrightarrow> offline_kept t u \<Longrightarrow> offline_kept s u"
  by (auto simp: offline_kept_def)

lemma offline_kept_onlines: "onlines s' = onlines s \<Longrightarrow> offline_kept s s'"
proof -
  assume eq: "onlines s' = onlines s"
  then have len: "length (s_heap s') = length (s_heap s)" by (metis length_map onlines_def)
  have "c_online (ctl s' i) = c_online (ctl s i)" if "i < length (s_heap s)" for i
    using eq that len unfolding ctl_def onlines_def by (metis nth_map)
  with len show ?thesis by (simp add: offline_kept_def)
qed

lemma onlines_upd: "(\<And>c. c_online (f c) = c_online c) \<Longrightarrow> onlines (upd_control i f s) = onlines s"
  unfolding onlines_def by (rule map_upd_control)

lemma onlines_heap: "s_heap s' = s_heap s \<Longrightarrow> onlines s' = onlines s"
  by (simp add: onlines_def)

lemma onlines_ops [simp]:
  "onlines (send i m s) = onlines s" "onlines (touch now i s) = onlines s"
  "onlines (drop_reservation i n s) = onlines s" "onlines (reserve_name i n tk s) = onlines s"
  "onlines (close_proxy i n s) = onlines s" "onlines (release_proxy_port ty p n s) = onlines s"
  "onlines (set_proxy info s) = onlines s" "onlines (proxy_error i np err s) = onlines s"
proof -
  show send: "onlines (send i m s) = onlines s" for m by (simp add: send_def onlines_upd)
  show "onlines (proxy_error i np err s) = onlines s" by (simp add: proxy_error_def send)
  show "onlines (touch now i s) = onlines s" by (simp add: touch_def onlines_upd)
  show drop: "onlines (drop_reservation i n s) = onlines s" by (simp add: drop_reservation_def onlines_upd)
  have "onlines (reserve_name i n tk s) = onlines (upd_control i (\<lambda>c. c\<lparr>c_proxies := AList.update n tk (c_proxies c)\<rparr>) s)"
    by (rule onlines_heap) (simp add: reserve_name_def)
  then show "onlines (reserve_name i n tk s) = onlines s" by (simp add: onlines_upd)
  have "onlines (close_proxy i n s) = onlines (drop_reservation i n s)"
    by (rule onlines_heap) (simp add: close_proxy_heap drop_reservation_def)
  then show "onlines (close_proxy i n s) = onlines s" by (simp add: drop)
  show "onlines (release_proxy_port ty p n s) = onlines s" by (rule onlines_heap) (simp add: frps_frame)
  show "onlines (set_proxy info s) = onlines s" by (rule onlines_heap) (simp add: set_proxy_def)
qed

lemma onlines_register: "register_proxy_port ty p n s = Inr s' \<Longrightarrow> onlines s' = onlines s"
  by (rule onlines_heap) (rule register_frame)

lemma onlines_phases:
  "onlines (fst (handle_new_proxy i np s)) = onlines s"
  "onlines (fst (start_proxy pa r s)) = onlines s"
  "onlines (fst (proxy_bound se b r s)) = onlines s"
  "onlines (proxy_finish r s) = onlines s"
proof -
  show "onlines (fst (handle_new_proxy i np s)) = onlines s" by (simp add: handle_new_proxy_def Let_def)
  show "onlines (fst (start_proxy pa r s)) = onlines s"
    by (simp add: start_proxy_def Let_def onlines_register split: option.split sum.split)
  show "onlines (fst (proxy_bound se b r s)) = onlines s" by (simp add: proxy_bound_def Let_def split: sum.split)
  show "onlines (proxy_finish r s) = onlines s" by (simp add: proxy_finish_def Let_def)
qed

lemma onlines_work:
  "onlines (snd (get_work_conn now i w later s)) = onlines s"
  "onlines (fst (handle_work_io_with_frame e now conn first s)) = onlines s"
  by (simp_all add: get_work_conn_def handle_work_io_with_frame_def Let_def onlines_upd
      split: list.split waited.split sum.split)

lemma teardown_offline: "i < length (s_heap s) \<Longrightarrow> offline_kept s (teardown i s)"
  by (auto simp: offline_kept_def frps_frame ctl_def teardown_effect(1) nth_list_update torn_def)

lemma foldl_teardown_offline:
  "list_all (\<lambda>i. i < length (s_heap s)) is \<Longrightarrow>
     offline_kept s (foldl (\<lambda>s i. if P i s then teardown i s else s) s is)"
proof (induction "is" arbitrary: s)
  case (Cons i "is")
  let ?t = "if P i s then teardown i s else s"
  have "offline_kept s ?t" using Cons.prems by (simp add: teardown_offline)
  moreover have "list_all (\<lambda>i. i < length (s_heap ?t)) is" using Cons.prems by (simp add: frps_frame)
  ultimately show ?case unfolding foldl_Cons using Cons.IH [of ?t] by (blast intro: offline_kept_trans)
qed simp

lemma offline_kept_heap: "s_heap s' = s_heap s \<Longrightarrow> offline_kept s s'"
  by (rule offline_kept_onlines) (rule onlines_heap)

lemma login_begin_offline:
  assumes "server_inv s"
  shows "offline_kept s (fst (snd (login_begin e uuid first s)))"
proof -
  have "offline_kept s (teardown old (s\<lparr>s_total_logins := n\<rparr>))" if "map_of (s_controls s) rid = Some old" for n old rid
  proof -
    have "old < length (s_heap (s\<lparr>s_total_logins := n\<rparr>))"
      using that by (auto dest!: map_of_SomeD controls_in_heap [OF assms])
    moreover have "offline_kept s (s\<lparr>s_total_logins := n\<rparr>)" by (rule offline_kept_heap) simp
    ultimately show ?thesis by (blast intro: offline_kept_trans teardown_offline)
  qed
  then show ?thesis
    by (auto simp: login_begin_def Let_def offline_kept_heap split: option.splits prod.splits)
qed

lemma onlines_send_n: "onlines ((send i m ^^ n) s) = onlines s"
  by (induction n) simp_all

lemma login_finish_onlines: "onlines (snd (login_finish now login rid s)) = onlines s @ [True]"
  by (simp add: login_finish_def Let_def onlines_send_n) (simp add: onlines_def new_control_def)

lemma login_finish_offline: "offline_kept s (snd (login_finish now login rid s))"
proof -
  let ?t = "snd (login_finish now login rid s)"
  have "length (s_heap ?t) = Suc (length (s_heap s))"
    using arg_cong [OF login_finish_onlines, of length now login rid s] by (simp add: onlines_def)
  moreover have "c_online (ctl ?t i) = c_online (ctl s i)" if "i < length (s_heap s)" for i
    using arg_cong [OF login_finish_onlines, of "\<lambda>bs. bs ! i" now login rid s] that calculation
    by (simp add: onlines_def ctl_def nth_append)
  ultimately show ?thesis by (simp add: offline_kept_def)
qed

lemma frps_step_offline:
  assumes "frps_step e s q s' q'" "server_inv s"
  shows "offline_kept s s'"
  using assms
proof (induction rule: frps_step.induct)
  case (step_login uuid first s res s' resp q)
  then show ?case using login_begin_offline [of s e uuid first] by simp
next
  case (step_login_done now login rid s i s' q)
  then show ?case using login_finish_offline [of s now login rid] by simp
next
  case (step_reserve i np s s' nxt q)
  then show ?case using onlines_phases(1) [of i np s] by (simp add: offline_kept_onlines)
next
  case (step_claim r q pa s s' nxt)
  then show ?case using onlines_phases(2) [of pa r s] by (simp add: offline_kept_onlines)
next
  case (step_bound r q se b s s' nxt)
  then show ?case using onlines_phases(3) [of se b r s] by (simp add: offline_kept_onlines)
next
  case (step_finish r q s)
  then show ?case by (simp add: offline_kept_onlines onlines_phases(4))
next
  case (step_work_in now conn first s s' resp q)
  then show ?case using onlines_work(2) [of e now conn first s] by (simp add: offline_kept_onlines)
next
  case (step_work_out now i w later s res s' q)
  then show ?case using onlines_work(1) [of now i w later s] by (simp add: offline_kept_onlines)
next
  case (step_tick s q now)
  then show ?case
    using foldl_teardown_offline [OF control_ids_in_heap, of s
        "\<lambda>i s'. c_enforce_idle (ctl s' i) \<and> idle_secs now (ctl s' i) > heartbeat_timeout (s_cfg s)"]
    by (simp add: heartbeat_tick_def Let_def)
next
  case (step_teardown i s q)
  then show ?case by (simp add: teardown_offline)
next
  case (step_stop s q)
  have "offline_kept s (s\<lparr>s_stopped := True\<rparr>)" by (rule offline_kept_heap) simp
  moreover have "offline_kept (s\<lparr>s_stopped := True\<rparr>) (server_stop s)"
    using foldl_teardown_offline [of "s\<lparr>s_stopped := True\<rparr>" "map snd (s_controls s)" "\<lambda>_ _. True"]
      control_ids_in_heap [OF step_stop] by (simp add: server_stop_def)
  ultimately show ?case by (rule offline_kept_trans)
qed (auto intro: offline_kept_onlines)

section \<open>A multiplexed connection: properties\<close>

fun is_closed :: "mux_stage \<Rightarrow> bool" where
  "is_closed (Closed who) = True"
| "is_closed _ = False"

definition stream_list :: "mux_conn \<Rightarrow> nat list" where
  "stream_list mx = (case mx_control mx of Some c \<Rightarrow> [c] | None \<Rightarrow> []) @ mx_acked mx @ mx_queue mx"

definition streams_ok :: "nat list \<Rightarrow> mux_conn \<Rightarrow> bool" where
  "streams_ok ins mx \<longleftrightarrow>
     length (mx_queue mx) \<le> INBOUND_CHANNEL \<and> set (mx_waiting mx) \<subseteq> set (mx_acked mx) \<and>
     (mx_receiver mx \<longleftrightarrow> \<not> is_closed (mx_stage mx)) \<and>
     (mx_stage mx = AwaitControl \<longrightarrow> mx_control mx = None \<and> mx_acked mx = [] \<and> \<not> mx_forwarder mx) \<and>
     (\<not> mx_receiver mx \<longrightarrow> mx_queue mx = []) \<and>
     (mx_receiver mx \<longrightarrow> ins = stream_list mx) \<and> (\<exists>dropped. ins = stream_list mx @ dropped)"

lemmas streams_defs = streams_ok_def stream_list_def

definition control_of_conn :: "mux_conn \<Rightarrow> server \<Rightarrow> bool" where
  "control_of_conn mx s \<longleftrightarrow>
     (case mx_stage mx of
        Running i \<Rightarrow> i < length (s_heap s)
      | Closed (Some i) \<Rightarrow> i < length (s_heap s) \<and> \<not> c_online (ctl s i)
      | _ \<Rightarrow> True)"

lemma streams_start: "streams_ok [] mux_start"
  by (simp add: streams_defs mux_start_def)

lemma streams_inbound: "streams_ok ins mx \<Longrightarrow> driver_inbound c mx = (new, mx') \<Longrightarrow> streams_ok (ins @ new) mx'"
  by (auto simp: streams_defs driver_inbound_def split: if_splits)

lemma streams_driver_end: "streams_ok ins mx \<Longrightarrow> streams_ok ins (driver_end mx)"
  by (simp add: streams_defs driver_end_def)

lemma streams_take: "streams_ok ins mx \<Longrightarrow> streams_ok ins (take_control mx)"
  by (cases "mx_stage mx"; cases "mx_queue mx") (auto simp: streams_defs take_control_def)

lemma streams_timeout: "streams_ok ins mx \<Longrightarrow> streams_ok ins (control_timeout mx)"
  by (auto simp: streams_defs control_timeout_def)

lemma streams_finish: "streams_ok ins mx \<Longrightarrow> streams_ok ins (mux_finish who mx)"
  by (auto simp: streams_defs mux_finish_def)

lemma streams_stage:
  "streams_ok ins mx \<Longrightarrow> \<not> is_closed (mx_stage mx) \<Longrightarrow> st \<noteq> AwaitControl \<Longrightarrow> \<not> is_closed st \<Longrightarrow>
     streams_ok ins (mx\<lparr>mx_stage := st\<rparr>)"
  by (simp add: streams_defs)

lemma streams_forward: "streams_ok ins mx \<Longrightarrow> streams_ok ins (forward_stream mx)"
  by (cases "mx_queue mx") (auto simp: streams_defs forward_stream_def)

lemma streams_work:
  assumes "streams_ok ins mx" "work_stream e now c first mx s = (mx', s')"
  shows "streams_ok ins mx' \<and> mx_stage mx' = mx_stage mx"
proof (cases "c \<in> set (mx_waiting mx)")
  case True
  then obtain r where "mx' = mx\<lparr>mx_waiting := remove1 c (mx_waiting mx), mx_refused := r\<rparr>"
    using assms(2) by (auto simp: work_stream_def split: prod.splits)
  then show ?thesis using assms(1) set_remove1_subset [of c "mx_waiting mx"] by (auto simp: streams_defs)
qed (use assms in \<open>simp add: work_stream_def\<close>)

lemma work_server:
  "work_stream e now c first mx s = (mx', s') \<Longrightarrow>
     s' = s \<or> (\<exists>frame. s' = fst (handle_work_io_with_frame e now c frame s))"
  by (auto simp: work_stream_def handle_work_io_tagged_def handle_work_io_def
      split: if_splits prod.splits timed.splits option.splits sum.splits) (metis fst_conv)+

lemma login_cases:
  assumes "control_login e uuid first mx s = (mx', s')"
  obtains "mx' = mx" "s' = s"
  | "mx_stage mx = AwaitLogin" "mx' = mux_finish None mx" "s' = s"
  | frame where "mx_stage mx = AwaitLogin" "mx' = mux_finish None mx" "s' = fst (snd (login_begin e uuid frame s))"
  | frame login rid where "mx_stage mx = AwaitLogin" "mx' = mx\<lparr>mx_stage := Replying login rid\<rparr>"
      "s' = fst (snd (login_begin e uuid frame s))"
proof (cases "mx_stage mx = AwaitLogin")
  case True
  show thesis
  proof (cases first)
    case (Got frame)
    obtain res s1 resp where l: "login_begin e uuid frame s = (res, s1, resp)" by (metis prod_cases3)
    show thesis
      using assms True Got l that(3) [of frame] that(4) [of _ _ frame]
      by (cases res) (auto simp: control_login_def)
  qed (use assms True that(2) in \<open>auto simp: control_login_def\<close>)
qed (use assms that(1) in \<open>simp add: control_login_def\<close>)

lemma replied_cases:
  assumes "control_replied now written mx s = (mx', s')"
  obtains "mx' = mx" "s' = s"
  | login rid where "mx_stage mx = Replying login rid" "mx' = mux_finish None mx" "s' = s"
  | login rid where "mx_stage mx = Replying login rid" "mx' = mx\<lparr>mx_stage := Running (length (s_heap s))\<rparr>"
      "s' = snd (login_finish now login rid s)"
proof -
  have fin: "login_finish now login rid s = (length (s_heap s), snd (login_finish now login rid s))" for login rid
    by (simp add: login_finish_def Let_def)
  show thesis
  proof (cases "mx_stage mx")
    case (Replying login rid)
    show thesis
    proof (cases written)
      case True
      show thesis
        by (rule that(3) [OF Replying]) (use assms True Replying fin [of login rid] in \<open>auto simp: control_replied_def split: prod.splits\<close>)
    next
      case False
      show thesis by (rule that(2) [OF Replying]) (use assms False Replying in \<open>auto simp: control_replied_def\<close>)
    qed
  qed (use assms that(1) in \<open>simp_all add: control_replied_def\<close>)
qed

lemma control_frame:
  assumes "control_of_conn mx s" "offline_kept s s'" "mx_stage mx' = mx_stage mx"
  shows "control_of_conn mx' s'"
  using assms by (auto simp: control_of_conn_def offline_kept_def split: mux_stage.splits option.splits)

lemma login_finish_length: "length (s_heap (snd (login_finish now login rid s))) = Suc (length (s_heap s))"
  using arg_cong [OF login_finish_onlines, of length now login rid s] by (simp add: onlines_def)

lemma conn_inv:
  assumes "conn_reach e cfg ins mx s q"
  shows "server_inv s \<and> streams_ok ins mx \<and> control_of_conn mx s"
  using assms
proof (induction rule: conn_reach.induct)
  case (conn_start s q)
  then show ?case using frps_reach_inv streams_start by (simp add: control_of_conn_def mux_start_def)
next
  case (conn_other ins mx s q s' q')
  then show ?case using frps_step_inv frps_step_offline control_frame by blast
next
  case (conn_inbound ins mx s q c new mx')
  moreover have "mx_stage mx' = mx_stage mx" using conn_inbound by (auto simp: driver_inbound_def split: if_splits)
  ultimately show ?case using streams_inbound control_frame offline_kept_refl by blast
next
  case (conn_driver_end ins mx s q)
  then show ?case using streams_driver_end by (simp add: control_of_conn_def driver_end_def)
next
  case (conn_take ins mx s q)
  moreover have "control_of_conn (take_control mx) s"
    using conn_take.IH by (cases "mx_stage mx"; cases "mx_queue mx") (auto simp: control_of_conn_def take_control_def)
  ultimately show ?case using streams_take by blast
next
  case (conn_timeout ins mx s q)
  then show ?case using streams_timeout by (auto simp: control_of_conn_def control_timeout_def)
next
  case (conn_login ins mx s q uuid first mx' s')
  from conn_login(2) show ?case
    by (cases rule: login_cases)
       (use conn_login.IH in \<open>auto simp: control_of_conn_def mux_finish_def [of None] login_begin_inv
          intro: streams_finish [of _ _ None, unfolded mux_finish_def] streams_stage\<close>)
next
  case (conn_replied ins mx s q now written mx' s')
  from conn_replied(2) show ?case
    by (cases rule: replied_cases)
       (use conn_replied.IH in \<open>auto simp: control_of_conn_def mux_finish_def [of None] login_finish_inv login_finish_length
          intro: streams_finish [of _ _ None, unfolded mux_finish_def] streams_stage\<close>)
next
  case (conn_end ins mx s q failed mx' s')
  then obtain i where i: "mx_stage mx = Running i" by (cases "mx_stage mx") (auto simp: reader_may_end_def)
  then have "mx' = mux_finish (Some i) mx" "s' = teardown i s" "i < length (s_heap s)"
    using conn_end by (simp_all add: control_end_def control_of_conn_def)
  then show ?case
    using conn_end.IH
    by (simp add: teardown_inv streams_finish) (simp add: control_of_conn_def mux_finish_def frps_frame ctl_def teardown_effect(1) torn_def)
next
  case (conn_forward ins mx s q)
  moreover have "mx_stage (forward_stream mx) = mx_stage mx" by (simp add: forward_stream_def split: list.splits)
  ultimately show ?case using streams_forward control_frame offline_kept_refl by blast
next
  case (conn_work ins mx s q now c first mx' s')
  have "server_inv s' \<and> offline_kept s s'"
    using work_server [OF conn_work(2)] conn_work.IH work_io_inv onlines_work(2) offline_kept_onlines by auto
  then show ?case using streams_work [OF _ conn_work(2)] conn_work.IH control_frame by blast
qed

text \<open>
  C21: on a multiplexed connection no stream is lost and no control is left behind, in every
  interleaving with the rest of the server: the inbound streams are, in order, the control
  stream, the work streams that were acknowledged and those still queued (at most sixteen),
  and only a connection that is over drops any; when the session under a running control ends,
  its task can return, and once it has, the control is offline, cancelled, without proxies and
  out of the session map, for good.
\<close>

theorem mux_connection_accounted:
  assumes "conn_reach e cfg ins mx s q"
  shows "(\<exists>dropped. ins = stream_list mx @ dropped \<and> (dropped \<noteq> [] \<longrightarrow> is_closed (mx_stage mx))) \<and>
    length (mx_queue mx) \<le> 16 \<and> set (mx_waiting mx) \<subseteq> set (mx_acked mx) \<and>
    (case mx_stage mx of
       Running i \<Rightarrow> session_over mx \<longrightarrow>
         mx_stage (fst (control_end mx s)) = Closed (Some i) \<and>
         conn_reach e cfg ins (fst (control_end mx s)) (snd (control_end mx s)) q
     | Closed (Some i) \<Rightarrow> \<not> c_online (ctl s i) \<and> c_cancelled (ctl s i) \<and> c_proxies (ctl s i) = [] \<and>
         i \<notin> set (map snd (s_controls s))
     | _ \<Rightarrow> True)"
proof -
  have inv: "server_inv s" "streams_ok ins mx" "control_of_conn mx s" using conn_inv [OF assms] by auto
  have streams: "\<exists>dropped. ins = stream_list mx @ dropped \<and> (dropped \<noteq> [] \<longrightarrow> is_closed (mx_stage mx))"
    using inv(2) by (auto simp: streams_ok_def)
  have bounds: "length (mx_queue mx) \<le> 16" "set (mx_waiting mx) \<subseteq> set (mx_acked mx)"
    using inv(2) by (simp_all add: streams_ok_def INBOUND_CHANNEL_def)
  have running: "mx_stage (fst (control_end mx s)) = Closed (Some i) \<and>
      conn_reach e cfg ins (fst (control_end mx s)) (snd (control_end mx s)) q"
    if "mx_stage mx = Running i" "session_over mx" for i
    using conn_end [OF assms, of False "fst (control_end mx s)" "snd (control_end mx s)"] that
    by (simp add: reader_may_end_def control_end_def mux_finish_def)
  have closed: "\<not> c_online (ctl s i) \<and> c_cancelled (ctl s i) \<and> c_proxies (ctl s i) = [] \<and>
      i \<notin> set (map snd (s_controls s))" if "mx_stage mx = Closed (Some i)" for i
  proof -
    have i: "i < length (s_heap s)" "\<not> c_online (ctl s i)" using inv(3) that by (simp_all add: control_of_conn_def)
    moreover have "(rid, i) \<notin> set (s_controls s)" for rid
      using inv(1) i(2) by (auto simp: server_inv_def controls_ok_def)
    ultimately show ?thesis using control_ok_at [OF inv(1) i(1)] by (auto simp: control_ok_def)
  qed
  show ?thesis using streams bounds running closed by (auto split: mux_stage.splits option.splits)
qed

text \<open>Waiting in vain for the control stream ends the connection's task but not the driver: it
  keeps the connection until the peer opens a stream or goes away.\<close>

lemma timeout_leaves_driver:
  "mx_driver (control_timeout mux_start) \<and> is_closed (mx_stage (control_timeout mux_start)) \<and>
   \<not> mx_driver (snd (driver_inbound c (control_timeout mux_start)))"
  by (simp add: control_timeout_def mux_start_def driver_inbound_def)

section \<open>Listeners: properties\<close>

text \<open>A failed accept never ends a listener: every connection before the stop is served.\<close>

lemma accept_loop_serves:
  "accept_loop (evs @ AcceptStop # rest) = accept_loop evs"
  "AcceptStop \<notin> set evs \<Longrightarrow> accept_loop evs = List.map_filter (\<lambda>ev. case ev of Accepted c \<Rightarrow> Some c | _ \<Rightarrow> None) evs"
  by (induction evs rule: accept_loop.induct) (simp_all add: List.map_filter_simps)

lemma tcp_users_counted:
  "tcp_user_loop evs s = (ps, s') \<Longrightarrow>
     s' = s\<lparr>s_total_user_conns := s_total_user_conns s + of_nat (length ps)\<rparr>"
  by (induction evs s arbitrary: ps rule: tcp_user_loop.induct)
     (auto simp: accept_user_def split: if_splits prod.splits)

text \<open>Every work connection a udp proxy uses is told the proxy's name before any datagram.\<close>

lemma udp_rounds_announced:
  "udp_proxy_loop uc i tk name laddr rs s = (tunnels, s') \<Longrightarrow> (conn, wire, sent) \<in> set tunnels \<Longrightarrow>
     \<exists>head out. write_msg (uc_to_vec uc) (ser_start_work_conn (udp_announce name)) TYPE_START_WORK_CONN = Ok head \<and>
       wire = head @ out"
proof (induction uc i tk name laddr rs s arbitrary: tunnels s' rule: udp_proxy_loop.induct)
  case (2 uc i tk name laddr r rs s)
  then show ?case
    by (auto split: if_splits prod.splits sum.splits)
qed simp

section \<open>The control's writer: properties\<close>

definition frame_of :: "(json \<Rightarrow> bytes option) \<Rightarrow> message \<Rightarrow> u8 \<times> bytes" where
  "frame_of to_vec m = (type_byte m, case writer_body to_vec m of Some body \<Rightarrow> body | None \<Rightarrow> [])"

lemma control_writer_frames:
  "control_writer to_vec ms = (out, sent) \<Longrightarrow>
     \<exists>w tail. write_frames (map (frame_of to_vec) sent) = Ok w \<and> out = w @ tail"
proof (induction to_vec ms arbitrary: out sent rule: control_writer.induct)
  case (2 to_vec m w ms)
  show ?case
  proof (cases "writer_body to_vec m")
    case None
    then show ?thesis using 2 by simp
  next
    case (Some body)
    show ?thesis
    proof (cases "write_frame (type_byte m) body")
      case (Inl e)
      then show ?thesis using "2.prems" Some by simp
    next
      case (Inr frame)
      obtain o1 s1 where r: "control_writer to_vec ms = (o1, s1)" by force
      have "\<exists>w tail. write_frames (map (frame_of to_vec) s1) = Ok w \<and> o1 = w @ tail" if "w = Wrote"
        using "2.IH"(2) [OF Some Inr that, of o1 s1] r by simp
      moreover have "frame_of to_vec m = (type_byte m, body)" using Some by (simp add: frame_of_def)
      ultimately show ?thesis
        using "2.prems" Some Inr r by (cases w) auto
    qed
  qed
qed simp

text \<open>However a control ends, the client can read the messages that went out whole, one after
  the other and in the order they were queued; nothing but a torn last frame follows.\<close>

lemma control_writer_readable:
  assumes "control_writer to_vec ms = (out, sent)"
  shows "\<exists>tail. read_frames (length sent) out = Ok (map (frame_of to_vec) sent, tail)"
proof -
  obtain w tail where w: "write_frames (map (frame_of to_vec) sent) = Ok w" "out = w @ tail"
    using control_writer_frames [OF assms] by blast
  from frames_roundtrip [OF w(1), of tail] w(2) show ?thesis by auto
qed

text \<open>A whole connection: a control stream, one work stream, login, the end of the session.\<close>

definition ex_mux :: mux_conn where
  "ex_mux = forward_stream (snd (driver_inbound 8 (take_control (snd (driver_inbound 7 mux_start)))))"

lemma ex_mux: "ex_mux = mux_start\<lparr>mx_stage := AwaitLogin, mx_control := Some 7, mx_forwarder := True,
     mx_acked := [8], mx_waiting := [8]\<rparr>"
  by (simp add: ex_mux_def forward_stream_def driver_inbound_def take_control_def mux_start_def INBOUND_CHANNEL_def)

lemma ex_mux_reach: "conn_reach ex_login_env default_frps_config [7, 8] ex_mux (shared_new default_frps_config) []"
proof -
  note conn_inbound [OF conn_start [OF reach_init] prod.collapse [symmetric], of ex_login_env default_frps_config 7]
  then have "conn_reach ex_login_env default_frps_config [7] (take_control (snd (driver_inbound 7 mux_start)))
      (shared_new default_frps_config) []"
    by (intro conn_take) (simp add: driver_inbound_def mux_start_def INBOUND_CHANNEL_def)
  from conn_forward [OF conn_inbound [OF this prod.collapse [symmetric], of 8]] show ?thesis
    unfolding ex_mux_def by (simp add: driver_inbound_def take_control_def mux_start_def INBOUND_CHANNEL_def)
qed

theorem mux_connection_accounted_witness:
  "\<exists>mx s. conn_reach ex_login_env default_frps_config [7, 8] mx s [] \<and> mx_stage mx = Closed (Some 0) \<and>
     mx_acked mx = [8] \<and> \<not> c_online (ctl s 0) \<and> 0 \<notin> set (map snd (s_controls s))"
proof -
  let ?s = "shared_new default_frps_config"
  let ?s1 = "?s\<lparr>s_total_logins := 1\<rparr>"
  let ?login = "login_example\<lparr>lg_privilege_key := []\<rparr>"
  have "login_begin ex_login_env ''u'' (TYPE_LOGIN, []) ?s =
      (Ok (?login, ''u''), ?s1, Some \<lparr> lr_version = ''0.51.3'', lr_run_id = ''u'', lr_error = [] \<rparr>)"
    by (simp add: login_begin_def ex_login_env_def ex_login_read auth_ok_iff auth_key_def hex_lower_def)
       (simp add: login_example_def shared_new_def Let_def)
  then have "control_login ex_login_env ''u'' (Got (TYPE_LOGIN, [])) ex_mux ?s = (ex_mux\<lparr>mx_stage := Replying ?login ''u''\<rparr>, ?s1)"
    by (simp add: control_login_def ex_mux)
  note conn_login [OF ex_mux_reach this]
  moreover obtain s2 where "login_finish 3 ?login ''u'' ?s1 = (0, s2)"
    by (simp add: login_finish_def Let_def shared_new_def)
  then have "control_replied 3 True (ex_mux\<lparr>mx_stage := Replying ?login ''u''\<rparr>) ?s1 = (ex_mux\<lparr>mx_stage := Running 0\<rparr>, s2)"
    by (simp add: control_replied_def)
  ultimately have "conn_reach ex_login_env default_frps_config [7, 8] (driver_end (ex_mux\<lparr>mx_stage := Running 0\<rparr>)) s2 []"
    by (blast intro: conn_driver_end conn_replied)
  from mux_connection_accounted [OF this]
  have r: "conn_reach ex_login_env default_frps_config [7, 8]
      (fst (control_end (driver_end (ex_mux\<lparr>mx_stage := Running 0\<rparr>)) s2))
      (snd (control_end (driver_end (ex_mux\<lparr>mx_stage := Running 0\<rparr>)) s2)) []"
    by (simp add: driver_end_def session_over_def stream_list_def ex_mux mux_start_def)
  have st: "mx_stage (fst (control_end (driver_end (ex_mux\<lparr>mx_stage := Running 0\<rparr>)) s2)) = Closed (Some 0)"
    "mx_acked (fst (control_end (driver_end (ex_mux\<lparr>mx_stage := Running 0\<rparr>)) s2)) = [8]"
    by (simp_all add: control_end_def driver_end_def mux_finish_def ex_mux)
  show ?thesis using r st mux_connection_accounted [OF r] by auto
qed

end
