(* ===== verification/Signal_Tasks.thy ===== *)
theory Signal_Tasks
  imports Signals RemgrConfig
begin

text \<open>
  How signals reach the program (\<open>remgr/src/signals.rs\<close>): installing the handlers on unix, twice
  because the embedded servers install their own in between, the reader thread behind the
  handler's pipe, the channel the shutdown task waits on, and the console events and the stop
  file of Windows.
\<close>

section \<open>Unix: installation\<close>

definition HANDLED :: "int list" where "HANDLED = [SIGTERM, SIGINT, SIGHUP]"

text \<open>Whether the pipe and its reader exist, whether the channel the tasks wait on is the one the
  reader sends to, and for which signals the disposition is ours.\<close>

record sig_setup =
  su_pipe :: bool
  su_channel :: bool
  su_connected :: bool
  su_handlers :: "int set"

definition setup_new :: sig_setup where
  "setup_new = \<lparr> su_pipe = False, su_channel = False, su_connected = False, su_handlers = {} \<rparr>"

record setup_env =
  se_pipe :: bool
  se_thread :: bool
  se_sigaction :: "int \<Rightarrow> bool"

text \<open>The pipe, the channel and the reader are made once. A channel that was set by an earlier
  call stays: the new reader then sends to a channel nobody waits on.\<close>

definition setup_reader :: "setup_env \<Rightarrow> sig_setup \<Rightarrow> bool \<times> sig_setup" where
  "setup_reader se g =
     (if su_pipe g then (True, g)
      else
        (let fresh = \<not> su_channel g; g1 = g\<lparr>su_channel := True\<rparr> in
         if \<not> se_pipe se then (False, g1)
         else if \<not> se_thread se then (False, g1\<lparr>su_pipe := True\<rparr>)
         else (True, g1\<lparr>su_pipe := True, su_connected := fresh\<rparr>)))"

fun setup_handlers :: "(int \<Rightarrow> bool) \<Rightarrow> int list \<Rightarrow> sig_setup \<Rightarrow> bool \<times> sig_setup" where
  "setup_handlers act [] g = (True, g)"
| "setup_handlers act (sg # sgs) g =
     (if act sg then setup_handlers act sgs (g\<lparr>su_handlers := insert sg (su_handlers g)\<rparr>) else (False, g))"

definition install :: "setup_env \<Rightarrow> sig_setup \<Rightarrow> bool \<times> sig_setup" where
  "install se g =
     (case setup_reader se g of
        (False, g1) \<Rightarrow> (False, g1)
      | (True, g1) \<Rightarrow> setup_handlers (se_sigaction se) HANDLED g1)"

text \<open>A component that registers a handler of its own takes the signal away.\<close>

definition taken_over :: "int set \<Rightarrow> sig_setup \<Rightarrow> sig_setup" where
  "taken_over sgs g = g\<lparr>su_handlers := su_handlers g - sgs\<rparr>"

section \<open>Unix: the reader thread\<close>

text \<open>What a read of the pipe gives: some bytes, an interruption, or the end of the pipe. The
  thread sends every record it parses and ends with the pipe or when nobody receives.\<close>

datatype pipe_read = PipeData string | PipeIntr | PipeGone

fun reader_thread :: "(nat \<Rightarrow> bool) \<Rightarrow> pipe_read list \<Rightarrow> sig_event list \<times> bool" where
  "reader_thread received [] = ([], True)"
| "reader_thread received (PipeIntr # rs) = reader_thread received rs"
| "reader_thread received (PipeGone # rs) = ([], False)"
| "reader_thread received (PipeData s # rs) =
     (let ts = parse_all s in
      if list_all received [0..<length ts]
      then (let (us, alive) = reader_thread (\<lambda>n. received (n + length ts)) rs in (ts @ us, alive))
      else (take (length (takeWhile received [0..<length ts])) ts, False))"

text \<open>\<open>next\<close>: the first signal in the channel; on a closed and empty channel an event without a
  signal, at once; \<open>None\<close> is waiting.\<close>

definition no_signal :: sig_event where
  "no_signal = \<lparr> t_signal = 0, t_sender_pid = 0, t_sender_uid = 0, t_code = 0 \<rparr>"

definition next_signal :: "bool \<Rightarrow> sig_event list \<Rightarrow> (sig_event \<times> sig_event list) option" where
  "next_signal sender_alive channel =
     (case channel of
        t # ts \<Rightarrow> Some (t, ts)
      | [] \<Rightarrow> if sender_alive then None else Some (no_signal, []))"

section \<open>Windows\<close>

record win_state =
  ws_installed :: bool
  ws_channel :: "sig_event list"
  ws_watching :: bool
  ws_files :: files

definition win_new :: "files \<Rightarrow> win_state" where
  "win_new fs = \<lparr> ws_installed = False, ws_channel = [], ws_watching = False, ws_files = fs \<rparr>"

definition win_install :: "bool \<Rightarrow> win_state \<Rightarrow> bool \<times> win_state" where
  "win_install handler_ok w =
     (if ws_installed w then (True, w)
      else if \<not> handler_ok then (False, w\<lparr>ws_installed := True\<rparr>)
      else (True, w\<lparr>ws_installed := True, ws_watching := True\<rparr>))"

definition win_event :: "int \<Rightarrow> win_state \<Rightarrow> win_state" where
  "win_event event w = (if ws_installed w then w\<lparr>ws_channel := ws_channel w @ [console_control event]\<rparr> else w)"

definition stop_path :: "host \<Rightarrow> string" where
  "stop_path h = path_join h (run_dir h) ''stop''"

text \<open>Removing the file is the answer to it; a file that cannot be removed is as good as none.\<close>

definition take_stop_file :: "host \<Rightarrow> bool \<Rightarrow> files \<Rightarrow> bool \<times> files" where
  "take_stop_file h removable fs =
     (case fs (stop_path h) of
        None \<Rightarrow> (False, fs)
      | Some _ \<Rightarrow> if removable then (True, fs(stop_path h := None)) else (False, fs))"

definition win_tick :: "host \<Rightarrow> bool \<Rightarrow> win_state \<Rightarrow> win_state" where
  "win_tick h removable w =
     (if \<not> ws_watching w then w
      else case take_stop_file h removable (ws_files w) of
        (False, fs) \<Rightarrow> w\<lparr>ws_files := fs\<rparr>
      | (True, fs) \<Rightarrow> w\<lparr>ws_files := fs, ws_channel := ws_channel w @ [no_signal], ws_watching := False\<rparr>)"

section \<open>Properties\<close>

lemma setup_handlers_ok:
  "setup_handlers act sgs g = (True, g') \<Longrightarrow>
     g' = g\<lparr>su_handlers := su_handlers g \<union> set sgs\<rparr>"
  by (induction act sgs g rule: setup_handlers.induct) (auto split: if_splits)

lemma install_ok:
  assumes "install se g = (True, g')"
  shows "su_connected g \<longrightarrow> su_pipe g \<longrightarrow> su_connected g'"
    and "\<not> su_channel g \<Longrightarrow> \<not> su_pipe g \<Longrightarrow> su_connected g'"
    and "set HANDLED \<subseteq> su_handlers g'" "su_pipe g'"
  using assms
  by (auto simp: install_def setup_reader_def Let_def split: if_splits prod.splits bool.splits
      dest!: setup_handlers_ok)

lemma reader_thread_all:
  "filter (\<lambda>r. r \<noteq> PipeIntr) reads = map (\<lambda>ts. PipeData (concat (map written ts))) tss \<Longrightarrow>
     list_all event_ok (concat tss) \<Longrightarrow> reader_thread (\<lambda>_. True) reads = (concat tss, True)"
proof (induction reads arbitrary: tss)
  case (Cons r reads)
  show ?case
  proof (cases r)
    case (PipeData s)
    then obtain ts tss' where t: "tss = ts # tss'" "s = concat (map written ts)"
      "filter (\<lambda>r. r \<noteq> PipeIntr) reads = map (\<lambda>ts. PipeData (concat (map written ts))) tss'"
      using Cons.prems(1) by (auto simp: Cons_eq_map_conv)
    have "parse_all s = ts" using parse_all_records [of ts "[]"] Cons.prems(2) t by simp
    moreover have "list_all (\<lambda>_. True) xs" for xs :: "nat list" by (simp add: list_all_iff)
    ultimately show ?thesis using Cons.IH [OF t(3)] Cons.prems(2) PipeData t(1) by simp
  qed (use Cons in \<open>auto simp: Cons_eq_map_conv\<close>)
qed simp



text \<open>Once the reader is gone and the channel empty, waiting for a signal no longer waits, and what
  it returns never stops the process.\<close>

lemma closed_channel_never_stops:
  "next_signal False [] = Some (no_signal, []) \<and> \<not> stops no_signal"
  by (simp add: next_signal_def no_signal_def stops_def SIGTERM_def SIGINT_def)

text \<open>On Windows a stop file asks for one stop: it is gone afterwards, so that the next start is
  not stopped by it, and is not looked for again.\<close>

lemma stop_file_once:
  assumes "win_install True (win_new fs) = (True, w)" "fs (stop_path h) = Some f"
  shows "ws_channel (win_tick h True w) = [no_signal] \<and> ws_files (win_tick h True w) (stop_path h) = None \<and>
     win_tick h b (win_tick h True w) = win_tick h True w \<and> win_stops no_signal \<and>
     win_describe no_signal = ''stop file found in the run directory: stopping the modules''"
  using assms
  by (auto simp: win_install_def win_new_def win_tick_def take_stop_file_def win_stops_def win_describe_def no_signal_def)

end
