(* ===== verification/Log_Output.thy ===== *)
theory Log_Output
  imports Logging "HOL-Library.Sublist"
begin

text \<open>
  Where log lines leave the process: the writer to standard output and error, which must never
  stall the process (\<open>DirectFd\<close>, \<open>say\<close> and \<open>unblock_stdout\<close> in \<open>remgr/src/logging.rs\<close>), the
  descriptor kept for the signal handler, the adapter that feeds the hub, and the live view of
  the console (\<open>handle_log_ws\<close> in \<open>remgr/src/console/mod.rs\<close>).
\<close>

section \<open>Standard output and error\<close>

text \<open>What a write meets: a pipe with some room, a pipe nobody reads any more, an interruption,
  or another error. The system call takes what fits; without room it fails when the descriptor
  is non-blocking and otherwise waits (\<open>None\<close>).\<close>

datatype pipe_state = Room nat | Hung_up | Interrupt | Broken

datatype fd_error = EAgain | EPipe | EIntr | EIo | EWriteZero

definition sys_write :: "bool \<Rightarrow> pipe_state \<Rightarrow> string \<Rightarrow> (fd_error + nat) option" where
  "sys_write nonblocking p buf =
     (case p of
        Room n \<Rightarrow> if n > 0 then Some (Ok (min n (length buf))) else if nonblocking then Some (Err EAgain) else None
      | Hung_up \<Rightarrow> Some (Err EPipe)
      | Interrupt \<Rightarrow> Some (Err EIntr)
      | Broken \<Rightarrow> Some (Err EIo))"

text \<open>\<open>DirectFd::write\<close>: on unix a full or closed pipe counts as written, so that the line is
  dropped. The first component is what reached the descriptor.\<close>

definition direct_write :: "host \<Rightarrow> bool \<Rightarrow> pipe_state \<Rightarrow> string \<Rightarrow> string \<times> (fd_error + nat) option" where
  "direct_write h nonblocking p buf =
     (case sys_write nonblocking p buf of
        None \<Rightarrow> ([], None)
      | Some (Ok n) \<Rightarrow> (take n buf, Some (Ok n))
      | Some (Err e) \<Rightarrow>
          if \<not> h_windows h \<and> (e = EAgain \<or> e = EPipe) then ([], Some (Ok (length buf))) else ([], Some (Err e)))"

text \<open>\<open>Write::write_all\<close> of the standard library over it. The last components are the result,
  where \<open>None\<close> is a call that still waits, and what the next write will meet.\<close>

fun write_all :: "host \<Rightarrow> bool \<Rightarrow> pipe_state list \<Rightarrow> string \<Rightarrow> string \<times> (fd_error + unit) option \<times> pipe_state list" where
  "write_all h nb ps [] = ([], Some (Ok ()), ps)"
| "write_all h nb [] (b # bs) = ([], None, [])"
| "write_all h nb (p # ps) (b # bs) =
     (case direct_write h nb p (b # bs) of
        (out, None) \<Rightarrow> write_all h nb ps (b # bs)
      | (out, Some (Ok n)) \<Rightarrow>
          if n = 0 then (out, Some (Err EWriteZero), ps)
          else (let (out', r, ps') = write_all h nb ps (drop n (b # bs)) in (out @ out', r, ps'))
      | (out, Some (Err e)) \<Rightarrow> if e = EIntr then write_all h nb ps (b # bs) else (out, Some (Err e), ps))"

definition write_line_fd :: "host \<Rightarrow> bool \<Rightarrow> pipe_state list \<Rightarrow> string \<Rightarrow> string \<times> bool \<times> pipe_state list" where
  "write_line_fd h nb ps line =
     (case write_all h nb ps line of
        (out, None, ps1) \<Rightarrow> (out, False, ps1)
      | (out, Some _, ps1) \<Rightarrow> (case write_all h nb ps1 newline of (out', r, ps2) \<Rightarrow> (out @ out', r \<noteq> None, ps2)))"

text \<open>Whether standard output is non-blocking after \<open>unblock_stdout\<close>: a terminal is left alone, and
  so is a descriptor whose flags cannot be read or set.\<close>

definition unblock_stdout :: "host \<Rightarrow> bool \<Rightarrow> bool \<Rightarrow> bool \<Rightarrow> bool \<Rightarrow> bool" where
  "unblock_stdout h tty getfl setfl nb =
     (if h_windows h \<or> tty then nb else if \<not> getfl then nb else if setfl then True else nb)"

section \<open>The descriptor of the signal handler\<close>

text \<open>\<open>RAW_FD\<close> and the open descriptors. \<open>dup\<close> is what the system call returned.\<close>

record fd_table =
  ft_raw :: int
  ft_open :: "int set"

definition fd_table_new :: "int set \<Rightarrow> fd_table" where
  "fd_table_new fds = \<lparr> ft_raw = -1, ft_open = fds \<rparr>"

definition raw_fd :: "fd_table \<Rightarrow> int" where "raw_fd t = ft_raw t"

definition remember_raw_fd :: "int \<Rightarrow> fd_table \<Rightarrow> fd_table" where
  "remember_raw_fd dup t =
     (if dup < 0 then t
      else (let previous = ft_raw t; t1 = t\<lparr>ft_raw := dup, ft_open := insert dup (ft_open t)\<rparr> in
            if previous \<ge> 0 then t1\<lparr>ft_open := ft_open t1 - {previous}\<rparr> else t1))"

section \<open>The hub's writer and its live view\<close>

text \<open>\<open>HubWriter::write\<close>: the bytes as text (invalid sequences replaced), all of them taken.\<close>

definition hub_write :: "(string \<Rightarrow> string) \<Rightarrow> host \<Rightarrow> (nat \<Rightarrow> log_io) \<Rightarrow> string \<Rightarrow> log_hub \<Rightarrow> nat \<times> log_hub" where
  "hub_write lossy h io buf s = (length buf, ingest h io (lossy buf) s)"

text \<open>A receiver of the broadcast channel: the next line, or, when more lines than the channel
  holds are unread, a jump to the oldest it still holds. The hub keeps the sender for as long
  as the process lives, so the channel is never closed.\<close>

definition LIVE_CAPACITY :: nat where "LIVE_CAPACITY = 256"

datatype live_recv = LvLine string | LvLagged nat | LvWait

definition live_next :: "string list \<Rightarrow> nat \<Rightarrow> live_recv" where
  "live_next sent pos =
     (if pos + LIVE_CAPACITY < length sent then LvLagged (length sent - LIVE_CAPACITY)
      else if pos < length sent then LvLine (sent ! pos) else LvWait)"

text \<open>One browser: its position in the broadcast, the lines it was sent, how many were skipped
  or failed to be sent, whether the two tasks are alive and whether the handler has returned.\<close>

record live_view =
  lv_pos :: nat
  lv_got :: "string list"
  lv_missed :: nat
  lv_sending :: bool
  lv_receiving :: bool
  lv_over :: bool

definition live_open :: "log_hub \<Rightarrow> live_view" where
  "live_open s = \<lparr> lv_pos = length (lh_sent s), lv_got = [], lv_missed = 0, lv_sending = True, lv_receiving = True,
     lv_over = False \<rparr>"

definition live_send :: "bool \<Rightarrow> log_hub \<Rightarrow> live_view \<Rightarrow> live_view" where
  "live_send ok s v =
     (if \<not> lv_sending v then v
      else case live_next (lh_sent s) (lv_pos v) of
        LvWait \<Rightarrow> v
      | LvLagged k \<Rightarrow> v\<lparr>lv_pos := k, lv_missed := lv_missed v + (k - lv_pos v)\<rparr>
      | LvLine line \<Rightarrow>
          if ok then v\<lparr>lv_pos := lv_pos v + 1, lv_got := lv_got v @ [line]\<rparr>
          else v\<lparr>lv_pos := lv_pos v + 1, lv_missed := lv_missed v + 1, lv_sending := False\<rparr>)"

datatype ws_item = WsText | WsBinary | WsPing | WsPong | WsClose | WsError | WsEnd

definition live_receive :: "ws_item \<Rightarrow> live_view \<Rightarrow> live_view" where
  "live_receive m v = (if lv_receiving v \<and> m \<noteq> WsText then v\<lparr>lv_receiving := False\<rparr> else v)"

text \<open>The select of the handler: when one task has ended, both are stopped.\<close>

definition live_finish :: "live_view \<Rightarrow> live_view" where
  "live_finish v =
     (if lv_sending v \<and> lv_receiving v then v else v\<lparr>lv_sending := False, lv_receiving := False, lv_over := True\<rparr>)"

inductive live_reach :: "host \<Rightarrow> (nat \<Rightarrow> log_io) \<Rightarrow> log_hub \<Rightarrow> log_hub \<Rightarrow> live_view \<Rightarrow> bool" for h io s0 where
  live_start: "live_reach h io s0 s0 (live_open s0)"
| live_log: "live_reach h io s0 s v \<Longrightarrow> live_reach h io s0 (snd (hub_write lossy h io buf s)) v"
| live_sent: "live_reach h io s0 s v \<Longrightarrow> live_reach h io s0 s (live_send ok s v)"
| live_received: "live_reach h io s0 s v \<Longrightarrow> live_reach h io s0 s (live_receive m v)"
| live_ended: "live_reach h io s0 s v \<Longrightarrow> live_reach h io s0 s (live_finish v)"

section \<open>Lemmas\<close>

text \<open>With a non-blocking descriptor on unix a write takes at least one byte, is interrupted, or
  fails for good.\<close>

lemma direct_write_nonblocking:
  assumes "buf \<noteq> []"
  shows "direct_write h True p buf \<noteq> (out, None)"
    and "direct_write h True p buf = (out, Some (Ok n)) \<Longrightarrow> 0 < n \<and> n \<le> length buf \<and> prefix out buf"
  using assms
  by (auto simp: direct_write_def sys_write_def take_is_prefix split: option.splits sum.splits pipe_state.splits if_splits)

lemma direct_write_ok:
  "direct_write h nb p buf = (out, Some (Ok n)) \<Longrightarrow> out = take n buf \<or> (out = [] \<and> n = length buf)"
  "direct_write h nb p buf = (out, Some (Err e)) \<Longrightarrow> out = []" "direct_write h nb p buf = (out, None) \<Longrightarrow> out = []"
  by (auto simp: direct_write_def split: option.splits sum.splits if_splits)

lemma write_all_done [simp]: "write_all h nb ps [] = ([], Some (Ok ()), ps)"
  by simp

lemma write_all_step:
  assumes "buf \<noteq> []"
  shows "write_all h nb (p # ps) buf =
     (case direct_write h nb p buf of
        (out, None) \<Rightarrow> write_all h nb ps buf
      | (out, Some (Ok n)) \<Rightarrow>
          if n = 0 then (out, Some (Err EWriteZero), ps)
          else (let (out', r, ps') = write_all h nb ps (drop n buf) in (out @ out', r, ps'))
      | (out, Some (Err e)) \<Rightarrow> if e = EIntr then write_all h nb ps buf else (out, Some (Err e), ps))"
proof -
  obtain b bs where "buf = b # bs" using assms by (cases buf) auto
  then show ?thesis by (simp only: write_all.simps(3))
qed

lemma write_all_prefix: "write_all h nb ps buf = (out, r, ps') \<Longrightarrow> prefix out buf"
proof (induction ps arbitrary: buf out r ps')
  case Nil
  then show ?case by (cases buf) auto
next
  case (Cons p ps)
  show ?case
  proof (cases "buf = []")
    case False
    obtain o1 r1 where d: "direct_write h nb p buf = (o1, r1)" by force
    have *: "prefix (take n buf @ o2) buf" if "prefix o2 (drop n buf)" for n o2
      using that by (metis append_take_drop_id same_prefix_prefix)
    have step: "prefix (o1 @ o2) buf" if "write_all h nb ps (drop n buf) = (o2, r2, ps2)" "r1 = Some (Ok n)" for n o2 r2 ps2
      using direct_write_ok(1) [of h nb p buf o1 n] * [OF Cons.IH [OF that(1)]] Cons.IH [OF that(1)] d that(2) by auto
    show ?thesis
      using Cons d direct_write_ok [of h nb p buf] False
      by (auto simp: write_all_step take_is_prefix dest: step split: option.splits sum.splits if_splits prod.splits)
  qed (use Cons in simp)
qed

text \<open>Each condition of the pipe but an interruption moves a non-blocking write on, so as many of
  them as there are bytes complete it, and it uses no more.\<close>

lemma write_all_returns:
  "length (filter (\<lambda>p. p \<noteq> Interrupt) ps) \<ge> length buf \<Longrightarrow> write_all h True ps buf = (out, r, ps') \<Longrightarrow>
     r \<noteq> None \<and> length (filter (\<lambda>p. p \<noteq> Interrupt) ps') + length buf \<ge> length (filter (\<lambda>p. p \<noteq> Interrupt) ps)"
proof (induction ps arbitrary: buf out r ps')
  case Nil
  then show ?case by (cases buf) auto
next
  case (Cons p ps)
  show ?case
  proof (cases "buf = []")
    case False
    obtain o1 r1 where d: "direct_write h True p buf = (o1, Some r1)"
      using direct_write_nonblocking(1) [OF False] by (metis not_None_eq surj_pair)
    show ?thesis
    proof (cases r1)
      case (Inl e)
      have "e = EIntr \<longleftrightarrow> p = Interrupt"
        using d Inl by (auto simp: direct_write_def sys_write_def split: pipe_state.splits if_splits option.splits sum.splits)
      then show ?thesis using Cons d Inl False by (auto simp: write_all_step Suc_leI split: if_splits)
    next
      case (Inr n)
      obtain o2 r2 ps2 where w: "write_all h True ps (drop n buf) = (o2, r2, ps2)" by (metis prod_cases3)
      have n: "0 < n" "n \<le> length buf" using direct_write_nonblocking(2) [OF False] d Inr by auto
      have "p \<noteq> Interrupt" using d Inr by (auto simp: direct_write_def sys_write_def)
      then show ?thesis
        using Cons.IH [OF _ w] Cons.prems d Inr n False w by (simp add: write_all_step) linarith
    qed
  qed (use Cons in auto)
qed

text \<open>As a service, the process never stalls on its output: once standard output is
  non-blocking, a line is written, cut or dropped after at most as many answers of the system
  as it has bytes, interruptions apart, whether the pipe is full, closed or broken.\<close>

lemma output_never_stalls:
  assumes "\<not> h_windows h" "unblock_stdout h False True True nb = nb'"
    and "length (filter (\<lambda>p. p \<noteq> Interrupt) ps) \<ge> length line + 1"
  shows "\<exists>out cut ps'. write_line_fd h nb' ps line = (out @ cut, True, ps') \<and> prefix out line \<and> prefix cut newline"
proof -
  have nb: "nb'" using assms(1,2) by (simp add: unblock_stdout_def)
  obtain o1 r1 ps1 where w1: "write_all h True ps line = (o1, r1, ps1)" by (metis prod_cases3)
  obtain o2 r2 ps2 where w2: "write_all h True ps1 newline = (o2, r2, ps2)" by (metis prod_cases3)
  have r1: "r1 \<noteq> None" "length (filter (\<lambda>p. p \<noteq> Interrupt) ps1) \<ge> 1"
    using write_all_returns [OF _ w1] assms(3) by auto
  have "r2 \<noteq> None" using write_all_returns [OF _ w2] r1(2) by (simp add: newline_def)
  then show ?thesis using w1 w2 r1(1) nb write_all_prefix [OF w1] write_all_prefix [OF w2]
    by (intro exI [of _ o1] exI [of _ o2] exI [of _ ps2]) (auto simp: write_line_fd_def)
qed

text \<open>Without it a full pipe that nobody drains holds the process for as long as it stays full.\<close>

lemma blocking_output_stalls:
  "line \<noteq> [] \<Longrightarrow> set ps \<subseteq> {Room 0} \<Longrightarrow> write_line_fd h False ps line = ([], False, [])"
proof -
  assume "line \<noteq> []" "set ps \<subseteq> {Room 0}"
  then have "write_all h False ps line = ([], None, [])"
    by (induction ps) (auto simp: write_all_step direct_write_def sys_write_def neq_Nil_conv)
  then show ?thesis by (simp add: write_line_fd_def)
qed

text \<open>With room for it a line is written whole.\<close>

lemma room_writes_line:
  assumes "line \<noteq> []" "n \<ge> length line" "m > 0"
  shows "write_line_fd h nb (Room n # Room m # ps) line = (line @ newline, True, ps)"
proof -
  have "write_all h nb (Room n # Room m # ps) line = (line, Some (Ok ()), Room m # ps)"
  proof -
    have "n > 0" using assms(1,2) by (cases line) auto
    then show ?thesis using assms(1,2) by (simp add: write_all_step direct_write_def sys_write_def min_absorb2)
  qed
  moreover have "write_all h nb (Room m # ps) newline = (newline, Some (Ok ()), ps)"
    using assms(3) by (simp add: write_all_step direct_write_def sys_write_def newline_def min_absorb2)
  ultimately show ?thesis by (simp add: write_line_fd_def)
qed

text \<open>Whatever opens of the log file succeed, at most one duplicate descriptor is held beside the
  others, and it is the one the signal handler writes to.\<close>

definition raw_fd_inv :: "int set \<Rightarrow> fd_table \<Rightarrow> bool" where
  "raw_fd_inv fds t \<longleftrightarrow> (raw_fd t = -1 \<and> ft_open t = fds) \<or> (raw_fd t \<ge> 0 \<and> raw_fd t \<notin> fds \<and> ft_open t = insert (raw_fd t) fds)"

lemma remember_raw_fd_inv:
  "raw_fd_inv fds t \<Longrightarrow> dup \<notin> ft_open t \<Longrightarrow> raw_fd_inv fds (remember_raw_fd dup t)"
  by (auto simp: raw_fd_inv_def raw_fd_def remember_raw_fd_def Let_def)

text \<open>But between the handler's load of the descriptor and its write, an open on another thread
  closes the very descriptor that was loaded.\<close>

lemma raw_fd_closed_under_handler:
  assumes "raw_fd_inv fds t" "raw_fd t = fd" "fd \<ge> 0" "dup \<ge> 0" "dup \<notin> ft_open t"
  shows "fd \<notin> ft_open (remember_raw_fd dup t)"
  using assms by (auto simp: raw_fd_inv_def raw_fd_def remember_raw_fd_def Let_def)

section \<open>The live view\<close>

lemma ingest_sent: "\<exists>more. lh_sent (ingest h io buf s) = lh_sent s @ more"
  using drain_lines_spec [of h io "s\<lparr>lh_partial := lh_partial s @ buf\<rparr>"] by (auto simp: ingest_def Let_def)

text \<open>What a browser has been sent of the lines since it connected.\<close>

definition live_inv :: "nat \<Rightarrow> log_hub \<Rightarrow> live_view \<Rightarrow> bool" where
  "live_inv start s v \<longleftrightarrow>
     start \<le> lv_pos v \<and> lv_pos v \<le> length (lh_sent s) \<and>
     subseq (lv_got v) (drop start (take (lv_pos v) (lh_sent s))) \<and>
     length (lv_got v) + lv_missed v = lv_pos v - start \<and> (lv_over v \<longrightarrow> \<not> lv_sending v \<and> \<not> lv_receiving v)"

lemma live_window:
  "start \<le> pos \<Longrightarrow> pos < length xs \<Longrightarrow>
     drop start (take (Suc pos) xs) = drop start (take pos xs) @ [xs ! pos]"
  by (simp add: take_Suc_conv_app_nth)

lemma live_send_inv: "live_inv start s v \<Longrightarrow> live_inv start s (live_send ok s v)"
proof -
  assume inv: "live_inv start s v"
  have sub: "subseq (lv_got v) (drop start (take k (lh_sent s)))" if "lv_pos v \<le> k" for k
  proof -
    have "take k (lh_sent s) = take (lv_pos v) (lh_sent s) @ drop (lv_pos v) (take k (lh_sent s))"
      using that by (metis append_take_drop_id min.absorb1 take_take)
    then have "drop start (take k (lh_sent s)) = drop start (take (lv_pos v) (lh_sent s)) @ drop (lv_pos v) (take k (lh_sent s))"
      using inv by (metis (no_types, lifting) append_Nil2 diff_is_0_eq drop_append drop_0 length_take live_inv_def min.absorb2)
    then show ?thesis using inv by (simp add: live_inv_def list_emb_prefix)
  qed
  show ?thesis
  proof (cases "live_next (lh_sent s) (lv_pos v)")
    case (LvLine line)
    then have l: "lv_pos v < length (lh_sent s)" "line = lh_sent s ! lv_pos v"
      by (auto simp: live_next_def split: if_splits)
    have w: "drop start (take (Suc (lv_pos v)) (lh_sent s)) = drop start (take (lv_pos v) (lh_sent s)) @ [line]"
      using live_window [of start "lv_pos v" "lh_sent s"] inv l by (simp add: live_inv_def)
    have "subseq (lv_got v @ [line]) (drop start (take (Suc (lv_pos v)) (lh_sent s)))"
      unfolding w using inv by (simp add: live_inv_def)
    then show ?thesis using inv LvLine l sub [of "Suc (lv_pos v)"] by (auto simp: live_send_def live_inv_def)
  next
    case (LvLagged k)
    then have k: "lv_pos v \<le> k" "k \<le> length (lh_sent s)" by (auto simp: live_next_def split: if_splits)
    then show ?thesis using inv LvLagged sub [OF k(1)] by (auto simp: live_send_def live_inv_def)
  qed (use inv in \<open>simp add: live_send_def\<close>)
qed

lemma live_reach_inv: "live_reach h io s0 s v \<Longrightarrow> live_inv (length (lh_sent s0)) s v"
proof (induction rule: live_reach.induct)
  case (live_log s v lossy buf)
  then show ?case using ingest_sent [of h io "lossy buf" s] by (auto simp: hub_write_def live_inv_def)
next
  case (live_sent s v ok)
  then show ?case by (intro live_send_inv)
qed (auto simp: live_inv_def live_open_def live_receive_def live_finish_def)

text \<open>A sender that is not behind by more than the channel holds sends the rest line by line; one
  that is first jumps.\<close>

lemma live_send_rest:
  "lv_sending v \<Longrightarrow> lv_pos v + n = length (lh_sent s) \<Longrightarrow> n \<le> LIVE_CAPACITY \<Longrightarrow>
     (live_send True s ^^ n) v =
       v\<lparr>lv_pos := length (lh_sent s), lv_got := lv_got v @ drop (lv_pos v) (lh_sent s)\<rparr>"
proof (induction n arbitrary: v)
  case (Suc n)
  let ?v = "v\<lparr>lv_pos := lv_pos v + 1, lv_got := lv_got v @ [lh_sent s ! lv_pos v]\<rparr>"
  have step: "live_send True s v = ?v" using Suc.prems by (simp add: live_send_def live_next_def)
  have "drop (lv_pos v) (lh_sent s) = lh_sent s ! lv_pos v # drop (Suc (lv_pos v)) (lh_sent s)"
    using Suc.prems by (intro Cons_nth_drop_Suc [symmetric]) simp
  then show ?case using Suc.IH [of ?v] Suc.prems by (simp add: funpow_Suc_right step del: funpow.simps)
qed simp

text \<open>
  C18: the live view shows the log: in every interleaving with the writers, the client's messages
  and failing sends, what a browser has been sent are lines broadcast since it connected, in
  order and without repetition, and none is missing unless it was skipped or its send failed;
  while its sender is alive, at most 257 further turns bring it up to date, the last lines
  shown being the newest (up to 256); and when one of its two tasks has ended, the handler
  leaves neither behind.
\<close>

theorem live_view_faithful:
  assumes reach: "live_reach h io s0 s v"
  shows "subseq (lv_got v) (drop (length (lh_sent s0)) (lh_sent s)) \<and>
    (lv_missed v = 0 \<longrightarrow> lv_got v = drop (length (lh_sent s0)) (take (lv_pos v) (lh_sent s))) \<and>
    (lv_sending v \<longrightarrow> (\<exists>n \<le> 257. let w = (live_send True s ^^ n) v in
       lv_pos w = length (lh_sent s) \<and> lv_got w = lv_got v @ drop (max (lv_pos v) (length (lh_sent s) - 256)) (lh_sent s))) \<and>
    (lv_sending v \<and> lv_receiving v \<or> lv_over (live_finish v) \<and> \<not> lv_sending (live_finish v) \<and> \<not> lv_receiving (live_finish v))"
proof -
  let ?start = "length (lh_sent s0)"
  have inv: "live_inv ?start s v" by (rule live_reach_inv [OF reach])
  have "subseq (lv_got v) (drop ?start (lh_sent s))"
  proof -
    have "drop ?start (lh_sent s) = drop ?start (take (lv_pos v) (lh_sent s) @ drop (lv_pos v) (lh_sent s))" by simp
    also have "\<dots> = drop ?start (take (lv_pos v) (lh_sent s)) @ drop (lv_pos v) (lh_sent s)"
      using inv by (simp add: live_inv_def del: append_take_drop_id)
    finally show ?thesis using inv by (simp add: live_inv_def list_emb_prefix)
  qed
  moreover have "lv_missed v = 0 \<longrightarrow> lv_got v = drop ?start (take (lv_pos v) (lh_sent s))"
    using inv by (auto simp: live_inv_def intro!: subseq_same_length)
  moreover have "\<exists>n \<le> 257. let w = (live_send True s ^^ n) v in
       lv_pos w = length (lh_sent s) \<and> lv_got w = lv_got v @ drop (max (lv_pos v) (length (lh_sent s) - 256)) (lh_sent s)"
    if "lv_sending v"
  proof (cases "lv_pos v + LIVE_CAPACITY < length (lh_sent s)")
    case True
    let ?k = "length (lh_sent s) - LIVE_CAPACITY"
    have "live_send True s v = v\<lparr>lv_pos := ?k, lv_missed := lv_missed v + (?k - lv_pos v)\<rparr>"
      using that True by (simp add: live_send_def live_next_def)
    then have "(live_send True s ^^ Suc LIVE_CAPACITY) v =
        v\<lparr>lv_pos := length (lh_sent s), lv_got := lv_got v @ drop ?k (lh_sent s), lv_missed := lv_missed v + (?k - lv_pos v)\<rparr>"
      using live_send_rest [of "v\<lparr>lv_pos := ?k, lv_missed := lv_missed v + (?k - lv_pos v)\<rparr>" LIVE_CAPACITY s] that True
      by (simp add: funpow_Suc_right del: funpow.simps)
    then show ?thesis
      using True by (intro exI [of _ "Suc LIVE_CAPACITY"]) (simp add: LIVE_CAPACITY_def max_absorb2 Let_def del: funpow.simps)
  next
    case False
    then show ?thesis
      using live_send_rest [of v "length (lh_sent s) - lv_pos v" s] that inv
      by (intro exI [of _ "length (lh_sent s) - lv_pos v"]) (simp add: LIVE_CAPACITY_def live_inv_def max_absorb1 Let_def)
  qed
  ultimately show ?thesis by (auto simp: live_finish_def)
qed

definition ex_live_hub :: log_hub where
  "ex_live_hub = snd (hub_write (\<lambda>b. b) ex_host (\<lambda>_. all_ok) (''hello'' @ newline) (log_hub_new ex_host Map.empty))"

lemma ex_live_hub_sent: "lh_sent ex_live_hub = [''hello'']"
proof -
  have "complete_lines (''hello'' @ newline) = [''hello'']" "rest_line (''hello'' @ newline) = []" by code_simp+
  then show ?thesis
    using drain_lines_spec [of ex_host "\<lambda>_. all_ok" "(log_hub_new ex_host Map.empty)\<lparr>lh_partial := ''hello'' @ newline\<rparr>"]
    by (simp add: ex_live_hub_def hub_write_def ingest_def Let_def log_hub_new_def)
qed

theorem live_view_faithful_witness:
  "lv_got (live_send True ex_live_hub (live_open (log_hub_new ex_host Map.empty))) = [''hello'']"
proof -
  let ?s0 = "log_hub_new ex_host Map.empty"
  have pos: "lv_pos (live_send True ex_live_hub (live_open ?s0)) = 1"
    and none: "lv_missed (live_send True ex_live_hub (live_open ?s0)) = 0"
    by (simp_all add: live_send_def live_open_def live_next_def ex_live_hub_sent log_hub_new_def LIVE_CAPACITY_def)
  have "live_reach ex_host (\<lambda>_. all_ok) ?s0 ex_live_hub (live_send True ex_live_hub (live_open ?s0))"
    unfolding ex_live_hub_def by (intro live_sent live_log live_start)
  from live_view_faithful [OF this] pos none show ?thesis by (simp add: ex_live_hub_sent log_hub_new_def)
qed

text \<open>The receiving task is there to notice the end of the connection, but any message that is not
  text ends it too, and with it the live view.\<close>

lemma ping_ends_live_view:
  "live_finish (live_receive WsPing (live_open s)) =
     (live_open s)\<lparr>lv_sending := False, lv_receiving := False, lv_over := True\<rparr>"
  by (simp add: live_receive_def live_open_def live_finish_def)

end
