(* ===== verification/Frpc_Tunnel.thy ===== *)
theory Frpc_Tunnel
  imports Frpc_Client Frps_Server "HOL-Library.Multiset"
begin

text \<open>
  Connections of the frp client (\<open>remgr-frps/src/client.rs\<close>, its last part): dialling the
  upstream with its TLS settings, the driver task of a multiplexed session, work connections,
  the datagram format of the client, the tcp copy loops and the udp forwarder with its
  per-user sockets. Sockets, TLS and yamux are outcomes of the environment.
\<close>

section \<open>Dialling\<close>

definition server_name :: "frpc_config \<Rightarrow> string" where
  "server_name cfg = (if trim (fc_server_name cfg) = [] then fc_server_addr cfg else fc_server_name cfg)"

datatype dial_error =
    ConnectTimeout string
  | ConnectFailed string
  | MarkerFailed
  | CaUnreadable string
  | CaInvalid string
  | CaEmpty string
  | BadServerName
  | HandshakeTimeout string
  | HandshakeFailed

text \<open>Which certificates the client accepts: any, or those under the listed roots.\<close>

datatype 'cert trust = AnyCertificate | TrustedRoots "'cert list"

text \<open>\<open>certs\<close> are the items of a PEM file; \<open>None\<close> is one that cannot be parsed or added.\<close>

definition tls_client_config ::
  "(string \<Rightarrow> string option) \<Rightarrow> (string \<Rightarrow> 'cert option list) \<Rightarrow> frpc_config \<Rightarrow> dial_error + 'cert trust" where
  "tls_client_config read_pem certs cfg =
     (case fc_trusted_ca_file cfg of
        Some path \<Rightarrow>
          if trim path \<noteq> [] then
            (case read_pem path of
               None \<Rightarrow> Err (CaUnreadable path)
             | Some pem \<Rightarrow>
                 if None \<in> set (certs pem) then Err (CaInvalid path)
                 else if certs pem = [] then Err (CaEmpty path)
                 else Ok (TrustedRoots (map the (certs pem))))
          else Ok AnyCertificate
      | None \<Rightarrow> Ok AnyCertificate)"

datatype attempt = Works | Fails | TimesOut

record 'cert dial_env =
  dl_connect :: "string \<Rightarrow> attempt"
  dl_marker :: bool
  dl_read_pem :: "string \<Rightarrow> string option"
  dl_certs :: "string \<Rightarrow> 'cert option list"
  dl_name_ok :: "string \<Rightarrow> bool"
  dl_handshake :: "'cert trust \<Rightarrow> string \<Rightarrow> attempt"

text \<open>A connection: the bytes it sent in the clear before the protocol starts, and its TLS
  side.\<close>

datatype 'cert conn = PlainConn | TlsConn bytes "'cert trust" string

definition connect_upstream :: "'cert dial_env \<Rightarrow> frpc_config \<Rightarrow> dial_error + 'cert conn" where
  "connect_upstream dl cfg =
     (let target = host_port (fc_server_addr cfg) (fc_server_port cfg) in
      case dl_connect dl target of
        TimesOut \<Rightarrow> Err (ConnectTimeout target)
      | Fails \<Rightarrow> Err (ConnectFailed target)
      | Works \<Rightarrow>
          if \<not> fc_tls cfg then Ok PlainConn
          else if \<not> dl_marker dl then Err MarkerFailed
          else case tls_client_config (dl_read_pem dl) (dl_certs dl) cfg of
            Inl e \<Rightarrow> Err e
          | Inr trust \<Rightarrow>
              if \<not> dl_name_ok dl (server_name cfg) then Err BadServerName
              else (case dl_handshake dl trust (server_name cfg) of
                      TimesOut \<Rightarrow> Err (HandshakeTimeout target)
                    | Fails \<Rightarrow> Err HandshakeFailed
                    | Works \<Rightarrow> Ok (TlsConn [0x17] trust (server_name cfg))))"

section \<open>The multiplexed session\<close>

text \<open>A request to open a stream is a number. Its answer is a stream or an error.\<close>

datatype mux_reply = StreamOpened nat | OpenFailed string | SessionClosed

datatype open_poll = OpenReady nat | OpenError string | OpenPending

text \<open>Serving what can be served now: the last request pushed is served first; an error fails
  all that are queued.\<close>

fun mux_serve :: "open_poll list \<Rightarrow> nat list \<Rightarrow> (nat \<times> mux_reply) list \<times> nat list" where
  "mux_serve polls [] = ([], [])"
| "mux_serve [] pending = ([], pending)"
| "mux_serve (OpenReady st # polls) pending =
     (case mux_serve polls (butlast pending) of (rs, pend) \<Rightarrow> ((last pending, StreamOpened st) # rs, pend))"
| "mux_serve (OpenError e # polls) pending = (map (\<lambda>r. (r, OpenFailed e)) pending, [])"
| "mux_serve (OpenPending # polls) pending = ([], pending)"

datatype mux_event =
    MuxCancelled
  | OpenRequest nat
  | RequestsClosed
  | RetryTick
  | InboundStream
  | InboundError
  | InboundEnd

fun mux_ends :: "mux_event \<Rightarrow> bool" where
  "mux_ends MuxCancelled = True"
| "mux_ends RequestsClosed = True"
| "mux_ends InboundError = True"
| "mux_ends InboundEnd = True"
| "mux_ends _ = False"

fun mux_queue :: "mux_event \<Rightarrow> nat list \<Rightarrow> nat list" where
  "mux_queue (OpenRequest r) pending = pending @ [r]"
| "mux_queue _ pending = pending"

text \<open>The driver: one turn serves and then waits for one event. The result is the answers it
  gave, and the requests still queued if it has not ended.\<close>

fun mux_driver :: "(open_poll list \<times> mux_event) list \<Rightarrow> nat list \<Rightarrow> (nat \<times> mux_reply) list \<times> nat list option" where
  "mux_driver [] pending = ([], Some pending)"
| "mux_driver ((polls, ev) # turns) pending =
     (case mux_serve polls pending of
        (rs, pend) \<Rightarrow>
          if mux_ends ev then (rs @ map (\<lambda>r. (r, SessionClosed)) pend, None)
          else (case mux_driver turns (mux_queue ev pend) of (rs', st) \<Rightarrow> (rs @ rs', st)))"

datatype open_error = MuxClosed | MuxOpenFailed string | MuxTimeout | DialFailed dial_error

text \<open>\<open>MuxSession::open\<close>, as its caller sees it: the answer of the driver, or none because the
  session is gone.\<close>

definition mux_open :: "mux_reply option \<Rightarrow> open_error + nat" where
  "mux_open answer =
     (case answer of
        Some (StreamOpened st) \<Rightarrow> Ok st
      | Some (OpenFailed e) \<Rightarrow> Err (MuxOpenFailed e)
      | Some SessionClosed \<Rightarrow> Err MuxClosed
      | None \<Rightarrow> Err MuxClosed)"

datatype 'cert work_io = MuxStream nat | OwnConn "'cert conn"

text \<open>\<open>Session::open_io\<close>; the answer is \<open>None\<close> on the outside when it does not come in time.\<close>

definition open_io ::
  "'cert dial_env \<Rightarrow> frpc_config \<Rightarrow> bool \<Rightarrow> mux_reply option option \<Rightarrow> open_error + 'cert work_io" where
  "open_io dl cfg mux answer =
     (if mux then
        (case answer of
           None \<Rightarrow> Err MuxTimeout
         | Some a \<Rightarrow> (case mux_open a of Inl e \<Rightarrow> Err e | Inr st \<Rightarrow> Ok (MuxStream st)))
      else case connect_upstream dl cfg of Inl e \<Rightarrow> Err (DialFailed e) | Inr c \<Rightarrow> Ok (OwnConn c))"

text \<open>The control connection of a session: a connection of its own or, with multiplexing, the
  first stream on it.\<close>

definition session_control ::
  "'cert dial_env \<Rightarrow> frpc_config \<Rightarrow> mux_reply option option \<Rightarrow> open_error + 'cert conn \<times> nat option" where
  "session_control dl cfg answer =
     (case connect_upstream dl cfg of
        Inl e \<Rightarrow> Err (DialFailed e)
      | Inr c \<Rightarrow>
          if \<not> fc_tcp_mux cfg then Ok (c, None)
          else (case answer of
                  None \<Rightarrow> Err MuxTimeout
                | Some a \<Rightarrow> (case mux_open a of Inl e \<Rightarrow> Err e | Inr st \<Rightarrow> Ok (c, Some st))))"

section \<open>Work connections\<close>

definition client_work_conn :: "(bytes \<Rightarrow> bytes) \<Rightarrow> int \<Rightarrow> frpc_config \<Rightarrow> string \<Rightarrow> new_work_conn" where
  "client_work_conn md5 ts cfg run_id =
     \<lparr> nw_run_id = run_id, nw_privilege_key = auth_key md5 (fc_token cfg) ts, nw_timestamp = ts \<rparr>"

datatype work_error =
    WorkRead msg_error
  | NotStartWorkConn u8
  | StartWorkJson
  | WorkRefused string
  | UnknownProxy string

datatype work_kind = ServeTcp | ServeUdp

text \<open>What the client does with the first frame on a work connection: the entry it serves and
  how. \<open>None\<close> is a session that ended while waiting.\<close>

definition serve_work_conn ::
  "(bytes \<Rightarrow> json option) \<Rightarrow> (string \<times> nat) list \<Rightarrow> (msg_error + u8 \<times> bytes) option \<Rightarrow> client_shared
     \<Rightarrow> (work_error + (nat \<times> work_kind) option) \<times> client_shared" where
  "serve_work_conn from_slice proxies frame s =
     (case frame of
        None \<Rightarrow> (Ok None, s)
      | Some (Inl e) \<Rightarrow> (Err (WorkRead e), s)
      | Some (Inr (tb, body)) \<Rightarrow>
          if tb \<noteq> TYPE_START_WORK_CONN then (Err (NotStartWorkConn tb), s)
          else case Option.bind (from_slice body) de_start_work_conn of
            None \<Rightarrow> (Err StartWorkJson, s)
          | Some start \<Rightarrow>
              if sw_error start \<noteq> [] then (Err (WorkRefused (sw_error start)), s)
              else (case map_of proxies (sw_proxy_name start) of
                      None \<Rightarrow> (Err (UnknownProxy (sw_proxy_name start)), s)
                    | Some i \<Rightarrow>
                        (let rt = sh_store s ! i;
                             s1 = s\<lparr>sh_store := (sh_store s)[i := rt\<lparr>pr_conns_total := pr_conns_total rt + 1\<rparr>]\<rparr>
                         in (Ok (Some (i, if pc_type (pr_cfg rt) = ''udp'' then ServeUdp else ServeTcp)), s1))))"

section \<open>Copying\<close>

text \<open>One direction of a tcp work connection: what each read gives and whether the write that
  follows succeeds; the counters are those of the proxy and of the client.\<close>

fun client_pump :: "(bytes option \<times> bool) list \<Rightarrow> u64 \<times> u64 \<Rightarrow> bytes \<times> u64 \<times> u64" where
  "client_pump [] c = ([], c)"
| "client_pump ((None, w) # evs) c = ([], c)"
| "client_pump ((Some bs, w) # evs) (own, all) =
     (if bs = [] then ([], own, all)
      else let c' = (own + of_nat (length bs), all + of_nat (length bs)) in
        if \<not> w then ([], c')
        else case client_pump evs c' of (out, c'') \<Rightarrow> (bs @ out, c''))"

datatype local_error = LocalTimeout string | LocalFailed string

text \<open>\<open>serve_tcp\<close>: the local service is dialled, then each direction is copied until it ends; what
  reaches the local service and what goes back upstream.\<close>

definition serve_tcp ::
  "attempt \<Rightarrow> (bytes option \<times> bool) list \<Rightarrow> (bytes option \<times> bool) list \<Rightarrow> nat \<Rightarrow> client_shared
     \<Rightarrow> (local_error + bytes \<times> bytes) \<times> client_shared" where
  "serve_tcp dial from_work from_local i s =
     (let rt = sh_store s ! i; addr = local_addr (pr_cfg rt) in
      case dial of
        TimesOut \<Rightarrow> (Err (LocalTimeout addr), s)
      | Fails \<Rightarrow> (Err (LocalFailed addr), s)
      | Works \<Rightarrow>
          (case (client_pump from_work (pr_bytes_in rt, sh_bytes_in s),
                 client_pump from_local (pr_bytes_out rt, sh_bytes_out s)) of
             ((to_local, own_in, all_in), (to_work, own_out, all_out)) \<Rightarrow>
               (Ok (to_local, to_work),
                s\<lparr>sh_store := (sh_store s)[i := rt\<lparr>pr_bytes_in := own_in, pr_bytes_out := own_out\<rparr>],
                  sh_bytes_in := all_in, sh_bytes_out := all_out\<rparr>)))"

text \<open>The first address the resolver gives for the local service, and the wildcard address of
  its family.\<close>

definition resolve_local :: "(ip_addr \<times> nat) list option \<Rightarrow> (string + ip_addr \<times> nat)" where
  "resolve_local answers =
     (case answers of
        None \<Rightarrow> Err ''resolving the local service address''
      | Some [] \<Rightarrow> Err ''no address found for the local service''
      | Some (a # _) \<Rightarrow> Ok a)"

definition udp_bind_addr :: "ip_addr \<times> nat \<Rightarrow> string" where
  "udp_bind_addr a = (if is_ipv4 (fst a) then ''0.0.0.0:0'' else ''[::]:0'')"

section \<open>Datagrams\<close>

text \<open>\<open>UdpPacketOut\<close>: every field is written.\<close>

definition ser_udp_out :: "(bytes \<Rightarrow> string) \<Rightarrow> ('ip \<Rightarrow> string) \<Rightarrow> bytes \<Rightarrow> 'ip \<times> nat \<Rightarrow> json" where
  "ser_udp_out b64_encode show_ip content user =
     JObj [(''c'', JStr (b64_encode content)),
           (''r'', JObj [(''IP'', JStr (show_ip (fst user))), (''Port'', JInt (int (snd user))), (''Zone'', JStr [])])]"

record udp_packet_in =
  ui_content_b64 :: string
  ui_remote :: "(string option \<times> nat) option"

definition de_udp_addr_in :: "json \<Rightarrow> (string option \<times> nat) option" where
  "de_udp_addr_in j = do {
     kvs \<leftarrow> struct_fields [''IP'', ''Port''] j;
     i \<leftarrow> de_field [''IP'', ''ip''] (de_opt de_str) None kvs;
     p \<leftarrow> de_field [''Port'', ''port''] (de_unsigned 16) 0 kvs;
     Some (i, p) }"

definition de_udp_in :: "json \<Rightarrow> udp_packet_in option" where
  "de_udp_in j = do {
     kvs \<leftarrow> struct_fields [''c'', ''r''] j;
     c \<leftarrow> de_field [''c'', ''C''] de_str [] kvs;
     r \<leftarrow> de_field [''r'', ''R''] (de_opt de_udp_addr_in) None kvs;
     Some \<lparr> ui_content_b64 = c, ui_remote = r \<rparr> }"

definition udp_in_remote :: "(string \<Rightarrow> 'ip option) \<Rightarrow> udp_packet_in \<Rightarrow> ('ip \<times> nat) option" where
  "udp_in_remote ip_parse p = do {
     r \<leftarrow> ui_remote p;
     t \<leftarrow> fst r;
     ip \<leftarrow> ip_parse t;
     Some (ip, snd r) }"

definition default_ping :: ping where
  "default_ping = \<lparr> pi_privilege_key = [], pi_timestamp = 0 \<rparr>"

text \<open>The writer of a udp work connection: the frames for what its queue gives, a ping on each
  tick. \<open>None\<close> is a tick; a datagram that does not fit a frame is dropped; the first write that
  fails ends the task.\<close>

fun udp_writer ::
  "(json \<Rightarrow> bytes option) \<Rightarrow> (bytes \<Rightarrow> string) \<Rightarrow> ('ip \<Rightarrow> string) \<Rightarrow> ((bytes \<times> 'ip \<times> nat) option \<times> bool) list
     \<Rightarrow> (u8 \<times> bytes) list" where
  "udp_writer to_vec b64_encode show_ip [] = []"
| "udp_writer to_vec b64_encode show_ip ((None, w) # items) =
     (case to_vec (ser_ping default_ping) of
        None \<Rightarrow> []
      | Some body \<Rightarrow> if w then (TYPE_PING, body) # udp_writer to_vec b64_encode show_ip items else [])"
| "udp_writer to_vec b64_encode show_ip ((Some (content, user), w) # items) =
     (case to_vec (ser_udp_out b64_encode show_ip content user) of
        None \<Rightarrow> udp_writer to_vec b64_encode show_ip items
      | Some body \<Rightarrow>
          if length body > nat MAX_MSG_LEN then udp_writer to_vec b64_encode show_ip items
          else if w then (TYPE_UDP_PACKET, body) # udp_writer to_vec b64_encode show_ip items else [])"

section \<open>The udp forwarder\<close>

definition MAX_UDP_USER_SESSIONS :: nat where "MAX_UDP_USER_SESSIONS = 512"
definition MAX_UDP_USER_SOCKETS :: nat where "MAX_UDP_USER_SOCKETS = 1024"

text \<open>The task behind the socket of one user: whether the socket may still be used, whether it
  was told to stop, and whether it has ended.\<close>

record udp_task =
  ut_alive :: bool
  ut_cancelled :: bool
  ut_ended :: bool

text \<open>A udp work connection: the socket of each user, as the index of its task.\<close>

record 'ip tunnel =
  tn_users :: "(('ip \<times> nat) \<times> nat) list"
  tn_tasks :: "udp_task list"

definition task_alive :: "'ip tunnel \<Rightarrow> nat \<Rightarrow> bool" where
  "task_alive tn i = ut_alive (tn_tasks tn ! i)"

definition cancel_task :: "nat \<Rightarrow> udp_task list \<Rightarrow> udp_task list" where
  "cancel_task i ts = ts[i := (ts ! i)\<lparr>ut_cancelled := True\<rparr>]"

text \<open>Room for one more user: the dead are forgotten, and all of them if that is not enough.\<close>

definition make_room :: "'ip \<times> nat \<Rightarrow> 'ip tunnel \<Rightarrow> 'ip tunnel" where
  "make_room user tn =
     (if length (tn_users tn) \<ge> MAX_UDP_USER_SESSIONS \<and> map_of (tn_users tn) user = None then
        (let kept = filter (\<lambda>(_, i). task_alive tn i) (tn_users tn) in
         if length kept \<ge> MAX_UDP_USER_SESSIONS
         then tn\<lparr>tn_users := [], tn_tasks := fold cancel_task (map snd kept) (tn_tasks tn)\<rparr>
         else tn\<lparr>tn_users := kept\<rparr>)
      else tn)"

datatype admission = UseSocket nat | NewSocket | DropDatagram

text \<open>\<open>sockets\<close> is the number of user sockets of the whole client, which the tunnels share.\<close>

definition udp_admit :: "'ip \<times> nat \<Rightarrow> nat \<Rightarrow> 'ip tunnel \<Rightarrow> admission \<times> 'ip tunnel" where
  "udp_admit user sockets tn0 =
     (let tn = make_room user tn0 in
      case map_of (tn_users tn) user of
        Some i \<Rightarrow> if task_alive tn i then (UseSocket i, tn)
                  else (if sockets \<ge> MAX_UDP_USER_SOCKETS then DropDatagram else NewSocket, tn)
      | None \<Rightarrow> (if sockets \<ge> MAX_UDP_USER_SOCKETS then DropDatagram else NewSocket, tn))"

datatype tunnel_error = TunnelRead msg_error | BadFrameType u8 | UserBindFailed | UserConnectFailed

definition udp_open :: "bool \<times> bool \<Rightarrow> 'ip \<times> nat \<Rightarrow> nat \<Rightarrow> 'ip tunnel \<Rightarrow> (tunnel_error + nat) \<times> nat \<times> 'ip tunnel" where
  "udp_open ok user sockets tn =
     (if \<not> fst ok then (Err UserBindFailed, sockets, tn)
      else if \<not> snd ok then (Err UserConnectFailed, sockets, tn)
      else
        (let i = length (tn_tasks tn)
         in (Ok i, sockets + 1,
             tn\<lparr>tn_tasks := tn_tasks tn @ [\<lparr> ut_alive = True, ut_cancelled = False, ut_ended = False \<rparr>],
                tn_users := AList.update user i (tn_users tn)\<rparr>)))"

text \<open>Handing the datagram to the local service; a failure retires the socket.\<close>

definition udp_send :: "bool \<Rightarrow> 'ip \<times> nat \<Rightarrow> nat \<Rightarrow> 'ip tunnel \<Rightarrow> 'ip tunnel" where
  "udp_send ok user i tn =
     (if ok then tn
      else tn\<lparr>tn_tasks := cancel_task i ((tn_tasks tn)[i := (tn_tasks tn ! i)\<lparr>ut_alive := False\<rparr>]),
              tn_users := AList.delete user (tn_users tn)\<rparr>)"

text \<open>The task of a user ends: idle, an error of its socket, or told to stop.\<close>

definition udp_task_end :: "nat \<Rightarrow> nat \<Rightarrow> 'ip tunnel \<Rightarrow> nat \<times> 'ip tunnel" where
  "udp_task_end i sockets tn =
     (if i < length (tn_tasks tn) \<and> \<not> ut_ended (tn_tasks tn ! i)
      then (sockets - 1, tn\<lparr>tn_tasks := (tn_tasks tn)[i := (tn_tasks tn ! i)\<lparr>ut_alive := False, ut_ended := True\<rparr>]\<rparr>)
      else (sockets, tn))"

datatype 'ip udp_arrival = SkipFrame | ForUser bytes "'ip \<times> nat" | EndTunnel tunnel_error

definition udp_input ::
  "(bytes \<Rightarrow> json option) \<Rightarrow> (string \<Rightarrow> bytes option) \<Rightarrow> (string \<Rightarrow> 'ip option) \<Rightarrow> msg_error + u8 \<times> bytes
     \<Rightarrow> 'ip udp_arrival" where
  "udp_input from_slice b64_decode ip_parse frame =
     (case frame of
        Inl e \<Rightarrow> EndTunnel (TunnelRead e)
      | Inr (tb, body) \<Rightarrow>
          if tb = TYPE_PING \<or> tb = TYPE_PONG then SkipFrame
          else if tb \<noteq> TYPE_UDP_PACKET then EndTunnel (BadFrameType tb)
          else case Option.bind (from_slice body) de_udp_in of
            None \<Rightarrow> SkipFrame
          | Some pkt \<Rightarrow>
              (case b64_decode (ui_content_b64 pkt) of
                 None \<Rightarrow> SkipFrame
               | Some content \<Rightarrow>
                   (case udp_in_remote ip_parse pkt of
                      None \<Rightarrow> SkipFrame
                    | Some user \<Rightarrow> ForUser content user)))"

text \<open>One datagram from the upstream, when nothing happens in between: the socket it went to,
  if any. \<open>ok\<close> are the outcomes of bind, connect and send.\<close>

definition udp_datagram ::
  "bool \<times> bool \<times> bool \<Rightarrow> 'ip \<times> nat \<Rightarrow> nat \<Rightarrow> 'ip tunnel \<Rightarrow> (tunnel_error + nat option) \<times> nat \<times> 'ip tunnel" where
  "udp_datagram ok user sockets tn0 =
     (case ok of (bind_ok, connect_ok, send_ok) \<Rightarrow>
      case udp_admit user sockets tn0 of
        (DropDatagram, tn) \<Rightarrow> (Ok None, sockets, tn)
      | (UseSocket i, tn) \<Rightarrow> (Ok (if send_ok then Some i else None), sockets, udp_send send_ok user i tn)
      | (NewSocket, tn) \<Rightarrow>
          (case udp_open (bind_ok, connect_ok) user sockets tn of
             (Inl e, sockets', tn') \<Rightarrow> (Err e, sockets', tn')
           | (Inr i, sockets', tn') \<Rightarrow>
               (Ok (if send_ok then Some i else None), sockets', udp_send send_ok user i tn')))"

text \<open>Whatever ends the loop, every socket of the tunnel is told to stop.\<close>

definition tunnel_close :: "'ip tunnel \<Rightarrow> 'ip tunnel" where
  "tunnel_close tn = tn\<lparr>tn_tasks := map (\<lambda>t. t\<lparr>ut_cancelled := True\<rparr>) (tn_tasks tn)\<rparr>"

text \<open>The reading loop over what arrives; the datagrams handed to the local service with the
  socket each one left from, and how the tunnel ended, if it did. \<open>None\<close> is the session's
  end.\<close>

fun serve_udp ::
  "(bytes \<Rightarrow> json option) \<Rightarrow> (string \<Rightarrow> bytes option) \<Rightarrow> (string \<Rightarrow> 'ip option) \<Rightarrow>
   ((msg_error + u8 \<times> bytes) option \<times> bool \<times> bool \<times> bool) list \<Rightarrow> nat \<Rightarrow> 'ip tunnel
     \<Rightarrow> (nat \<times> bytes) list \<times> (tunnel_error + unit) option \<times> nat \<times> 'ip tunnel" where
  "serve_udp from_slice b64_decode ip_parse [] sockets tn = ([], None, sockets, tn)"
| "serve_udp from_slice b64_decode ip_parse ((None, ok) # evs) sockets tn = ([], Some (Ok ()), sockets, tunnel_close tn)"
| "serve_udp from_slice b64_decode ip_parse ((Some frame, ok) # evs) sockets tn =
     (case udp_input from_slice b64_decode ip_parse frame of
        SkipFrame \<Rightarrow> serve_udp from_slice b64_decode ip_parse evs sockets tn
      | EndTunnel e \<Rightarrow> ([], Some (Err e), sockets, tunnel_close tn)
      | ForUser content user \<Rightarrow>
          (case udp_datagram ok user sockets tn of
             (Inl e, sockets', tn') \<Rightarrow> ([], Some (Err e), sockets', tunnel_close tn')
           | (Inr sent, sockets', tn') \<Rightarrow>
               (case serve_udp from_slice b64_decode ip_parse evs sockets' tn' of
                  (out, r) \<Rightarrow> ((case sent of Some i \<Rightarrow> (i, content) # out | None \<Rightarrow> out), r))))"

section \<open>The driver answers every request\<close>

lemma mux_serve_answers: "mux_serve polls pending = (rs, pend) \<Longrightarrow> mset (map fst rs) + mset pend = mset pending"
proof (induction polls pending arbitrary: rs pend rule: mux_serve.induct)
  case (3 st polls v va)
  obtain rs' where "mux_serve polls (butlast (v # va)) = (rs', pend)" "rs = (last (v # va), StreamOpened st) # rs'"
    using "3.prems" by (auto split: prod.splits)
  moreover have "mset (v # va) = add_mset (last (v # va)) (mset (butlast (v # va)))"
    using append_butlast_last_id [of "v # va"] by (metis add_mset_add_single list.distinct(1) mset.simps mset_append)
  ultimately show ?case using "3.IH" by simp
qed (auto simp: comp_def simp del: mset_map)

text \<open>The requests the driver has taken from its channel: those before the event that ends it.\<close>

definition taken_requests :: "(open_poll list \<times> mux_event) list \<Rightarrow> nat list" where
  "taken_requests turns = concat (map (\<lambda>(_, ev). mux_queue ev []) (takeWhile (\<lambda>(_, ev). \<not> mux_ends ev) turns))"

lemma mux_queue_append: "mux_queue ev pend = pend @ mux_queue ev []"
  by (cases ev) simp_all

text \<open>
  C38: the driver of a multiplexed session answers every request for a stream exactly once: what
  it answered together with what is still queued is what it took from its channel, and when it
  has ended nothing is queued any more. Only the end of the session ends it; a stream that
  cannot be opened fails the queued requests and leaves the session running.
\<close>

theorem mux_answers_every_request:
  assumes "mux_driver turns pending = (rs, st)"
  shows "mset (map fst rs) + mset (case st of Some pend \<Rightarrow> pend | None \<Rightarrow> []) = mset pending + mset (taken_requests turns) \<and>
    (st = None \<longleftrightarrow> list_ex (\<lambda>(_, ev). mux_ends ev) turns)"
  using assms
proof (induction turns pending arbitrary: rs st rule: mux_driver.induct)
  case (2 polls ev turns pending)
  obtain rs1 pend where s: "mux_serve polls pending = (rs1, pend)" by (cases "mux_serve polls pending")
  note sum = mux_serve_answers [OF s]
  show ?case
  proof (cases "mux_ends ev")
    case True
    then have "rs = rs1 @ map (\<lambda>r. (r, SessionClosed)) pend" "st = None" using "2.prems" s by auto
    then show ?thesis using True sum by (simp add: taken_requests_def comp_def del: mset_map)
  next
    case False
    obtain rs2 where d: "mux_driver turns (mux_queue ev pend) = (rs2, st)" "rs = rs1 @ rs2"
      using "2.prems" s False by (auto split: prod.splits)
    show ?thesis
      using "2.IH" [OF s [symmetric] False d(1)] sum False d(2) mux_queue_append [of ev pend]
      by (simp add: taken_requests_def ac_simps)
  qed
qed (simp add: taken_requests_def)

theorem mux_answers_every_request_witness:
  "fst (mux_driver [([], OpenRequest 1), ([OpenError ''limit''], OpenRequest 2), ([OpenReady 7], InboundEnd)] [])
     = [(1, OpenFailed ''limit''), (2, StreamOpened 7)] \<and>
   mset (map fst (fst (mux_driver [([], OpenRequest 1), ([OpenError ''limit''], OpenRequest 2), ([OpenReady 7], InboundEnd)] [])))
     = {#1, 2#}"
  using mux_answers_every_request [OF prod.collapse [symmetric],
      of "[([], OpenRequest 1), ([OpenError ''limit''], OpenRequest 2), ([OpenReady 7], InboundEnd)]" "[]"]
  by (simp add: taken_requests_def)

section \<open>Bounds of the udp forwarder\<close>

lemma length_filter_update:
  "i < length xs \<Longrightarrow> P (xs ! i) \<Longrightarrow> \<not> P x \<Longrightarrow> length (filter P xs) = Suc (length (filter P (xs[i := x])))"
  by (induction xs arbitrary: i) (auto split: nat.splits)

lemma list_all_update: "list_all P xs \<Longrightarrow> P x \<Longrightarrow> list_all P (xs[i := x])"
  using set_update_subset_insert [of xs i x] by (auto simp: list_all_iff)

text \<open>The sockets a tunnel holds: the tasks that have not ended.\<close>

definition held :: "'ip tunnel \<Rightarrow> nat" where
  "held tn = length (filter Not (map ut_ended (tn_tasks tn)))"

definition tunnel_inv :: "'ip tunnel \<Rightarrow> bool" where
  "tunnel_inv tn \<longleftrightarrow> distinct (map fst (tn_users tn)) \<and> distinct (map snd (tn_users tn)) \<and>
     list_all (\<lambda>(_, i). i < length (tn_tasks tn)) (tn_users tn) \<and>
     length (tn_users tn) \<le> MAX_UDP_USER_SESSIONS \<and>
     list_all (\<lambda>t. ut_ended t \<longrightarrow> \<not> ut_alive t) (tn_tasks tn)"

lemma cancel_task_frame [simp]:
  "map ut_ended (cancel_task i ts) = map ut_ended ts" "map ut_alive (cancel_task i ts) = map ut_alive ts"
  "length (cancel_task i ts) = length ts"
  by (simp_all add: cancel_task_def map_update) (metis list_update_beyond list_update_id not_less nth_map length_map)+

lemma fold_cancel_frame [simp]:
  "map ut_ended (fold cancel_task is ts) = map ut_ended ts" "map ut_alive (fold cancel_task is ts) = map ut_alive ts"
  "length (fold cancel_task is ts) = length ts"
  by (induction "is" arbitrary: ts) simp_all

lemma ended_dead_cong:
  "map ut_ended ts' = map ut_ended ts \<Longrightarrow> map ut_alive ts' = map ut_alive ts \<Longrightarrow>
   list_all (\<lambda>t. ut_ended t \<longrightarrow> \<not> ut_alive t) ts' = list_all (\<lambda>t. ut_ended t \<longrightarrow> \<not> ut_alive t) ts"
  by (simp add: list_all_length) (metis length_map nth_map)

lemma make_room_held [simp]: "held (make_room user tn) = held tn"
  by (simp add: make_room_def held_def Let_def del: length_filter_map)

lemma make_room_inv: "tunnel_inv tn \<Longrightarrow> tunnel_inv (make_room user tn)"
  using ended_dead_cong [OF fold_cancel_frame(1,2)]
  by (auto simp: make_room_def Let_def tunnel_inv_def distinct_map_filter list_all_iff
      intro: order_trans [OF length_filter_le])

lemma make_room_has_room:
  "tunnel_inv tn \<Longrightarrow> map_of (tn_users (make_room user tn)) user = None \<Longrightarrow>
   length (tn_users (make_room user tn)) < MAX_UDP_USER_SESSIONS"
  by (auto simp: make_room_def Let_def MAX_UDP_USER_SESSIONS_def split: if_splits)

lemma held_cong: "map ut_ended (tn_tasks tn') = map ut_ended (tn_tasks tn) \<Longrightarrow> held tn' = held tn"
  by (simp add: held_def del: length_filter_map)

lemma udp_admit_spec:
  assumes "tunnel_inv tn" "udp_admit user sockets tn = (a, tn')"
  shows "tunnel_inv tn' \<and> held tn' = held tn \<and>
    (a = NewSocket \<longrightarrow> sockets < MAX_UDP_USER_SOCKETS \<and>
       (map_of (tn_users tn') user = None \<longrightarrow> length (tn_users tn') < MAX_UDP_USER_SESSIONS)) \<and>
    (\<forall>i. a = UseSocket i \<longrightarrow> map_of (tn_users tn') user = Some i \<and> task_alive tn' i)"
  using assms make_room_inv [OF assms(1), of user] make_room_has_room [OF assms(1), of user]
  by (auto simp: udp_admit_def Let_def split: option.splits if_splits)

lemma length_update_le: "length (AList.update k v xs) = (if map_of xs k = None then Suc (length xs) else length xs)"
  by (induction xs) auto

lemma set_update_snd: "snd ` set (AList.update k v xs) \<subseteq> insert v (snd ` set xs)"
  by (induction xs) auto

lemma distinct_snd_update: "distinct (map snd xs) \<Longrightarrow> v \<notin> snd ` set xs \<Longrightarrow> distinct (map snd (AList.update k v xs))"
proof (induction xs)
  case (Cons a xs)
  then show ?case using set_update_snd [of k v xs] by auto
qed simp

lemma udp_open_spec:
  assumes "tunnel_inv tn" "udp_open ok user sockets tn = (r, sockets', tn')"
    and "map_of (tn_users tn) user = None \<longrightarrow> length (tn_users tn) < MAX_UDP_USER_SESSIONS"
  shows "tunnel_inv tn' \<and> (\<forall>e. r = Err e \<longrightarrow> sockets' = sockets \<and> tn' = tn) \<and>
    (\<forall>i. r = Ok i \<longrightarrow> sockets' = Suc sockets \<and> held tn' = Suc (held tn) \<and> i = length (tn_tasks tn))"
proof -
  have "length (tn_tasks tn) \<notin> snd ` set (tn_users tn)"
    using assms(1) by (auto simp: tunnel_inv_def list_all_iff)
  moreover have "list_all (\<lambda>(_, i). i < Suc n) (AList.update user n us)"
    if "list_all (\<lambda>(_, i). i < n) us" for n and us :: "(('a \<times> nat) \<times> nat) list"
    using that by (induction us) (auto simp: list_all_iff)
  ultimately show ?thesis
    using assms
    by (auto simp: udp_open_def Let_def tunnel_inv_def held_def length_update_le distinct_update distinct_snd_update
        split: if_splits)
qed

lemma udp_send_inv: "tunnel_inv tn \<Longrightarrow> tunnel_inv (udp_send ok user i tn) \<and> held (udp_send ok user i tn) = held tn"
proof -
  assume inv: "tunnel_inv tn"
  let ?ts = "(tn_tasks tn)[i := (tn_tasks tn ! i)\<lparr>ut_alive := False\<rparr>]"
  have e: "map ut_ended ?ts = map ut_ended (tn_tasks tn)"
    by (simp add: map_update) (metis list_update_beyond list_update_id not_less nth_map length_map)
  have "list_all (\<lambda>t. ut_ended t \<longrightarrow> \<not> ut_alive t) ?ts"
    using inv by (simp add: tunnel_inv_def list_all_update)
  then have "list_all (\<lambda>t. ut_ended t \<longrightarrow> \<not> ut_alive t) (cancel_task i ?ts)"
    using ended_dead_cong [OF cancel_task_frame(1,2)] by blast
  moreover have "distinct (map snd (AList.delete user us))" if "distinct (map snd us)" for us :: "(('a \<times> nat) \<times> nat) list"
    using that by (simp add: AList.delete_eq distinct_map_filter)
  moreover have "list_all P (AList.delete user us)" "length (AList.delete user us) \<le> n"
    if "list_all P us" "length us \<le> n" for P n and us :: "(('a \<times> nat) \<times> nat) list"
    using that by (auto simp: AList.delete_eq list_all_iff intro: order_trans [OF length_filter_le])
  ultimately show ?thesis
    using inv e by (auto simp: udp_send_def tunnel_inv_def distinct_delete intro: held_cong)
qed

lemma udp_task_end_spec:
  assumes "tunnel_inv tn" "udp_task_end i sockets tn = (sockets', tn')"
  shows "tunnel_inv tn' \<and> ((sockets' = sockets \<and> held tn' = held tn) \<or> (sockets' = sockets - 1 \<and> held tn = Suc (held tn')))"
proof (cases "i < length (tn_tasks tn) \<and> \<not> ut_ended (tn_tasks tn ! i)")
  case True
  then have "held tn = Suc (held tn')"
    using assms(2) length_filter_update [of i "map ut_ended (tn_tasks tn)" Not True]
    by (auto simp: udp_task_end_def held_def map_update simp del: length_filter_map)
  moreover have "tunnel_inv tn'"
    using assms True by (auto simp: udp_task_end_def tunnel_inv_def list_all_update)
  ultimately show ?thesis using assms(2) True by (auto simp: udp_task_end_def)
next
  case False
  then show ?thesis using assms by (auto simp: udp_task_end_def)
qed

text \<open>All udp work connections of a client at once. The count of sockets is shared, and between
  the look at it and its increment a tunnel waits for its socket: another tunnel may pass the
  same look in the meantime. A tunnel works on one datagram at a time.\<close>

record 'ip udp_world =
  uw_sockets :: nat
  uw_tunnels :: "'ip tunnel list"
  uw_opening :: "('ip \<times> nat) option list"

inductive udp_step :: "'ip udp_world \<Rightarrow> 'ip udp_world \<Rightarrow> bool" where
  step_admit: "j < length (uw_tunnels w) \<Longrightarrow> uw_opening w ! j = None \<Longrightarrow>
     udp_admit user (uw_sockets w) (uw_tunnels w ! j) = (a, tn) \<Longrightarrow>
     tn' = (case a of UseSocket i \<Rightarrow> udp_send ok user i tn | _ \<Rightarrow> tn) \<Longrightarrow>
     udp_step w (w\<lparr>uw_tunnels := (uw_tunnels w)[j := tn'],
       uw_opening := (uw_opening w)[j := if a = NewSocket then Some user else None]\<rparr>)"
| step_open: "j < length (uw_tunnels w) \<Longrightarrow> uw_opening w ! j = Some user \<Longrightarrow>
     udp_open ok user (uw_sockets w) (uw_tunnels w ! j) = (r, sockets, tn) \<Longrightarrow>
     tn' = (case r of Inl _ \<Rightarrow> tunnel_close tn | Inr i \<Rightarrow> udp_send sent user i tn) \<Longrightarrow>
     udp_step w (w\<lparr>uw_sockets := sockets, uw_tunnels := (uw_tunnels w)[j := tn'],
       uw_opening := (uw_opening w)[j := None]\<rparr>)"
| step_task_end: "j < length (uw_tunnels w) \<Longrightarrow>
     udp_task_end i (uw_sockets w) (uw_tunnels w ! j) = (sockets, tn) \<Longrightarrow>
     udp_step w (w\<lparr>uw_sockets := sockets, uw_tunnels := (uw_tunnels w)[j := tn]\<rparr>)"
| step_close: "j < length (uw_tunnels w) \<Longrightarrow> uw_opening w ! j = None \<Longrightarrow>
     udp_step w (w\<lparr>uw_tunnels := (uw_tunnels w)[j := tunnel_close (uw_tunnels w ! j)]\<rparr>)"

definition udp_world_new :: "nat \<Rightarrow> 'ip udp_world" where
  "udp_world_new n = \<lparr> uw_sockets = 0, uw_tunnels = replicate n \<lparr> tn_users = [], tn_tasks = [] \<rparr>,
     uw_opening = replicate n None \<rparr>"

definition openings :: "'ip udp_world \<Rightarrow> nat" where
  "openings w = length (filter (\<lambda>q. q \<noteq> None) (uw_opening w))"

text \<open>A tunnel that is opening a socket has room for its user.\<close>

definition opening_room :: "'ip tunnel \<Rightarrow> ('ip \<times> nat) option \<Rightarrow> bool" where
  "opening_room tn q = (case q of None \<Rightarrow> True
     | Some user \<Rightarrow> map_of (tn_users tn) user = None \<longrightarrow> length (tn_users tn) < MAX_UDP_USER_SESSIONS)"

definition udp_world_inv :: "'ip udp_world \<Rightarrow> bool" where
  "udp_world_inv w \<longleftrightarrow> length (uw_opening w) = length (uw_tunnels w) \<and>
     list_all tunnel_inv (uw_tunnels w) \<and> list_all2 opening_room (uw_tunnels w) (uw_opening w) \<and>
     uw_sockets w = sum_list (map held (uw_tunnels w)) \<and>
     uw_sockets w + openings w + 1 \<le> MAX_UDP_USER_SOCKETS + length (uw_tunnels w)"

lemma udp_world_update:
  assumes inv: "udp_world_inv w" and j: "j < length (uw_tunnels w)" and "tunnel_inv tn" "opening_room tn q"
    and "sockets + held (uw_tunnels w ! j) = uw_sockets w + held tn"
    and "sockets + length (filter (\<lambda>q. q \<noteq> None) ((uw_opening w)[j := q])) + 1 \<le> MAX_UDP_USER_SOCKETS + length (uw_tunnels w)"
  shows "udp_world_inv (w\<lparr>uw_sockets := sockets, uw_tunnels := (uw_tunnels w)[j := tn], uw_opening := (uw_opening w)[j := q]\<rparr>)"
proof -
  have "held (uw_tunnels w ! j) \<le> sum_list (map held (uw_tunnels w))"
    using elem_le_sum_list [of j "map held (uw_tunnels w)"] j by simp
  then have "sockets = sum_list (map held ((uw_tunnels w)[j := tn]))"
    using inv j assms(5) by (simp add: udp_world_inv_def map_update sum_list_update)
  then show ?thesis
    using inv assms(3,4,6) by (simp add: udp_world_inv_def openings_def list_all_update list_all2_update_cong)
qed

lemma openings_same: "uw_opening w ! j = q \<Longrightarrow> (uw_opening w)[j := q] = uw_opening w"
  by (metis list_update_id)

lemma openings_start:
  assumes "j < length (uw_opening w)" "uw_opening w ! j = None"
  shows "length (filter (\<lambda>q. q \<noteq> None) ((uw_opening w)[j := Some user])) = Suc (openings w)"
  using length_filter_update [of j "(uw_opening w)[j := Some user]" "\<lambda>q. q \<noteq> None" None] assms
  by (simp add: openings_def openings_same)

lemma openings_stop:
  assumes "j < length (uw_opening w)" "uw_opening w ! j = Some user"
  shows "openings w = Suc (length (filter (\<lambda>q. q \<noteq> None) ((uw_opening w)[j := None])))"
  using length_filter_update [of j "uw_opening w" "\<lambda>q. q \<noteq> None" None] assms by (simp add: openings_def)

lemma openings_le: "udp_world_inv w \<Longrightarrow> openings w \<le> length (uw_tunnels w)"
  by (simp add: openings_def udp_world_inv_def) (metis length_filter_le)

lemma openings_less:
  assumes "udp_world_inv w" "j < length (uw_tunnels w)" "uw_opening w ! j = None"
  shows "openings w < length (uw_tunnels w)"
proof -
  have len: "length (uw_opening w) = length (uw_tunnels w)" using assms(1) by (simp add: udp_world_inv_def)
  then have "None \<in> set (uw_opening w)" using assms(2,3) by (metis nth_mem)
  then show ?thesis
    using length_filter_less [of None "uw_opening w" "\<lambda>q. q \<noteq> None"] by (simp add: openings_def len)
qed

lemma tunnel_close_inv: "tunnel_inv tn \<Longrightarrow> tunnel_inv (tunnel_close tn) \<and> held (tunnel_close tn) = held tn"
  by (simp add: tunnel_inv_def tunnel_close_def held_def list_all_iff comp_def)

lemma opening_room_cong: "tn_users tn' = tn_users tn \<Longrightarrow> opening_room tn' q = opening_room tn q"
  by (cases q) (simp_all add: opening_room_def)

lemma udp_world_at:
  assumes "udp_world_inv w" "j < length (uw_tunnels w)"
  shows "tunnel_inv (uw_tunnels w ! j)" "opening_room (uw_tunnels w ! j) (uw_opening w ! j)"
    "j < length (uw_opening w)" "held (uw_tunnels w ! j) \<le> uw_sockets w"
    "uw_sockets w + length (filter (\<lambda>q. q \<noteq> None) (uw_opening w)) + 1 \<le> MAX_UDP_USER_SOCKETS + length (uw_tunnels w)"
proof -
  show "held (uw_tunnels w ! j) \<le> uw_sockets w"
    using elem_le_sum_list [of j "map held (uw_tunnels w)"] assms by (simp add: udp_world_inv_def)
  show "opening_room (uw_tunnels w ! j) (uw_opening w ! j)"
    using assms list_all2_nthD [of opening_room "uw_tunnels w" "uw_opening w" j] by (simp add: udp_world_inv_def)
qed (use assms in \<open>simp_all add: udp_world_inv_def list_all_length openings_def\<close>)

lemma admit_step_inv:
  assumes inv: "udp_world_inv w" and j: "j < length (uw_tunnels w)" and idle: "uw_opening w ! j = None"
    and ad: "udp_admit user (uw_sockets w) (uw_tunnels w ! j) = (a, tn)"
    and tn': "tn' = (case a of UseSocket i \<Rightarrow> udp_send ok user i tn | _ \<Rightarrow> tn)"
  shows "udp_world_inv (w\<lparr>uw_tunnels := (uw_tunnels w)[j := tn'],
    uw_opening := (uw_opening w)[j := if a = NewSocket then Some user else None]\<rparr>)"
proof -
  let ?q = "if a = NewSocket then Some user else None"
  note here = udp_world_at [OF inv j]
  note spec = udp_admit_spec [OF here(1) ad]
  have t: "tunnel_inv tn'" "held tn' = held (uw_tunnels w ! j)" "opening_room tn' ?q"
    using spec udp_send_inv [of tn ok user] by (auto simp: tn' opening_room_def split: admission.splits)
  have bound: "uw_sockets w + length (filter (\<lambda>q. q \<noteq> None) ((uw_opening w)[j := ?q])) + 1
      \<le> MAX_UDP_USER_SOCKETS + length (uw_tunnels w)"
  proof (cases "a = NewSocket")
    case True
    then show ?thesis using spec openings_start [OF here(3) idle] openings_less [OF inv j idle] by simp
  next
    case False
    then show ?thesis using here(5) openings_same [OF idle] by simp
  qed
  from udp_world_update [OF inv j t(1,3) _ bound] t(2) show ?thesis by simp
qed

lemma open_step_inv:
  assumes inv: "udp_world_inv w" and j: "j < length (uw_tunnels w)" and busy: "uw_opening w ! j = Some user"
    and op: "udp_open ok user (uw_sockets w) (uw_tunnels w ! j) = (r, sockets, tn)"
    and tn': "tn' = (case r of Inl _ \<Rightarrow> tunnel_close tn | Inr i \<Rightarrow> udp_send sent user i tn)"
  shows "udp_world_inv (w\<lparr>uw_sockets := sockets, uw_tunnels := (uw_tunnels w)[j := tn'], uw_opening := (uw_opening w)[j := None]\<rparr>)"
proof -
  note here = udp_world_at [OF inv j]
  have room: "map_of (tn_users (uw_tunnels w ! j)) user = None \<longrightarrow>
      length (tn_users (uw_tunnels w ! j)) < MAX_UDP_USER_SESSIONS"
    using here(2) busy by (simp add: opening_room_def)
  note spec = udp_open_spec [OF here(1) op room]
  have t: "tunnel_inv tn'" "sockets + held (uw_tunnels w ! j) = uw_sockets w + held tn'" "sockets \<le> Suc (uw_sockets w)"
    using spec tunnel_close_inv [of tn] udp_send_inv [of tn sent user] by (cases r; simp add: tn')+
  have "sockets + length (filter (\<lambda>q. q \<noteq> None) ((uw_opening w)[j := None])) + 1 \<le> MAX_UDP_USER_SOCKETS + length (uw_tunnels w)"
    using here(5) t(3) openings_stop [OF here(3) busy] by (simp add: openings_def)
  from udp_world_update [OF inv j t(1) _ t(2) this] show ?thesis by (simp add: opening_room_def)
qed

lemma task_end_step_inv:
  assumes inv: "udp_world_inv w" and j: "j < length (uw_tunnels w)"
    and e: "udp_task_end i (uw_sockets w) (uw_tunnels w ! j) = (sockets, tn)"
  shows "udp_world_inv (w\<lparr>uw_sockets := sockets, uw_tunnels := (uw_tunnels w)[j := tn]\<rparr>)"
proof -
  note here = udp_world_at [OF inv j]
  note spec = udp_task_end_spec [OF here(1) e]
  have "tn_users tn = tn_users (uw_tunnels w ! j)" using e by (auto simp: udp_task_end_def split: if_splits)
  then have room: "opening_room tn (uw_opening w ! j)" using here(2) opening_room_cong by blast
  have k: "sockets + held (uw_tunnels w ! j) = uw_sockets w + held tn" "sockets \<le> uw_sockets w"
    using spec here(4) by auto
  from udp_world_update [OF inv j _ room k(1)] spec k(2) here(5) show ?thesis by simp
qed

lemma close_step_inv:
  assumes inv: "udp_world_inv w" and j: "j < length (uw_tunnels w)"
  shows "udp_world_inv (w\<lparr>uw_tunnels := (uw_tunnels w)[j := tunnel_close (uw_tunnels w ! j)]\<rparr>)"
proof -
  note here = udp_world_at [OF inv j]
  have room: "opening_room (tunnel_close (uw_tunnels w ! j)) (uw_opening w ! j)"
    using here(2) opening_room_cong [of "tunnel_close (uw_tunnels w ! j)" "uw_tunnels w ! j"] by (simp add: tunnel_close_def)
  from udp_world_update [OF inv j _ room] tunnel_close_inv [OF here(1)] here(5) show ?thesis by simp
qed

lemma udp_step_inv: "udp_step w w' \<Longrightarrow> udp_world_inv w \<Longrightarrow> udp_world_inv w'"
  by (induction rule: udp_step.induct) (simp_all only: admit_step_inv open_step_inv task_end_step_inv close_step_inv)

lemma udp_world_new_inv: "0 < n \<Longrightarrow> udp_world_inv (udp_world_new n)"
  by (simp add: udp_world_inv_def udp_world_new_def openings_def list_all_length list_all2_conv_all_nth tunnel_inv_def
      opening_room_def held_def MAX_UDP_USER_SOCKETS_def sum_list_replicate)

lemma udp_step_tunnels: "udp_step w w' \<Longrightarrow> length (uw_tunnels w') = length (uw_tunnels w)"
  by (induction rule: udp_step.induct) simp_all

interpretation udp: safe_system udp_step "\<lambda>w. udp_world_inv w \<and> length (uw_tunnels w) = n"
  "\<lambda>w. w = udp_world_new n \<and> 0 < n" for n
  by unfold_locales (auto simp: udp_step_inv udp_step_tunnels udp_world_new_inv, simp add: udp_world_new_def)

text \<open>
  C39: however the datagrams of all udp work connections interleave, no tunnel holds more than
  512 users, each user has a socket of its own, the shared count is the number of sockets
  really held, and it exceeds its limit of 1024 by less than the number of tunnels: each of
  them may have passed the check before another one counted its socket.
\<close>

theorem udp_forwarder_bounded:
  assumes "udp_step\<^sup>*\<^sup>* (udp_world_new n) w" "0 < n"
  shows "list_all (\<lambda>tn. length (tn_users tn) \<le> MAX_UDP_USER_SESSIONS \<and> distinct (map fst (tn_users tn)) \<and>
      distinct (map snd (tn_users tn))) (uw_tunnels w) \<and>
    uw_sockets w = sum_list (map held (uw_tunnels w)) \<and> uw_sockets w < MAX_UDP_USER_SOCKETS + n"
proof -
  have "udp_world_inv w" "length (uw_tunnels w) = n"
    using udp.reachable_inv [OF _ assms(1)] assms(2) by simp_all
  then show ?thesis by (auto simp: udp_world_inv_def tunnel_inv_def list_all_iff)
qed

text \<open>The first datagram of a user: its tunnel looks at the count and then opens a socket.\<close>

definition ex_world :: "nat udp_world" where
  "ex_world = (udp_world_new 2)\<lparr>uw_opening := [Some (7, 53), None]\<rparr>"

definition ex_world_open :: "nat udp_world" where
  "ex_world_open = ex_world\<lparr>uw_sockets := 1, uw_opening := [None, None],
     uw_tunnels := [\<lparr> tn_users = [((7, 53), 0)], tn_tasks = [\<lparr> ut_alive = True, ut_cancelled = False, ut_ended = False \<rparr>] \<rparr>,
       \<lparr> tn_users = [], tn_tasks = [] \<rparr>]\<rparr>"

lemma ex_world_steps: "udp_step\<^sup>*\<^sup>* (udp_world_new 2) ex_world_open"
proof -
  have "udp_step (udp_world_new 2) ex_world"
    using step_admit [of 0 "udp_world_new 2" "(7 :: nat, 53)" NewSocket "\<lparr> tn_users = [], tn_tasks = [] \<rparr>"
        "\<lparr> tn_users = [], tn_tasks = [] \<rparr>"]
    by (simp add: udp_world_new_def ex_world_def udp_admit_def make_room_def MAX_UDP_USER_SESSIONS_def
        MAX_UDP_USER_SOCKETS_def numeral_2_eq_2)
  moreover have "udp_step ex_world ex_world_open"
    using step_open [of 0 ex_world "(7, 53)" "(True, True)" "Ok 0" 1
        "hd (uw_tunnels ex_world_open)" "hd (uw_tunnels ex_world_open)" True]
    by (simp add: udp_world_new_def ex_world_def ex_world_open_def udp_open_def udp_send_def numeral_2_eq_2)
  ultimately show ?thesis by (meson converse_rtranclp_into_rtranclp rtranclp.rtrancl_refl)
qed

theorem udp_forwarder_bounded_witness:
  "uw_sockets ex_world_open = 1 \<and> uw_sockets ex_world_open = sum_list (map held (uw_tunnels ex_world_open))"
  using udp_forwarder_bounded [OF ex_world_steps] by (simp add: ex_world_open_def)

text \<open>Two tunnels that look at the count at the same time both open a socket: the limit of the
  whole client is not exact.\<close>

lemma udp_limit_race:
  assumes w: "uw_tunnels w = [a, b]" "uw_opening w = [None, None]" "uw_sockets w = 1023"
    and "udp_admit u 1023 a = (NewSocket, a')" "udp_admit v 1023 b = (NewSocket, b')"
  shows "\<exists>w'. udp_step\<^sup>*\<^sup>* w w' \<and> uw_sockets w' = 1025"
proof -
  define w1 where "w1 = w\<lparr>uw_tunnels := [a', b], uw_opening := [Some u, None]\<rparr>"
  define w2 where "w2 = w\<lparr>uw_tunnels := [a', b'], uw_opening := [Some u, Some v]\<rparr>"
  obtain a'' where a'': "udp_open (True, True) u 1023 a' = (Ok (length (tn_tasks a')), 1024, a'')"
    by (simp add: udp_open_def Let_def)
  obtain b'' where b'': "udp_open (True, True) v 1024 b' = (Ok (length (tn_tasks b')), 1025, b'')"
    by (simp add: udp_open_def Let_def)
  define w3 where "w3 = w\<lparr>uw_sockets := 1024, uw_tunnels := [a'', b'], uw_opening := [None, Some v]\<rparr>"
  define w4 where "w4 = w\<lparr>uw_sockets := 1025, uw_tunnels := [a'', b''], uw_opening := [None, None]\<rparr>"
  have "udp_step w w1"
    using step_admit [of 0 w u NewSocket a' a'] assms by (simp add: w1_def)
  moreover have "udp_step w1 w2"
    using step_admit [of 1 w1 v NewSocket b' b'] assms by (simp add: w1_def w2_def)
  moreover have "udp_step w2 w3"
    using step_open [of 0 w2 u "(True, True)" _ 1024 a'' a'' True] w a'' by (simp add: w2_def w3_def udp_send_def)
  moreover have "udp_step w3 w4"
    using step_open [of 1 w3 v "(True, True)" _ 1025 b'' b'' True] w b'' by (simp add: w3_def w4_def udp_send_def)
  ultimately have "udp_step\<^sup>*\<^sup>* w w4" by (meson converse_rtranclp_into_rtranclp rtranclp.rtrancl_refl)
  then show ?thesis by (intro exI [of _ w4]) (simp add: w4_def)
qed

text \<open>A user keeps its socket: while the socket is alive every datagram of that user leaves
  from it, and a new socket is one no other user has.\<close>

lemma udp_same_socket:
  assumes "tunnel_inv tn" "map_of (tn_users tn) user = Some i" "task_alive tn i"
  shows "udp_datagram (b, c, True) user sockets tn = (Ok (Some i), sockets, tn)"
  using assms by (simp add: udp_datagram_def udp_admit_def make_room_def udp_send_def)

section \<open>Datagrams between client and server\<close>

lemma client_packet_read_by_server:
  assumes "b64_decode (b64_encode content) = Some content" "ip_parse (show_ip (fst user)) = Some (fst user)"
    and "snd user < 2 ^ 16"
  shows "\<exists>p. de_udp_packet (ser_udp_out b64_encode show_ip content user) = Some p \<and>
    udp_content b64_decode p = Ok content \<and> remote_socket_addr ip_parse p = Some user"
  using assms
  by (simp add: ser_udp_out_def de_udp_packet_def de_udp_addr_def de_field_def udp_content_def remote_socket_addr_def)

lemma server_packet_read_by_client:
  assumes "b64_decode (b64_encode content) = Some content" "ip_parse (show_ip (fst user)) = Some (fst user)"
    and "snd user < 2 ^ 16" "from_slice body = Some (ser_udp_packet (udp_from_content b64_encode show_ip content local user))"
  shows "udp_input from_slice b64_decode ip_parse (Ok (TYPE_UDP_PACKET, body)) = ForUser content user"
  using assms
  by (cases local; cases user) (auto simp: udp_input_def ser_udp_packet_def ser_udp_addr_def udp_from_content_def addr_json_def de_udp_in_def
      de_udp_addr_in_def de_field_def udp_in_remote_def type_bytes ser_str_def ser_int_def ser_if_def)

definition udp_fits :: "(json \<Rightarrow> bytes option) \<Rightarrow> (bytes \<Rightarrow> string) \<Rightarrow> ('ip \<Rightarrow> string) \<Rightarrow> bytes \<times> 'ip \<times> nat \<Rightarrow> bool" where
  "udp_fits to_vec b64_encode show_ip d =
     (case to_vec (ser_udp_out b64_encode show_ip (fst d) (snd d)) of
        None \<Rightarrow> False
      | Some body \<Rightarrow> length body \<le> nat MAX_MSG_LEN)"

lemma server_reads_client_datagrams:
  assumes "\<And>j b. to_vec j = Some b \<Longrightarrow> from_slice b = Some j" "to_vec (ser_ping default_ping) \<noteq> None"
    and "\<And>c. b64_decode (b64_encode c) = Some c" "\<And>a. ip_parse (show_ip a) = Some a"
    and "list_all (\<lambda>(d, written). written \<and> (case d of Some (_, _, port) \<Rightarrow> port < 2 ^ 16 | None \<Rightarrow> True)) items"
  shows "fst (udp_read_half from_slice b64_decode ip_parse (udp_writer to_vec b64_encode show_ip items) k) =
      filter (udp_fits to_vec b64_encode show_ip) (List.map_filter fst items)"
  using assms(5)
proof (induction items arbitrary: k)
  case (Cons it items)
  obtain d w where it: "it = (d, w)" by (cases it)
  show ?case
  proof (cases d)
    case None
    then show ?thesis using Cons it assms(2) by (auto simp: map_filter_simps)
  next
    case (Some cu)
    obtain c u where cu: "cu = (c, u)" by (cases cu)
    have port: "snd u < 2 ^ 16" using Cons.prems it Some cu by (cases u) simp
    obtain p where p: "de_udp_packet (ser_udp_out b64_encode show_ip c u) = Some p"
      "udp_content b64_decode p = Ok c" "remote_socket_addr ip_parse p = Some u"
      using client_packet_read_by_server [of b64_decode b64_encode c ip_parse show_ip u] assms(3,4) port by blast
    show ?thesis
    proof (cases "to_vec (ser_udp_out b64_encode show_ip c u)")
      case None
      then show ?thesis using Cons it Some cu by (simp add: map_filter_simps udp_fits_def)
    next
      case (Some b)
      then show ?thesis
        using Cons it \<open>d = Some cu\<close> cu p assms(1) [OF Some]
        by (auto simp: map_filter_simps udp_fits_def type_bytes Let_def split_beta)
    qed
  qed
qed (simp add: map_filter_simps)

text \<open>
  C40: a udp proxy carries datagrams both ways between this client and this server. What the
  local service answers is sent on, and the server hands exactly these datagrams, in order
  and each with its user, to its socket, keepalives skipped and those that do not fit a frame
  left out; what the server sends is read by the client as the same datagram for the same
  user. The JSON, base64 and address codecs are taken to read back what they wrote.
\<close>

theorem udp_relay_interop:
  assumes "\<And>j b. to_vec j = Some b \<Longrightarrow> from_slice b = Some j" "to_vec (ser_ping default_ping) \<noteq> None"
    and "\<And>c. b64_decode (b64_encode c) = Some c" "\<And>a. ip_parse (show_ip a) = Some a"
    and "list_all (\<lambda>(d, written). written \<and> (case d of Some (_, _, port) \<Rightarrow> port < 2 ^ 16 | None \<Rightarrow> True)) items"
    and "port < 2 ^ 16" "to_vec (ser_udp_packet (udp_from_content b64_encode show_ip content local (a, port))) = Some body"
  shows "fst (udp_read_half from_slice b64_decode ip_parse (udp_writer to_vec b64_encode show_ip items) k) =
      filter (udp_fits to_vec b64_encode show_ip) (List.map_filter fst items) \<and>
    udp_input from_slice b64_decode ip_parse (Ok (TYPE_UDP_PACKET, body)) = ForUser content (a, port)"
  using server_reads_client_datagrams [of to_vec from_slice b64_decode b64_encode ip_parse show_ip items k, OF assms(1-5)]
    server_packet_read_by_client [of b64_decode b64_encode content ip_parse show_ip "(a, port)" from_slice body local]
    assms(1,3,4,6,7) by simp

text \<open>A keepalive and a reply; the address codec is the identity on text.\<close>

definition ex_docs :: "json list" where
  "ex_docs = [ser_ping default_ping, ser_udp_out string_of id [65] (''1'', 53),
     ser_udp_packet (udp_from_content string_of id [66] None (''2'', 54))]"

definition ex_to_vec :: "json \<Rightarrow> bytes option" where
  "ex_to_vec j = (if j = ex_docs ! 0 then Some [0] else if j = ex_docs ! 1 then Some [1]
     else if j = ex_docs ! 2 then Some [2] else None)"

definition ex_from_slice :: "bytes \<Rightarrow> json option" where
  "ex_from_slice b = (if b = [0] then Some (ex_docs ! 0) else if b = [1] then Some (ex_docs ! 1)
     else if b = [2] then Some (ex_docs ! 2) else None)"

theorem udp_relay_interop_witness:
  "fst (udp_read_half ex_from_slice (\<lambda>s. Some (bytes_of s)) Some
     (udp_writer ex_to_vec string_of id [(None, True), (Some ([65], ''1'', 53), True)]) 0) = [([65], ''1'', 53)] \<and>
   udp_input ex_from_slice (\<lambda>s. Some (bytes_of s)) Some (Ok (TYPE_UDP_PACKET, [2])) = ForUser [66] (''2'', 54)"
proof -
  have fits: "udp_fits ex_to_vec string_of id ([65], ''1'', 53)"
    by (simp add: udp_fits_def ex_to_vec_def ex_docs_def MAX_MSG_LEN_def)
  have vec: "ex_to_vec (ser_ping default_ping) \<noteq> None"
    "ex_to_vec (ser_udp_packet (udp_from_content string_of id [66] None (''2'', 54))) = Some [2]"
    by (auto simp: ex_to_vec_def ex_docs_def ser_ping_def default_ping_def ser_udp_out_def ser_udp_packet_def
        udp_from_content_def addr_json_def ser_udp_addr_def ser_str_def ser_int_def ser_if_def string_of_def)
  have codec: "ex_to_vec j = Some b \<Longrightarrow> ex_from_slice b = Some j" for j b
    by (auto simp: ex_to_vec_def ex_from_slice_def split: if_splits)
  show ?thesis
    using udp_relay_interop [of ex_to_vec ex_from_slice "\<lambda>s. Some (bytes_of s)" string_of Some id
        "[(None, True), (Some ([65], ''1'', 53), True)]" 54 "[66]" None "''2''" "[2]" 0, OF codec vec(1) _ _ _ _ vec(2)]
      fits by (simp add: map_filter_simps)
qed

section \<open>Copying: properties\<close>

text \<open>The client's copy loop is the server's, counting twice.\<close>

lemma client_pump_mirrors:
  "client_pump evs c = (fst (pump evs (fst c)), snd (pump evs (fst c)), snd (pump evs (snd c)))"
proof (induction evs arbitrary: c)
  case (Cons ev evs)
  obtain r w where ev: "ev = (r, w)" by (cases ev)
  obtain own all where c: "c = (own, all)" by (cases c)
  show ?case
  proof (cases r)
    case (Some bs)
    then show ?thesis by (simp add: ev c Let_def split_beta Cons.IH)
  qed (simp add: ev c)
qed simp

text \<open>What is written is a prefix of what was read, and everything up to the first failed write
  when the input ends.\<close>

lemma client_pump_prefix: "\<exists>rest. concat (map (case_option [] id \<circ> fst) evs) = fst (client_pump evs c) @ rest"
proof (induction evs c rule: client_pump.induct)
  case (3 bs w evs own all)
  then show ?case by (cases "bs = []"; cases w) (auto simp: Let_def split_beta)
qed auto

text \<open>A tcp work connection counts what it read, for its proxy and for the client, and touches
  no other proxy.\<close>

lemma serve_tcp_counts:
  assumes "serve_tcp Works from_work from_local i s = (Ok (to_local, to_work), s')" "i < length (sh_store s)"
  shows "sh_bytes_in s' - sh_bytes_in s = pr_bytes_in (sh_store s' ! i) - pr_bytes_in (sh_store s ! i) \<and>
    sh_bytes_out s' - sh_bytes_out s = pr_bytes_out (sh_store s' ! i) - pr_bytes_out (sh_store s ! i) \<and>
    (j \<noteq> i \<longrightarrow> sh_store s' ! j = sh_store s ! j)"
proof -
  have shift: "snd (pump evs a) - a = snd (pump evs b) - b" for evs and a b :: u64
  proof (induction evs arbitrary: a b)
    case (Cons ev evs)
    obtain r w where ev: "ev = (r, w)" by (cases ev)
    show ?case
    proof (cases r)
      case (Some bs)
      have "snd (pump evs (a + n)) - (a + n) = snd (pump evs (b + n)) - (b + n)" for n by (rule Cons.IH)
      then have "snd (pump evs (a + n)) - a = snd (pump evs (b + n)) - b" for n
        by (metis (no_types, opaque_lifting) add_diff_cancel_left' diff_diff_eq diff_add_cancel)
      then show ?thesis by (simp add: ev Some split_beta)
    qed (simp add: ev)
  qed simp
  show ?thesis
    using assms by (auto simp: serve_tcp_def client_pump_mirrors Let_def shift)
qed

end
