(* ===== verification/Frpc_Session.thy ===== *)
theory Frpc_Session
  imports Frpc_Tunnel "HOL-Library.List_Lexorder" "HOL-Library.Char_ord"
begin

text \<open>
  A whole session of the frp client (\<open>run_session\<close> in \<open>remgr-frps/src/client.rs\<close>): connecting,
  the multiplexer, the login, the registrations, the control loop and the clean-up, put together
  from \<open>Frpc_Client\<close> and \<open>Frpc_Tunnel\<close>, and the supervisor that runs one session after the other.
\<close>

section \<open>Errors and their texts\<close>

datatype run_error =
    SetupFailed open_error
  | LoginNotSent
  | LoginTimeout
  | LoginRefused login_outcome
  | RegisterFailed string

text \<open>The text of an error as the supervisor sees it; \<open>detail\<close> is what the libraries contribute.\<close>

fun run_error_text :: "(run_error \<Rightarrow> string) \<Rightarrow> run_error \<Rightarrow> string" where
  "run_error_text detail (SetupFailed (DialFailed (ConnectTimeout target))) = ''timed out connecting to '' @ target"
| "run_error_text detail (SetupFailed (DialFailed (ConnectFailed target))) =
     ''connecting to '' @ target @ '': '' @ detail (SetupFailed (DialFailed (ConnectFailed target)))"
| "run_error_text detail (SetupFailed MuxTimeout) = ''timed out opening the control stream''"
| "run_error_text detail (SetupFailed e) = detail (SetupFailed e)"
| "run_error_text detail LoginNotSent = detail LoginNotSent"
| "run_error_text detail LoginTimeout = ''timed out waiting for LoginResp''"
| "run_error_text detail (LoginRefused (LoginError e)) = ''upstream rejected the login: '' @ e"
| "run_error_text detail (LoginRefused r) = detail (LoginRefused r)"
| "run_error_text detail (RegisterFailed name) =
     ''sending NewProxy for '' @ name @ '' failed: '' @ detail (RegisterFailed name)"

text \<open>Writing a control message: the payload's JSON under its type byte.\<close>

definition send_control :: "(json \<Rightarrow> bytes option) \<Rightarrow> message \<Rightarrow> msg_error + bytes" where
  "send_control to_vec m =
     (case to_vec (ser_message m) of None \<Rightarrow> Err BadJson | Some body \<Rightarrow> write_frame (type_byte m) body)"

section \<open>One session\<close>

text \<open>What a session meets: the outcomes of dialling and of opening the control stream, the host's
  description, the clocks, whether the login could be sent, the first frame (\<open>None\<close> when it does
  not come in time), which registrations can be sent, and the events of the control loop.\<close>

record 'cert session_world =
  sw_dial :: "'cert dial_env"
  sw_answer :: "mux_reply option option"
  sw_host :: "string \<times> string \<times> string"
  sw_time :: int
  sw_clock :: nat
  sw_login_sent :: bool
  sw_reply :: "(msg_error + u8 \<times> bytes) option"
  sw_sends_ok :: "nat \<Rightarrow> bool"
  sw_events :: "sess_event list"
  sw_stopped :: bool
  sw_detail :: "run_error \<Rightarrow> string"

text \<open>The tasks of a session: whether the driver of the multiplexer and the reader were spawned,
  whether the token they watch is cancelled, and whether the driver was waited for and the
  reader aborted.\<close>

record session_tasks =
  tk_driver :: bool
  tk_reader :: bool
  tk_cancelled :: bool
  tk_joined :: bool
  tk_aborted :: bool

definition no_tasks :: session_tasks where
  "no_tasks = \<lparr> tk_driver = False, tk_reader = False, tk_cancelled = False, tk_joined = False, tk_aborted = False \<rparr>"

text \<open>\<open>MuxSession::close\<close>: cancel, and wait for the driver.\<close>

definition mux_close :: "session_tasks \<Rightarrow> session_tasks" where
  "mux_close t = t\<lparr>tk_cancelled := True, tk_joined := True\<rparr>"

text \<open>The clean-up after the control loop.\<close>

definition session_cleanup :: "bool \<Rightarrow> session_tasks \<Rightarrow> client_shared \<Rightarrow> session_tasks \<times> client_shared" where
  "session_cleanup stopped t s =
     (let t1 = t\<lparr>tk_cancelled := True\<rparr>; t2 = (if tk_driver t1 then mux_close t1 else t1)
      in (t2\<lparr>tk_aborted := True\<rparr>, session_teardown stopped s))"

text \<open>After the login: register, loop, clean up. \<open>None\<close> is a session that still runs.\<close>

definition session_body ::
  "(bytes \<Rightarrow> bytes) \<Rightarrow> 'cert session_world \<Rightarrow> frpc_config \<Rightarrow> string \<Rightarrow> session_tasks \<Rightarrow> client_shared
     \<Rightarrow> session_end option \<times> session_tasks \<times> client_shared" where
  "session_body md5 w cfg run_id t s0 =
     (let s1 = note_login (sw_clock w) run_id s0; t1 = t\<lparr>tk_reader := True\<rparr> in
      case register_proxies (sw_sends_ok w) 0 (sw_clock w + PROXY_RESPONSE_TIMEOUT) (fc_proxies cfg)
             (session_new (sw_clock w) s1) s1 of
        (Some name, se, s2) \<Rightarrow> (Some (EndErr (run_error_text (sw_detail w) (RegisterFailed name))), t1, s2)
      | (None, se, s2) \<Rightarrow>
          (case sess_loop md5 cfg (sw_events w) se s2 of
             (None, se', s3) \<Rightarrow> (None, t1, s3)
           | (Some r, se', s3) \<Rightarrow> (Some r, session_cleanup (sw_stopped w) t1 s3)))"

definition session_login ::
  "(bytes \<Rightarrow> json option) \<Rightarrow> 'cert session_world \<Rightarrow> run_error + string" where
  "session_login from_slice w =
     (if \<not> sw_login_sent w then Err LoginNotSent
      else case sw_reply w of
        None \<Rightarrow> Err LoginTimeout
      | Some frame \<Rightarrow>
          (case read_login_resp from_slice frame of LoggedIn run_id \<Rightarrow> Ok run_id | r \<Rightarrow> Err (LoginRefused r)))"

text \<open>\<open>run_session_inner\<close>: with the login it sends, if it gets that far.\<close>

definition run_session_inner ::
  "(bytes \<Rightarrow> bytes) \<Rightarrow> (bytes \<Rightarrow> json option) \<Rightarrow> 'cert session_world \<Rightarrow> frpc_config \<Rightarrow> client_shared
     \<Rightarrow> login option \<times> session_end option \<times> session_tasks \<times> client_shared" where
  "run_session_inner md5 from_slice w cfg s =
     (let dialled = (case connect_upstream (sw_dial w) cfg of Inl _ \<Rightarrow> False | Inr _ \<Rightarrow> True);
          t = no_tasks\<lparr>tk_driver := (dialled \<and> fc_tcp_mux cfg)\<rparr>;
          fails = (\<lambda>e. Some (EndErr (run_error_text (sw_detail w) e)))
      in case session_control (sw_dial w) cfg (sw_answer w) of
           Inl e \<Rightarrow> (None, fails (SetupFailed e), t, s)
         | Inr _ \<Rightarrow>
             (Some (client_login md5 (sw_host w) (sw_time w) cfg (sh_last_run_id s)),
              case session_login from_slice w of
                Inl e \<Rightarrow> (fails e, t, s)
              | Inr run_id \<Rightarrow> session_body md5 w cfg run_id t s))"

text \<open>\<open>run_session\<close>: whatever way the session ended, its token is cancelled.\<close>

definition run_session ::
  "(bytes \<Rightarrow> bytes) \<Rightarrow> (bytes \<Rightarrow> json option) \<Rightarrow> 'cert session_world \<Rightarrow> frpc_config \<Rightarrow> client_shared
     \<Rightarrow> login option \<times> session_end option \<times> session_tasks \<times> client_shared" where
  "run_session md5 from_slice w cfg s =
     (case run_session_inner md5 from_slice w cfg s of
        (l, None, t, s') \<Rightarrow> (l, None, t, s')
      | (l, Some r, t, s') \<Rightarrow> (l, Some r, t\<lparr>tk_cancelled := True\<rparr>, s'))"

text \<open>A turn of the supervisor that runs such a session and is not cancelled.\<close>

definition session_turn ::
  "(bytes \<Rightarrow> bytes) \<Rightarrow> (bytes \<Rightarrow> json option) \<Rightarrow> (frpc_error \<Rightarrow> string) \<Rightarrow> nat \<Rightarrow> 'cert session_world \<Rightarrow> sup_turn" where
  "session_turn md5 from_slice render elapsed w =
     \<lparr> st_cancelled = False,
       st_run = (\<lambda>cfg s. case run_session md5 from_slice w cfg s of (_, r, _, s') \<Rightarrow> (r, s')),
       st_elapsed = elapsed, st_cancelled_after = False, st_cancelled_waiting = False, st_render = render \<rparr>"

section \<open>Lemmas\<close>

lemma send_control_is_write_msg: "send_control to_vec m = write_msg to_vec (ser_message m) (type_byte m)"
  by (simp add: send_control_def write_msg_def)

text \<open>What the steps of a session leave alone.\<close>

definition kept :: "client_shared \<Rightarrow> string \<times> u64 \<times> frpc_config \<times> bool" where
  "kept s = (sh_last_run_id s, sh_total_logins s, sh_cfg s, sh_connected s)"

lemma set_runtime_kept [simp]: "kept (set_runtime i st a e s) = kept s"
  by (simp add: kept_def set_runtime_def)

lemma mark_idle_kept [simp]: "kept (mark_all_proxies_idle s) = kept s"
proof -
  have "kept (foldl (\<lambda>s i. set_runtime i ''idle'' None [] s) s is) = kept s" for "is"
    by (induction "is" arbitrary: s) auto
  then show ?thesis by (simp add: mark_all_proxies_idle_def)
qed

lemma register_proxies_kept:
  "register_proxies ok i d ps se s = (r, se', s') \<Longrightarrow> kept s' = kept s"
proof (induction ps arbitrary: i se s)
  case (Cons p ps)
  then show ?case by (auto simp: Let_def split: if_splits option.splits)
qed simp

lemma fail_fold_kept:
  "kept (foldl (\<lambda>s (nm, _). case map_of m nm of Some k \<Rightarrow> set_runtime k st a e s | None \<Rightarrow> s) s ps) = kept s"
  by (induction ps arbitrary: s) (auto split: option.splits)

lemma sess_step_kept: "sess_step md5 cfg ev se s = (r, se', s') \<Longrightarrow> kept s' = kept s"
  by (cases ev)
    (auto simp: sess_step_def Let_def answer_proxy_def request_work_def fail_pending_def fail_fold_kept
      split: message.splits if_splits option.splits; simp add: kept_def)+

lemma sess_loop_kept: "sess_loop md5 cfg evs se s = (r, se', s') \<Longrightarrow> kept s' = kept s"
proof (induction evs arbitrary: se s)
  case (Cons ev evs)
  obtain q se1 s1 where step: "sess_step md5 cfg ev se s = (q, se1, s1)" by (metis prod_cases3)
  then show ?case
    using Cons sess_step_kept [OF step] by (cases q) auto
qed simp

text \<open>An event that ends the control loop ends it wherever it comes in the sequence.\<close>

lemma sess_loop_ends:
  "SClosed \<in> set evs \<or> SConfigChanged \<in> set evs \<or> SCancelled \<in> set evs \<Longrightarrow>
     \<exists>r se' s'. sess_loop md5 cfg evs se s = (Some r, se', s')"
proof (induction evs arbitrary: se s)
  case (Cons ev evs)
  obtain q se1 s1 where step: "sess_step md5 cfg ev se s = (q, se1, s1)" by (metis prod_cases3)
  show ?case
  proof (cases q)
    case None
    then have "ev \<noteq> SClosed \<and> ev \<noteq> SConfigChanged \<and> ev \<noteq> SCancelled" using step by (auto simp: sess_step_def)
    then show ?thesis using Cons.IH Cons.prems step None by auto
  qed (use step in simp)
qed simp

section \<open>What a session leaves behind\<close>

text \<open>The run id a session is given, if it gets one.\<close>

definition session_run_id :: "(bytes \<Rightarrow> json option) \<Rightarrow> frpc_config \<Rightarrow> 'cert session_world \<Rightarrow> string option" where
  "session_run_id from_slice cfg w =
     (case session_control (sw_dial w) cfg (sw_answer w) of
        Inl _ \<Rightarrow> None
      | Inr _ \<Rightarrow> (case session_login from_slice w of Inl _ \<Rightarrow> None | Inr run_id \<Rightarrow> Some run_id))"

definition next_run_id :: "(bytes \<Rightarrow> json option) \<Rightarrow> frpc_config \<Rightarrow> string \<Rightarrow> 'cert session_world \<Rightarrow> string" where
  "next_run_id from_slice cfg rid w =
     (case session_run_id from_slice cfg w of Some r \<Rightarrow> if r = [] then rid else r | None \<Rightarrow> rid)"

lemma session_body_effect:
  assumes "session_body md5 w cfg run_id t s = (r, t', s')"
  shows "sh_cfg s' = sh_cfg s \<and> sh_total_logins s' = sh_total_logins s + 1 \<and>
    sh_last_run_id s' = (if run_id = [] then sh_last_run_id s else run_id)"
proof -
  define s1 where "s1 = note_login (sw_clock w) run_id s"
  obtain q se s2 where reg: "register_proxies (sw_sends_ok w) 0 (sw_clock w + PROXY_RESPONSE_TIMEOUT) (fc_proxies cfg)
      (session_new (sw_clock w) s1) s1 = (q, se, s2)" by (metis prod_cases3)
  obtain q' se' s3 where loop: "sess_loop md5 cfg (sw_events w) se s2 = (q', se', s3)" by (metis prod_cases3)
  have k: "kept s2 = kept s1" "kept s3 = kept s1"
    using register_proxies_kept [OF reg] sess_loop_kept [OF loop] by simp_all
  have "s' = s2 \<or> s' = s3 \<or> s' = session_teardown (sw_stopped w) s3"
    using assms reg loop
    by (auto simp: session_body_def session_cleanup_def Let_def s1_def split: option.splits)
  then show ?thesis
    using k by (auto simp: kept_def session_teardown_def set_connected_def s1_def note_login_def)
qed

lemma session_body_ends:
  assumes "SClosed \<in> set (sw_events w) \<or> SConfigChanged \<in> set (sw_events w) \<or> SCancelled \<in> set (sw_events w)"
  shows "\<exists>r t' s'. session_body md5 w cfg run_id t s = (Some r, t', s')"
proof -
  define s1 where "s1 = note_login (sw_clock w) run_id s"
  obtain q se s2 where reg: "register_proxies (sw_sends_ok w) 0 (sw_clock w + PROXY_RESPONSE_TIMEOUT) (fc_proxies cfg)
      (session_new (sw_clock w) s1) s1 = (q, se, s2)" by (metis prod_cases3)
  obtain r se' s3 where "sess_loop md5 cfg (sw_events w) se s2 = (Some r, se', s3)"
    using sess_loop_ends [OF assms] by metis
  then show ?thesis using reg by (cases q) (simp_all add: session_body_def Let_def s1_def session_cleanup_def)
qed

lemma run_session_effect:
  assumes "SClosed \<in> set (sw_events w) \<or> SConfigChanged \<in> set (sw_events w) \<or> SCancelled \<in> set (sw_events w)"
  obtains l r t s' where "run_session md5 from_slice w cfg s = (l, Some r, t, s')" "tk_cancelled t"
    "sh_cfg s' = sh_cfg s" "sh_last_run_id s' = next_run_id from_slice cfg (sh_last_run_id s) w"
    "sh_total_logins s' = sh_total_logins s + (if session_run_id from_slice cfg w = None then 0 else 1)"
    "l \<noteq> None \<Longrightarrow> lg_run_id (the l) = sh_last_run_id s"
proof (cases "session_control (sw_dial w) cfg (sw_answer w)")
  case (Inl e)
  then show ?thesis
    by (intro that) (auto simp: run_session_def run_session_inner_def Let_def next_run_id_def session_run_id_def)
next
  case control: (Inr c)
  have id: "lg_run_id (client_login md5 (sw_host w) (sw_time w) cfg rid) = rid" for rid
    by (simp add: client_login_def split_beta)
  show ?thesis
  proof (cases "session_login from_slice w")
    case (Inl e)
    then show ?thesis using control id
      by (intro that) (auto simp: run_session_def run_session_inner_def Let_def next_run_id_def session_run_id_def)
  next
    case (Inr run_id)
    define t where "t = no_tasks\<lparr>tk_driver := ((case connect_upstream (sw_dial w) cfg of Inl _ \<Rightarrow> False | Inr _ \<Rightarrow> True) \<and> fc_tcp_mux cfg)\<rparr>"
    obtain r t' s' where b: "session_body md5 w cfg run_id t s = (Some r, t', s')"
      using session_body_ends [OF assms] by metis
    show ?thesis
      using session_body_effect [OF b] control Inr id b
      by (intro that [of "Some (client_login md5 (sw_host w) (sw_time w) cfg (sh_last_run_id s))" r "t'\<lparr>tk_cancelled := True\<rparr>" s'])
        (simp_all add: run_session_def run_session_inner_def Let_def t_def [symmetric] next_run_id_def session_run_id_def)
  qed
qed

text \<open>A session that reached its control loop has waited for the driver of its multiplexer and
  aborted its reader.\<close>

lemma loop_waits_for_driver:
  assumes "session_body md5 w cfg run_id t s = (Some r, t', s')"
    and "fst (register_proxies (sw_sends_ok w) 0 (sw_clock w + PROXY_RESPONSE_TIMEOUT) (fc_proxies cfg)
      (session_new (sw_clock w) (note_login (sw_clock w) run_id s)) (note_login (sw_clock w) run_id s)) = None"
  shows "tk_cancelled t' \<and> tk_aborted t' \<and> (tk_driver t' \<longrightarrow> tk_joined t')"
  using assms
  by (auto simp: session_body_def Let_def session_cleanup_def mux_close_def split: prod.splits option.splits)

section \<open>The supervisor over whole sessions\<close>

lemma session_turn_step:
  assumes "frpc_validate (sh_cfg s) = Ok ()"
    and "SClosed \<in> set (sw_events w) \<or> SConfigChanged \<in> set (sw_events w) \<or> SCancelled \<in> set (sw_events w)"
  obtains b' s' ws where "sup_step (session_turn md5 from_slice render el w) b s = ((Supervising b', s'), ws)"
    "sh_cfg s' = sh_cfg s" "sh_last_run_id s' = next_run_id from_slice (sh_cfg s) (sh_last_run_id s) w"
    "sh_total_logins s' = sh_total_logins s + (if session_run_id from_slice (sh_cfg s) w = None then 0 else 1)"
    "\<not> sh_connected s'" "sh_session_started s' = None"
proof -
  let ?s = "set_connected 0 False [] (mark_all_proxies_idle s)"
  have idle: "sh_cfg ?s = sh_cfg s" "sh_last_run_id ?s = sh_last_run_id s" "sh_total_logins ?s = sh_total_logins s"
    using mark_idle_kept [of s] by (simp_all add: set_connected_def kept_def)
  obtain l r t s' where run: "run_session md5 from_slice w (sh_cfg s) ?s = (l, Some r, t, s')"
    and eff: "sh_cfg s' = sh_cfg s" "sh_last_run_id s' = next_run_id from_slice (sh_cfg s) (sh_last_run_id s) w"
      "sh_total_logins s' = sh_total_logins s + (if session_run_id from_slice (sh_cfg s) w = None then 0 else 1)"
    using run_session_effect [OF assms(2), of md5 from_slice "sh_cfg s" ?s] idle by metis
  show ?thesis
  proof (cases r)
    case EndOk
    then show ?thesis using assms(1) run eff
      by (intro that [of INITIAL_BACKOFF "set_connected 0 False [] s'" "[]"])
        (simp_all add: sup_step_def session_turn_def set_connected_def Let_def)
  next
    case (EndErr msg)
    then show ?thesis using assms(1) run eff
      by (intro that [of "next_backoff b el msg" "set_error msg (set_connected 0 False [] s')" "[next_backoff b el msg]"])
        (simp_all add: sup_step_def session_turn_def set_connected_def set_error_def Let_def)
  qed
qed

text \<open>
  C23: the client never gives up and always comes back as itself: with a valid configuration,
  whatever happens to its sessions one after the other (the upstream cannot be reached, the
  control stream does not open, the login is refused, a registration cannot be sent, the
  connection is lost), the supervisor goes on, waiting between one and thirty seconds; the
  client then reports no connection, has counted exactly the successful logins, and the login
  of the next session carries the run id the upstream gave last.
\<close>

theorem client_keeps_reconnecting:
  fixes ws :: "(nat \<times> 'cert session_world) list"
  assumes "frpc_validate (sh_cfg s) = Ok ()" "1 \<le> b" "b \<le> 30"
    and "list_all (\<lambda>(_, w). SClosed \<in> set (sw_events w) \<or> SConfigChanged \<in> set (sw_events w)) ws"
  shows "\<exists>b' s' waits. supervise (map (\<lambda>(el, w). session_turn md5 from_slice render el w) ws) b s = ((Supervising b', s'), waits) \<and>
    list_all (\<lambda>w. 1 \<le> w \<and> w \<le> 30) waits \<and> (ws \<noteq> [] \<longrightarrow> \<not> sh_connected s' \<and> sh_session_started s' = None) \<and>
    sh_total_logins s' = sh_total_logins s + of_nat (length (filter (\<lambda>(_, w). session_run_id from_slice (sh_cfg s) w \<noteq> None) ws)) \<and>
    (\<forall>w l r t s''. run_session md5 from_slice (w :: 'cert session_world) (sh_cfg s') s' = (Some l, r, t, s'') \<longrightarrow>
       lg_run_id l = foldl (\<lambda>rid (_, w). next_run_id from_slice (sh_cfg s) rid w) (sh_last_run_id s) ws)"
proof -
  let ?turns = "\<lambda>ws. map (\<lambda>(el, w). session_turn md5 from_slice render el w) ws :: sup_turn list"
  have all: "\<exists>b' s' waits. supervise (?turns ws) b s = ((Supervising b', s'), waits) \<and> sh_cfg s' = sh_cfg s \<and>
    (ws \<noteq> [] \<longrightarrow> \<not> sh_connected s' \<and> sh_session_started s' = None) \<and>
    sh_total_logins s' = sh_total_logins s + of_nat (length (filter (\<lambda>(_, w). session_run_id from_slice (sh_cfg s) w \<noteq> None) ws)) \<and>
    sh_last_run_id s' = foldl (\<lambda>rid (_, w). next_run_id from_slice (sh_cfg s) rid w) (sh_last_run_id s) ws"
    using assms(1,4)
  proof (induction ws arbitrary: b s)
    case (Cons x ws)
    obtain el w where x: "x = (el, w)" by force
    obtain b1 s1 w1 where step: "sup_step (session_turn md5 from_slice render el w) b s = ((Supervising b1, s1), w1)"
      and s1: "sh_cfg s1 = sh_cfg s" "sh_last_run_id s1 = next_run_id from_slice (sh_cfg s) (sh_last_run_id s) w"
        "sh_total_logins s1 = sh_total_logins s + (if session_run_id from_slice (sh_cfg s) w = None then 0 else 1)"
        "\<not> sh_connected s1" "sh_session_started s1 = None"
      using session_turn_step [of s w md5 from_slice render el b] Cons.prems x by auto
    obtain b' s' waits where "supervise (?turns ws) b1 s1 = ((Supervising b', s'), waits)"
      "sh_cfg s' = sh_cfg s1" "ws \<noteq> [] \<longrightarrow> \<not> sh_connected s' \<and> sh_session_started s' = None"
      "sh_total_logins s' = sh_total_logins s1 + of_nat (length (filter (\<lambda>(_, w). session_run_id from_slice (sh_cfg s1) w \<noteq> None) ws))"
      "sh_last_run_id s' = foldl (\<lambda>rid (_, w). next_run_id from_slice (sh_cfg s1) rid w) (sh_last_run_id s1) ws"
      using Cons.IH [of s1 b1] Cons.prems s1(1) by auto
    then show ?case using step s1 x by (cases "ws = []") auto
  qed simp
  then obtain b' s' waits where sup: "supervise (?turns ws) b s = ((Supervising b', s'), waits)"
    and rest: "ws \<noteq> [] \<longrightarrow> \<not> sh_connected s' \<and> sh_session_started s' = None"
      "sh_total_logins s' = sh_total_logins s + of_nat (length (filter (\<lambda>(_, w). session_run_id from_slice (sh_cfg s) w \<noteq> None) ws))"
      "sh_last_run_id s' = foldl (\<lambda>rid (_, w). next_run_id from_slice (sh_cfg s) rid w) (sh_last_run_id s) ws"
    by blast
  moreover have "lg_run_id l = sh_last_run_id s'" if "run_session md5 from_slice (w :: 'cert session_world) (sh_cfg s') s' = (Some l, r, t, s'')"
    for w l r t s''
    using that
    by (auto simp: run_session_def run_session_inner_def client_login_def split_beta Let_def
        split: sum.splits option.splits)
  ultimately show ?thesis using backoff_bounded [OF sup assms(2,3)] by auto
qed

definition ex_dial :: "attempt \<Rightarrow> string dial_env" where
  "ex_dial a = \<lparr> dl_connect = (\<lambda>_. a), dl_marker = True, dl_read_pem = (\<lambda>_. None), dl_certs = (\<lambda>_. []),
     dl_name_ok = (\<lambda>_. True), dl_handshake = (\<lambda>_ _. Works) \<rparr>"

definition ex_world :: "attempt \<Rightarrow> string session_world" where
  "ex_world a = \<lparr> sw_dial = ex_dial a, sw_answer = Some (Some (StreamOpened 1)), sw_host = ([], [], []), sw_time = 100, sw_clock = 5,
     sw_login_sent = True, sw_reply = Some (Ok (TYPE_LOGIN_RESP, [2])), sw_sends_ok = (\<lambda>_. True), sw_events = [SClosed],
     sw_stopped = False, sw_detail = (\<lambda>_. ''refused'') \<rparr>"

definition ex_reply :: "bytes \<Rightarrow> json option" where
  "ex_reply b = Some (ser_login_resp \<lparr> lr_version = ''0.51.3'', lr_run_id = ''r1'', lr_error = [] \<rparr>)"

lemma ex_world_run_ids:
  "session_run_id ex_reply ex_frpc (ex_world Fails) = None" "session_run_id ex_reply ex_frpc (ex_world Works) = Some ''r1''"
proof -
  have dr: "de_login_resp (ser_login_resp q) = Some q" for q by (simp add: de_ser_defs serde_simps)
  show "session_run_id ex_reply ex_frpc (ex_world Fails) = None"
    by (simp add: session_run_id_def session_control_def connect_upstream_def ex_world_def ex_dial_def)
  have "\<not> fc_tls ex_frpc" "fc_tcp_mux ex_frpc" by (simp_all add: ex_frpc_def default_frpc_config_def frpc_defaults)
  then show "session_run_id ex_reply ex_frpc (ex_world Works) = Some ''r1''"
    by (simp add: session_run_id_def session_control_def connect_upstream_def ex_world_def ex_dial_def mux_open_def
        session_login_def read_login_resp_def ex_reply_def dr)
qed

theorem client_keeps_reconnecting_witness:
  "\<exists>b' s' waits. supervise (map (\<lambda>(el, w). session_turn id ex_reply (\<lambda>_. []) el w) [(2, ex_world Fails), (9, ex_world Works)])
      INITIAL_BACKOFF (Frpc_Client.shared_new ex_frpc) = ((Supervising b', s'), waits) \<and> \<not> sh_connected s' \<and> sh_total_logins s' = 1 \<and>
    (\<forall>w l r t s''. run_session id ex_reply (w :: string session_world) (sh_cfg s') s' = (Some l, r, t, s'') \<longrightarrow> lg_run_id l = ''r1'')"
proof -
  have cfg: "sh_cfg (Frpc_Client.shared_new ex_frpc) = ex_frpc" "sh_total_logins (Frpc_Client.shared_new ex_frpc) = 0"
    by (simp_all add: Frpc_Client.shared_new_def rebuild_proxies_def split_beta)
  have "frpc_validate ex_frpc = Ok ()" by code_simp
  then show ?thesis
    using client_keeps_reconnecting [of "Frpc_Client.shared_new ex_frpc" INITIAL_BACKOFF "[(2, ex_world Fails), (9, ex_world Works)]" id ex_reply "\<lambda>_. []"]
    by (auto simp: cfg client_consts ex_world_run_ids next_run_id_def) (auto simp: ex_world_def)
qed

section \<open>The order of the status\<close>

text \<open>The comparison of names is the library's order of strings, and the status lists the proxies
  as the library's stable sort by name does.\<close>

lemma name_le_iff: "name_le a b \<longleftrightarrow> a \<le> b"
  by (induction a b rule: name_le.induct) (auto simp: less_char_def)

lemma insert_status_mset: "mset (insert_status p ps) = add_mset p (mset ps)"
  by (induction ps) auto

lemma insert_status_sorted: "sorted (map ps_name ps) \<Longrightarrow> sorted (map ps_name (insert_status p ps))"
proof (induction ps)
  case (Cons q ps)
  have "set (insert_status p ps) = insert p (set ps)"
    using insert_status_mset [of p ps] by (metis set_mset_add_mset_insert set_mset_mset)
  then show ?case using Cons by (auto simp: name_le_iff)
qed simp

lemma insert_status_filter:
  "sorted (map ps_name ps) \<Longrightarrow>
     filter (\<lambda>x. k = ps_name x) (insert_status p ps) = filter (\<lambda>x. k = ps_name x) (ps @ [p])"
proof (induction ps)
  case (Cons q ps)
  have "filter (\<lambda>x. ps_name p = ps_name x) (q # ps) = []" if "\<not> ps_name q \<le> ps_name p"
    using that Cons.prems by (auto simp: filter_empty_conv)
  then show ?case using Cons by (auto simp: name_le_iff)
qed simp

lemma status_proxies_sorted:
  "fs_proxies (client_status now c) =
     sort_key ps_name (map (\<lambda>(_, i). runtime_snapshot (sh_store (cl_shared c) ! i)) (sh_proxies (cl_shared c)))"
proof -
  define ins where "ins xs = foldl (\<lambda>ps p. insert_status p ps) [] xs" for xs :: "proxy_status list"
  have ins: "mset (ins xs) = mset xs \<and> sorted (map ps_name (ins xs)) \<and>
      (\<forall>k. filter (\<lambda>x. k = ps_name x) (ins xs) = filter (\<lambda>x. k = ps_name x) xs)" for xs
  proof (induction xs rule: rev_induct)
    case (snoc x xs)
    have "ins (xs @ [x]) = insert_status x (ins xs)" by (simp add: ins_def)
    then show ?case using snoc insert_status_filter [of "ins xs"] by (simp add: insert_status_mset insert_status_sorted)
  qed (simp add: ins_def)
  have "sort_key ps_name xs = ins xs" for xs using ins by (intro properties_for_sort_key) simp_all
  moreover have "fs_proxies (client_status now c) =
      ins (map (\<lambda>(_, i). runtime_snapshot (sh_store (cl_shared c) ! i)) (sh_proxies (cl_shared c)))"
    by (simp add: client_status_def Let_def ins_def foldl_map split_beta case_prod_beta')
  ultimately show ?thesis by simp
qed

text \<open>Any error text with the word token in it counts as a refused token, the operator's own
  names included: a proxy or an upstream of such a name makes a plain connection error hold
  the longest wait.\<close>

lemma names_taken_for_auth_failure:
  "is_auth_failure (run_error_text (\<lambda>_. ''broken pipe'') (RegisterFailed ''token-service''))"
  "is_auth_failure (run_error_text (\<lambda>_. ''refused'') (SetupFailed (DialFailed (ConnectFailed ''tokens.example:7000''))))"
  by code_simp+

end
