(* ===== verification/Probe.thy ===== *)
theory Probe
  imports Frpc_Session
begin

text \<open>
  The development tool \<open>remgr-frps/examples/frpc_probe.rs\<close>, which drives the frp client against a
  server: its command line, the configuration it builds, its echo services and round trips, the
  run itself, and the scenario and verdict of its self test.
\<close>

section \<open>The command line\<close>

record probe_args =
  pa_upstream :: string
  pa_token :: string
  pa_tls :: bool
  pa_tls_ca :: "string option"
  pa_server_name :: string
  pa_tcp_mux :: bool
  pa_pool :: nat
  pa_timeout :: nat
  pa_proxies :: "string list"
  pa_echoes :: "nat list"
  pa_udp_echoes :: "nat list"
  pa_fetches :: "nat list"
  pa_udp_fetches :: "nat list"
  pa_run_secs :: "nat option"
  pa_self_test :: bool
  pa_quiet :: bool

definition default_args :: probe_args where
  "default_args = \<lparr> pa_upstream = ''127.0.0.1:7000'', pa_token = [], pa_tls = False, pa_tls_ca = None, pa_server_name = [],
     pa_tcp_mux = True, pa_pool = 5, pa_timeout = 10, pa_proxies = [], pa_echoes = [], pa_udp_echoes = [], pa_fetches = [],
     pa_udp_fetches = [], pa_run_secs = None, pa_self_test = False, pa_quiet = False \<rparr>"

datatype probe_error =
    NeedsValue string
  | NotANumber string
  | UnknownArgument string
  | UpstreamNeedsPort
  | BadProxyLine nat string line_error
  | EchoBind nat
  | ClientStart frpc_error
  | SelfTestIo
  | SelfTestFailed nat

definition needs_value :: "string \<Rightarrow> bool" where
  "needs_value arg \<longleftrightarrow> arg \<in> set [''--upstream'', ''--token'', ''--tls-ca'', ''--server-name'', ''--pool'', ''--timeout'', ''--proxy'',
     ''--echo'', ''--udp-echo'', ''--fetch'', ''--udp-fetch'', ''--run'']"

definition number :: "nat \<Rightarrow> string \<Rightarrow> probe_error + nat" where
  "number w v = (case parse_unsigned w v of Some n \<Rightarrow> Ok n | None \<Rightarrow> Err (NotANumber v))"

definition set_value :: "string \<Rightarrow> string \<Rightarrow> probe_args \<Rightarrow> probe_error + probe_args" where
  "set_value arg v a =
     (if arg = ''--upstream'' then Ok (a\<lparr>pa_upstream := v\<rparr>)
      else if arg = ''--token'' then Ok (a\<lparr>pa_token := v\<rparr>)
      else if arg = ''--tls-ca'' then Ok (a\<lparr>pa_tls := True, pa_tls_ca := Some v\<rparr>)
      else if arg = ''--server-name'' then Ok (a\<lparr>pa_server_name := v\<rparr>)
      else if arg = ''--pool'' then bind_result (number 32 v) (\<lambda>n. Ok (a\<lparr>pa_pool := n\<rparr>))
      else if arg = ''--timeout'' then bind_result (number 64 v) (\<lambda>n. Ok (a\<lparr>pa_timeout := n\<rparr>))
      else if arg = ''--proxy'' then Ok (a\<lparr>pa_proxies := pa_proxies a @ [v]\<rparr>)
      else if arg = ''--echo'' then bind_result (number 16 v) (\<lambda>n. Ok (a\<lparr>pa_echoes := pa_echoes a @ [n]\<rparr>))
      else if arg = ''--udp-echo'' then bind_result (number 16 v) (\<lambda>n. Ok (a\<lparr>pa_udp_echoes := pa_udp_echoes a @ [n]\<rparr>))
      else if arg = ''--fetch'' then bind_result (number 16 v) (\<lambda>n. Ok (a\<lparr>pa_fetches := pa_fetches a @ [n]\<rparr>))
      else if arg = ''--udp-fetch'' then bind_result (number 16 v) (\<lambda>n. Ok (a\<lparr>pa_udp_fetches := pa_udp_fetches a @ [n]\<rparr>))
      else bind_result (number 64 v) (\<lambda>n. Ok (a\<lparr>pa_run_secs := Some n\<rparr>)))"

text \<open>\<open>None\<close> is a request for help, which prints the text and exits.\<close>

fun parse_args :: "string list \<Rightarrow> probe_args \<Rightarrow> probe_error + probe_args option" where
  "parse_args [] a = Ok (Some a)"
| "parse_args (arg # rest) a =
     (if needs_value arg then
        (case rest of
           [] \<Rightarrow> Err (NeedsValue arg)
         | v # rest' \<Rightarrow> (case set_value arg v a of Inl e \<Rightarrow> Err e | Inr a' \<Rightarrow> parse_args rest' a'))
      else if arg = ''--tls'' then parse_args rest (a\<lparr>pa_tls := True\<rparr>)
      else if arg = ''--no-mux'' then parse_args rest (a\<lparr>pa_tcp_mux := False\<rparr>)
      else if arg = ''--self-test'' then parse_args rest (a\<lparr>pa_self_test := True\<rparr>)
      else if arg = ''--quiet'' then parse_args rest (a\<lparr>pa_quiet := True\<rparr>)
      else if arg = ''--help'' \<or> arg = ''-h'' then Ok None
      else Err (UnknownArgument arg))"

fun parse_proxies :: "nat \<Rightarrow> string list \<Rightarrow> probe_error + frpc_proxy_config list" where
  "parse_proxies i [] = Ok []"
| "parse_proxies i (line # rest) =
     (case parse_line line of
        Inl e \<Rightarrow> Err (BadProxyLine (i + 1) line e)
      | Inr p \<Rightarrow> bind_result (parse_proxies (i + 1) rest) (\<lambda>ps. Ok (p # ps)))"

definition config_from :: "probe_args \<Rightarrow> probe_error + frpc_config" where
  "config_from a =
     (case rsplit_once CHR '':'' (pa_upstream a) of
        None \<Rightarrow> Err UpstreamNeedsPort
      | Some (host, port) \<Rightarrow>
          bind_result (parse_proxies 0 (pa_proxies a)) (\<lambda>proxies.
          bind_result (number 16 port) (\<lambda>p.
            Ok \<lparr> fc_enabled = True, fc_server_addr = host, fc_server_port = p, fc_token = pa_token a, fc_tls = pa_tls a,
                 fc_trusted_ca_file = pa_tls_ca a, fc_server_name = pa_server_name a, fc_tcp_mux = pa_tcp_mux a,
                 fc_connect_timeout = pa_timeout a, fc_pool_count = pa_pool a, fc_proxies = proxies \<rparr>)))"

section \<open>Echo services and round trips\<close>

text \<open>One tcp connection of the echo service: what each read gives (\<open>None\<close> is the end or an
  error) and whether the answer can be written.\<close>

fun tcp_echo :: "string \<Rightarrow> (string option \<times> bool) list \<Rightarrow> string" where
  "tcp_echo peer [] = []"
| "tcp_echo peer ((None, _) # rs) = []"
| "tcp_echo peer ((Some buf, written) # rs) =
     (if buf = [] then []
      else if written then ''echo('' @ peer @ ''): '' @ buf @ tcp_echo peer rs
      else [])"

text \<open>Datagrams in and out of the udp service; an answer that cannot be sent is dropped.\<close>

fun udp_echo :: "((string \<times> string) option \<times> bool) list \<Rightarrow> (string \<times> string) list" where
  "udp_echo [] = []"
| "udp_echo ((None, _) # ds) = []"
| "udp_echo ((Some (peer, buf), sent) # ds) = (if sent then [(peer, ''echo: '' @ buf)] else []) @ udp_echo ds"

datatype fetch_result = Fetched string | FetchConnect attempt | FetchWrite | FetchReply attempt

definition fetch_tcp :: "(string \<times> nat \<Rightarrow> attempt) \<Rightarrow> bool \<Rightarrow> attempt \<times> string \<Rightarrow> nat \<Rightarrow> fetch_result" where
  "fetch_tcp connect written reply port =
     (if connect (''127.0.0.1'', port) \<noteq> Works then FetchConnect (connect (''127.0.0.1'', port))
      else if \<not> written then FetchWrite
      else if fst reply \<noteq> Works then FetchReply (fst reply)
      else Fetched (take 4096 (snd reply)))"

definition fetch_udp :: "(string \<times> nat \<Rightarrow> attempt) \<Rightarrow> bool \<Rightarrow> bool \<Rightarrow> attempt \<times> string \<Rightarrow> nat \<Rightarrow> fetch_result" where
  "fetch_udp connect bound sent reply port =
     (if \<not> bound then FetchConnect Fails
      else if connect (''127.0.0.1'', port) \<noteq> Works then FetchConnect (connect (''127.0.0.1'', port))
      else if \<not> sent then FetchWrite
      else if fst reply \<noteq> Works then FetchReply (fst reply)
      else Fetched (take 4096 (snd reply)))"

section \<open>The run\<close>

text \<open>What a probe run does to the client, with the time each status is taken at: the services it
  starts first, the configuration, the client, and the statuses printed (one after the round
  trips, one every five seconds, one after the stop).\<close>

fun echo_services :: "(nat \<Rightarrow> bool) \<Rightarrow> nat list \<Rightarrow> probe_error + unit" where
  "echo_services binds [] = Ok ()"
| "echo_services binds (p # ps) = (if binds p then echo_services binds ps else Err (EchoBind p))"

text \<open>The number of statuses of a run of so many seconds, the clock advancing by five seconds each
  time at least.\<close>

fun status_rounds :: "nat list \<Rightarrow> nat \<Rightarrow> nat \<Rightarrow> nat option" where
  "status_rounds [] now deadline = (if now < deadline then None else Some 0)"
| "status_rounds (slack # sl) now deadline =
     (if now < deadline then map_option Suc (status_rounds sl (now + 5 + slack) deadline) else Some 0)"

definition probe_start ::
  "(nat \<Rightarrow> bool) \<Rightarrow> (nat \<Rightarrow> bool) \<Rightarrow> probe_args \<Rightarrow> probe_error + frpc_client" where
  "probe_start tcp_binds udp_binds a =
     bind_result (echo_services tcp_binds (pa_echoes a)) (\<lambda>_.
     bind_result (echo_services udp_binds (pa_udp_echoes a)) (\<lambda>_.
     bind_result (config_from a) (\<lambda>cfg.
       case client_start (client_new cfg) of
         (Inl e, _) \<Rightarrow> Err (ClientStart e)
       | (Inr _, c) \<Rightarrow> Ok c)))"

text \<open>The whole run: a failed round trip is only reported, and the client is stopped at the end.\<close>

definition run_probe ::
  "(nat \<Rightarrow> bool) \<Rightarrow> (nat \<Rightarrow> bool) \<Rightarrow> (nat \<Rightarrow> fetch_result) \<Rightarrow> (nat \<Rightarrow> fetch_result) \<Rightarrow> (frpc_client \<Rightarrow> frpc_client) \<Rightarrow>
     probe_args \<Rightarrow> probe_error + (nat \<times> fetch_result) list \<times> frpc_client" where
  "run_probe tcp_binds udp_binds tcp udp meanwhile a =
     bind_result (probe_start tcp_binds udp_binds a) (\<lambda>c.
       Ok (map (\<lambda>p. (p, tcp p)) (pa_fetches a) @ map (\<lambda>p. (p, udp p)) (pa_udp_fetches a), client_stop (meanwhile c)))"

section \<open>The self test\<close>

definition self_test_server :: frps_config where
  "self_test_server = default_frps_config\<lparr>server_port := 7001, token := ''probetoken''\<rparr>"

definition echo_proxy :: "string \<Rightarrow> string \<Rightarrow> nat \<Rightarrow> nat \<Rightarrow> frpc_proxy_config" where
  "echo_proxy name ty local_port remote_port = \<lparr> pc_name = name, pc_type = ty, pc_local_ip = ''127.0.0.1'',
     pc_local_port = local_port, pc_remote_port = remote_port \<rparr>"

definition self_test_config :: frpc_config where
  "self_test_config = \<lparr> fc_enabled = True, fc_server_addr = ''127.0.0.1'', fc_server_port = 7001, fc_token = ''probetoken'',
     fc_tls = False, fc_trusted_ca_file = None, fc_server_name = [], fc_tcp_mux = True, fc_connect_timeout = 10,
     fc_pool_count = 3, fc_proxies = [echo_proxy ''echo-tcp'' ''tcp'' 18080 17080, echo_proxy ''echo-udp'' ''udp'' 18081 17081] \<rparr>"

definition self_test_update :: "frpc_config \<Rightarrow> frpc_config" where
  "self_test_update cfg = cfg\<lparr>fc_proxies := fc_proxies cfg @ [echo_proxy ''echo-tcp2'' ''tcp'' 18080 17082]\<rparr>"

definition running_named :: "string \<Rightarrow> frpc_status \<Rightarrow> bool" where
  "running_named nm st = list_ex (\<lambda>p. ps_name p = nm \<and> ps_state p = ''running'') (fs_proxies st)"

definition all_running :: "frpc_status \<Rightarrow> bool" where
  "all_running st = list_all (\<lambda>p. ps_state p = ''running'') (fs_proxies st)"

text \<open>What the self test observes: the replies to its payloads (\<open>None\<close>: an error or none in time),
  the status afterwards, the one after the update, the reply through the new proxy, and the
  status after the restart. The test counts the failed checks; a tcp round trip without a reply
  ends it at once.\<close>

record self_test_run =
  sr_tcp :: "string option list"
  sr_udp :: "string option list"
  sr_totals :: frpc_status
  sr_updated :: frpc_status
  sr_new_reply :: "string option"
  sr_restarted :: frpc_status

definition payload :: "string \<Rightarrow> nat \<Rightarrow> string" where
  "payload kind i = kind @ ''-payload-'' @ dec_string i @ [CHR 0x0A]"

definition count_failed :: "bool list \<Rightarrow> nat" where
  "count_failed oks = length (filter Not oks)"

definition replied :: "string \<Rightarrow> string option \<Rightarrow> bool" where
  "replied p reply = (case reply of Some t \<Rightarrow> str_contains p t | None \<Rightarrow> False)"

definition update_adopted :: "frpc_status \<Rightarrow> bool" where
  "update_adopted st \<longleftrightarrow> running_named ''echo-tcp2'' st \<and> running_named ''echo-tcp'' st"

definition self_test_checks :: "self_test_run \<Rightarrow> bool list" where
  "self_test_checks r =
     map (\<lambda>(i, reply). replied (payload ''tcp'' i) reply) (enumerate 0 (sr_tcp r)) @
     map (\<lambda>(i, reply). replied (payload ''udp'' i) reply) (enumerate 0 (sr_udp r)) @
     [\<not> (fs_bytes_in (sr_totals r) = 0 \<or> fs_bytes_out (sr_totals r) = 0),
      update_adopted (sr_updated r) \<and> replied ''after-update'' (sr_new_reply r),
      fs_connected (sr_restarted r) \<and> fs_running (sr_restarted r) \<and> all_running (sr_restarted r)]"

definition self_test_verdict :: "self_test_run \<Rightarrow> probe_error + unit" where
  "self_test_verdict r =
     (if None \<in> set (sr_tcp r) \<or> update_adopted (sr_updated r) \<and> sr_new_reply r = None then Err SelfTestIo
      else
        (let failures = count_failed (self_test_checks r) in if failures = 0 then Ok () else Err (SelfTestFailed failures)))"

section \<open>Properties\<close>

text \<open>A command line for given arguments.\<close>

definition flag :: "bool \<Rightarrow> string \<Rightarrow> string list" where
  "flag b name = (if b then [name] else [])"

definition valued :: "string \<Rightarrow> string list \<Rightarrow> string list" where
  "valued name vs = concat (map (\<lambda>v. [name, v]) vs)"

definition command_line :: "probe_args \<Rightarrow> string list" where
  "command_line a =
     [''--upstream'', pa_upstream a, ''--token'', pa_token a] @ flag (pa_tls a) ''--tls'' @
     (case pa_tls_ca a of Some f \<Rightarrow> [''--tls-ca'', f] | None \<Rightarrow> []) @ [''--server-name'', pa_server_name a] @
     flag (\<not> pa_tcp_mux a) ''--no-mux'' @ [''--pool'', dec_string (pa_pool a), ''--timeout'', dec_string (pa_timeout a)] @
     valued ''--proxy'' (pa_proxies a) @ valued ''--echo'' (map dec_string (pa_echoes a)) @
     valued ''--udp-echo'' (map dec_string (pa_udp_echoes a)) @ valued ''--fetch'' (map dec_string (pa_fetches a)) @
     valued ''--udp-fetch'' (map dec_string (pa_udp_fetches a)) @
     (case pa_run_secs a of Some n \<Rightarrow> [''--run'', dec_string n] | None \<Rightarrow> []) @
     flag (pa_self_test a) ''--self-test'' @ flag (pa_quiet a) ''--quiet''"

definition wf_args :: "probe_args \<Rightarrow> bool" where
  "wf_args a \<longleftrightarrow> (pa_tls_ca a \<noteq> None \<longrightarrow> pa_tls a) \<and> pa_pool a < 2 ^ 32 \<and> pa_timeout a < 2 ^ 64 \<and>
     list_all (\<lambda>p. p < 2 ^ 16) (pa_echoes a @ pa_udp_echoes a @ pa_fetches a @ pa_udp_fetches a) \<and>
     (case pa_run_secs a of Some n \<Rightarrow> n < 2 ^ 64 | None \<Rightarrow> True)"

lemma parse_flag:
  "parse_args (flag b ''--tls'' @ rest) a = parse_args rest (if b then a\<lparr>pa_tls := True\<rparr> else a)"
  "parse_args (flag b ''--no-mux'' @ rest) a = parse_args rest (if b then a\<lparr>pa_tcp_mux := False\<rparr> else a)"
  "parse_args (flag b ''--self-test'' @ rest) a = parse_args rest (if b then a\<lparr>pa_self_test := True\<rparr> else a)"
  "parse_args (flag b ''--quiet'' @ rest) a = parse_args rest (if b then a\<lparr>pa_quiet := True\<rparr> else a)"
  by (simp_all add: flag_def needs_value_def)

lemma parse_value:
  "parse_args (''--upstream'' # v # rest) a = parse_args rest (a\<lparr>pa_upstream := v\<rparr>)"
  "parse_args (''--token'' # v # rest) a = parse_args rest (a\<lparr>pa_token := v\<rparr>)"
  "parse_args (''--tls-ca'' # v # rest) a = parse_args rest (a\<lparr>pa_tls := True, pa_tls_ca := Some v\<rparr>)"
  "parse_args (''--server-name'' # v # rest) a = parse_args rest (a\<lparr>pa_server_name := v\<rparr>)"
  "n < 2 ^ 32 \<Longrightarrow> parse_args (''--pool'' # dec_string n # rest) a = parse_args rest (a\<lparr>pa_pool := n\<rparr>)"
  "n < 2 ^ 64 \<Longrightarrow> parse_args (''--timeout'' # dec_string n # rest) a = parse_args rest (a\<lparr>pa_timeout := n\<rparr>)"
  "n < 2 ^ 64 \<Longrightarrow> parse_args (''--run'' # dec_string n # rest) a = parse_args rest (a\<lparr>pa_run_secs := Some n\<rparr>)"
  by (simp_all add: needs_value_def set_value_def number_def)

lemma parse_values_step:
  "parse_args (''--proxy'' # v # rest) a = parse_args rest (a\<lparr>pa_proxies := pa_proxies a @ [v]\<rparr>)"
  "n < 2 ^ 16 \<Longrightarrow> parse_args (''--echo'' # dec_string n # rest) a = parse_args rest (a\<lparr>pa_echoes := pa_echoes a @ [n]\<rparr>)"
  "n < 2 ^ 16 \<Longrightarrow> parse_args (''--udp-echo'' # dec_string n # rest) a = parse_args rest (a\<lparr>pa_udp_echoes := pa_udp_echoes a @ [n]\<rparr>)"
  "n < 2 ^ 16 \<Longrightarrow> parse_args (''--fetch'' # dec_string n # rest) a = parse_args rest (a\<lparr>pa_fetches := pa_fetches a @ [n]\<rparr>)"
  "n < 2 ^ 16 \<Longrightarrow> parse_args (''--udp-fetch'' # dec_string n # rest) a = parse_args rest (a\<lparr>pa_udp_fetches := pa_udp_fetches a @ [n]\<rparr>)"
  by (simp_all add: needs_value_def set_value_def number_def)

lemma parse_values:
  "parse_args (valued ''--proxy'' vs @ rest) a = parse_args rest (a\<lparr>pa_proxies := pa_proxies a @ vs\<rparr>)"
  "list_all (\<lambda>p. p < 2 ^ 16) ns \<Longrightarrow>
     parse_args (valued ''--echo'' (map dec_string ns) @ rest) a = parse_args rest (a\<lparr>pa_echoes := pa_echoes a @ ns\<rparr>)"
  "list_all (\<lambda>p. p < 2 ^ 16) ns \<Longrightarrow>
     parse_args (valued ''--udp-echo'' (map dec_string ns) @ rest) a = parse_args rest (a\<lparr>pa_udp_echoes := pa_udp_echoes a @ ns\<rparr>)"
  "list_all (\<lambda>p. p < 2 ^ 16) ns \<Longrightarrow>
     parse_args (valued ''--fetch'' (map dec_string ns) @ rest) a = parse_args rest (a\<lparr>pa_fetches := pa_fetches a @ ns\<rparr>)"
  "list_all (\<lambda>p. p < 2 ^ 16) ns \<Longrightarrow>
     parse_args (valued ''--udp-fetch'' (map dec_string ns) @ rest) a = parse_args rest (a\<lparr>pa_udp_fetches := pa_udp_fetches a @ ns\<rparr>)"
proof -
  show "parse_args (valued ''--proxy'' vs @ rest) a = parse_args rest (a\<lparr>pa_proxies := pa_proxies a @ vs\<rparr>)"
    by (induction vs arbitrary: a) (simp_all add: valued_def parse_values_step del: parse_args.simps)
qed (induction ns arbitrary: a; simp add: valued_def parse_values_step del: parse_args.simps)+

text \<open>Every well-formed set of arguments can be given on the command line.\<close>

lemma command_line_parses:
  assumes "wf_args a"
  shows "parse_args (command_line a) default_args = Ok (Some a)"
proof -
  have run: "parse_args (command_line a) default_args = Ok (Some b)"
    if "b = \<lparr> pa_upstream = pa_upstream a, pa_token = pa_token a, pa_tls = pa_tls a, pa_tls_ca = pa_tls_ca a,
      pa_server_name = pa_server_name a, pa_tcp_mux = pa_tcp_mux a, pa_pool = pa_pool a, pa_timeout = pa_timeout a,
      pa_proxies = pa_proxies a, pa_echoes = pa_echoes a, pa_udp_echoes = pa_udp_echoes a, pa_fetches = pa_fetches a,
      pa_udp_fetches = pa_udp_fetches a, pa_run_secs = pa_run_secs a, pa_self_test = pa_self_test a, pa_quiet = pa_quiet a \<rparr>" for b
    using assms that parse_flag(4) [of "pa_quiet a" "[]"]
    by (cases "pa_tls_ca a"; cases "pa_run_secs a")
      (simp_all add: command_line_def wf_args_def parse_flag parse_value parse_values default_args_def del: parse_args.simps(2))
  show ?thesis using run [OF refl] by simp
qed

text \<open>A run of so many seconds prints a status for each five seconds begun and ends.\<close>

lemma status_rounds_end:
  "deadline \<le> now + 5 * length slack \<Longrightarrow> \<exists>k. status_rounds slack now deadline = Some k \<and> k \<le> (deadline - now + 4) div 5"
proof (induction slack arbitrary: now)
  case (Cons d slack)
  show ?case
  proof (cases "now < deadline")
    case True
    obtain k where "status_rounds slack (now + 5 + d) deadline = Some k" "k \<le> (deadline - (now + 5 + d) + 4) div 5"
      using Cons.IH [of "now + 5 + d"] Cons.prems by auto
    moreover have "Suc ((deadline - (now + 5 + d) + 4) div 5) \<le> (deadline - now + 4) div 5"
    proof -
      obtain e where e: "deadline = now + Suc e" using True less_iff_Suc_add by auto
      have "Suc ((e - (4 + d) + 4) div 5) = (e - (4 + d) + 4 + 5) div 5" by simp
      also have "\<dots> \<le> (e + 5) div 5"
      proof (cases "e \<ge> 4 + d")
        case True
        then show ?thesis by (intro div_le_mono) simp
      next
        case False
        then show ?thesis by simp
      qed
      finally show ?thesis by (simp add: e)
    qed
    ultimately show ?thesis using True by (intro exI [of _ "Suc k"]) simp
  qed simp
qed simp

text \<open>The scenario of the self test is one its two halves accept: the client's configuration is
  valid before and after the update, it has the server's token and port, the server allows all
  remote ports, and the update leaves the proxies that were there with their entries.\<close>

lemma self_test_scenario:
  "frpc_validate self_test_config = Ok () \<and> frpc_validate (self_test_update self_test_config) = Ok ()"
  "fc_token self_test_config = token self_test_server \<and> fc_server_port self_test_config = server_port self_test_server"
  "list_all (\<lambda>p. port_allowed self_test_server (pc_remote_port p)) (fc_proxies (self_test_update self_test_config))"
proof -
  show "frpc_validate self_test_config = Ok () \<and> frpc_validate (self_test_update self_test_config) = Ok ()"
    by (simp add: frpc_validate_def check_proxy_def self_test_config_def self_test_update_def echo_proxy_def MAX_POOL_COUNT_def
        trim_def trim_start_def trim_end_def is_ws_def)
  show "fc_token self_test_config = token self_test_server \<and> fc_server_port self_test_config = server_port self_test_server"
    by (simp add: self_test_config_def self_test_server_def)
  show "list_all (\<lambda>p. port_allowed self_test_server (pc_remote_port p)) (fc_proxies (self_test_update self_test_config))"
    by (simp add: self_test_config_def self_test_update_def self_test_server_def port_allowed_def default_frps_config_def list_all_iff)
qed

lemma self_test_update_keeps_entries:
  assumes "reg_inv (sh_proxies s) (sh_store s)" "sh_cfg s = self_test_config"
    and "map_of (sh_proxies s) ''echo-tcp'' = Some j" "pr_cfg (sh_store s ! j) = echo_proxy ''echo-tcp'' ''tcp'' 18080 17080"
    and "s' = update_config (self_test_update self_test_config) s"
  shows "map_of (sh_proxies s') ''echo-tcp'' = Some j \<and> sh_store s' ! j = sh_store s ! j \<and> sh_cfg_gen s' = sh_cfg_gen s + 1"
proof -
  let ?cfg = "self_test_update self_test_config"
  have ne: "self_test_config \<noteq> ?cfg" by (simp add: self_test_config_def self_test_update_def)
  have dist: "distinct (map pc_name (fc_proxies ?cfg))"
    by (simp add: self_test_config_def self_test_update_def echo_proxy_def)
  have "echo_proxy ''echo-tcp'' ''tcp'' 18080 17080 \<in> set (fc_proxies ?cfg)" "pc_name (echo_proxy ''echo-tcp'' ''tcp'' 18080 17080) = ''echo-tcp''"
    by (simp_all add: self_test_config_def self_test_update_def echo_proxy_def)
  then show ?thesis
    using rebuild_keeps_counters [OF assms(1) dist refl] assms(2-5) ne
    by (auto simp: update_config_def list_all_iff dest!: bspec)
qed

text \<open>The self test passes exactly when none of its checks failed.\<close>

lemma self_test_verdict_ok: "self_test_verdict r = Ok () \<longleftrightarrow> list_all id (self_test_checks r)"
proof -
  have "None \<notin> set (sr_tcp r)" if "list_all id (self_test_checks r)"
  proof
    assume "None \<in> set (sr_tcp r)"
    then obtain i where "i < length (sr_tcp r)" "sr_tcp r ! i = None" by (auto simp: in_set_conv_nth)
    then have "(i, None) \<in> set (enumerate 0 (sr_tcp r))" by (simp add: in_set_enumerate_eq)
    moreover have "\<forall>x \<in> set (enumerate 0 (sr_tcp r)). (\<lambda>(i, reply). replied (payload ''tcp'' i) reply) x"
      using that unfolding self_test_checks_def list_all_append by (simp add: list_all_iff)
    ultimately show False by (auto simp: replied_def dest!: bspec)
  qed
  moreover have "\<not> (update_adopted (sr_updated r) \<and> sr_new_reply r = None)" if "list_all id (self_test_checks r)"
    using that by (cases "sr_new_reply r") (simp_all add: self_test_checks_def replied_def)
  moreover have "count_failed oks = 0 \<longleftrightarrow> list_all id oks" for oks
    by (induction oks) (simp_all add: count_failed_def)
  ultimately show ?thesis by (auto simp: self_test_verdict_def Let_def)
qed

text \<open>Without arguments the probe starts a client of the local server.\<close>

lemma probe_start_default:
  "\<exists>c. probe_start (\<lambda>_. True) (\<lambda>_. True) default_args = Ok c \<and> is_running c \<and>
     fc_server_addr (sh_cfg (cl_shared c)) = ''127.0.0.1'' \<and> fc_server_port (sh_cfg (cl_shared c)) = 7000"
proof -
  have split: "rsplit_once CHR '':'' ''127.0.0.1:7000'' = Some (''127.0.0.1'', ''7000'')" by code_simp
  have port: "number 16 ''7000'' = Ok 7000"
    by (simp add: number_def parse_unsigned_def is_digit_def dec_value_def digit_val_def)
  define cfg where "cfg = \<lparr> fc_enabled = True, fc_server_addr = ''127.0.0.1'', fc_server_port = 7000, fc_token = [], fc_tls = False,
    fc_trusted_ca_file = None, fc_server_name = [], fc_tcp_mux = True, fc_connect_timeout = 10, fc_pool_count = 5, fc_proxies = [] \<rparr>"
  have cf: "config_from default_args = Ok cfg"
    by (simp add: config_from_def default_args_def split port cfg_def)
  have none: "pa_echoes default_args = []" "pa_udp_echoes default_args = []" by (simp_all add: default_args_def)
  have ok: "frpc_validate cfg = Ok ()"
    by (simp add: frpc_validate_def cfg_def MAX_POOL_COUNT_def trim_def trim_start_def trim_end_def is_ws_def)
  have "kept (mark_all_proxies_idle s) = kept s" for s by simp
  then have idle: "sh_cfg (mark_all_proxies_idle s) = sh_cfg s" for s by (simp add: kept_def)
  have running: "sh_running (mark_all_proxies_idle s) = sh_running s" for s
  proof -
    have "sh_running (foldl (\<lambda>s i. set_runtime i ''idle'' None [] s) s is) = sh_running s" for "is"
      by (induction "is" arbitrary: s) (auto simp: set_runtime_def)
    then show ?thesis by (simp add: mark_all_proxies_idle_def)
  qed
  have new: "sh_cfg (Frpc_Client.shared_new cfg) = cfg" by (simp add: Frpc_Client.shared_new_def rebuild_proxies_def split_beta)
  show ?thesis
    using ok none by (simp add: probe_start_def cf client_start_def client_new_def new is_running_def running idle Let_def)
      (simp add: cfg_def)
qed

text \<open>A run that gets to its client ends with the client stopped, whatever happened meanwhile.\<close>

lemma run_probe_stops:
  "run_probe tb ub tcp udp meanwhile a = Ok (fetched, c) \<Longrightarrow> \<not> is_running c \<and> cl_run c = None"
  by (auto simp: run_probe_def bind_result_ok_iff client_stop_def is_running_def Let_def)

text \<open>The round trips go to the local host whatever upstream was given.\<close>

lemma fetch_ignores_upstream:
  "connect (''127.0.0.1'', port) = Fails \<Longrightarrow> fetch_tcp connect w r port = FetchConnect Fails"
  by (simp add: fetch_tcp_def)

end
