(* ===== verification/Frp_Session.thy ===== *)
theory Frp_Session
  imports Frps_Control Frpc_Tunnel
begin

text \<open>
  The frp client (\<open>remgr-frps/src/client.rs\<close>) against the frp server of the same repository
  (\<open>remgr-frps/src/server.rs\<close>): the first byte, the login, the pool of work connections and the
  work connections themselves.
\<close>

section \<open>The first byte\<close>

text \<open>What the client sends first is what the server looks for: the marker for TLS, and a plain
  login, or the version byte of a multiplexed session, for everything else.\<close>

lemma first_byte_agrees:
  "(connect_upstream dl cfg = Ok (TlsConn pre trust nm) \<longrightarrow> map sniff pre = [TlsAfterMarker] \<and> fc_tls cfg) \<and>
   (connect_upstream dl cfg = Ok PlainConn \<longrightarrow> sniff TYPE_LOGIN = PlainReplay TYPE_LOGIN \<and> sniff 0 = PlainReplay 0 \<and> \<not> fc_tls cfg)"
  by (auto simp: connect_upstream_def Let_def sniff_def type_bytes split: attempt.splits if_splits sum.splits)

section \<open>A session\<close>

lemma send_n_fresh:
  assumes "i < length (s_heap s)" "\<not> is_cancelled s i"
  shows "s_controls ((send i m ^^ n) s) = s_controls s \<and> s_cfg ((send i m ^^ n) s) = s_cfg s \<and>
    length (s_heap ((send i m ^^ n) s)) = length (s_heap s) \<and>
    ctl ((send i m ^^ n) s) i = (ctl s i)\<lparr>c_out := c_out (ctl s i) @ replicate n m\<rparr> \<and> \<not> is_cancelled ((send i m ^^ n) s) i"
proof (induction n)
  case (Suc n)
  then show ?case using assms
    by (simp add: send_def ctl_upd_control replicate_append_same [symmetric]) (simp add: is_cancelled_def ctl_upd_control)
qed (use assms in simp)

lemma login_finish_effect:
  assumes "login_finish now l run s = (i, s')" "\<not> s_stopped s"
  shows "map_of (s_controls s') run = Some i \<and> s_cfg s' = s_cfg s \<and>
    c_out (ctl s' i) = replicate (clamp_pool (lg_pool_count l) (max_pool_count (s_cfg s))) MReqWorkConn \<and>
    c_enforce_idle (ctl s' i) = client_sends_heartbeats (lg_version l)"
proof -
  define s1 where "s1 = s\<lparr>s_clients_online := s_clients_online s + 1, s_heap := s_heap s @ [new_control now l run],
     s_controls := AList.update run (length (s_heap s)) (s_controls s)\<rparr>"
  have new: "ctl s1 (length (s_heap s)) = new_control now l run" by (simp add: s1_def ctl_def)
  have "i = length (s_heap s)" "s' = (send i MReqWorkConn ^^ clamp_pool (lg_pool_count l) (max_pool_count (s_cfg s))) s1"
    using assms(1) by (auto simp: login_finish_def Let_def s1_def)
  moreover have "length (s_heap s) < length (s_heap s1)" "\<not> is_cancelled s1 (length (s_heap s))"
    using assms(2) by (simp_all add: s1_def is_cancelled_def ctl_def new_control_def)
  moreover have "map_of (s_controls s1) run = Some (length (s_heap s))" "s_cfg s1 = s_cfg s"
    by (simp_all add: s1_def update_conv')
  ultimately show ?thesis
    using send_n_fresh [of "length (s_heap s)" s1] by (simp add: new new_control_def)
qed

lemma frpc_no_heartbeats: "\<not> client_sends_heartbeats FRPC_VERSION"
proof -
  have "FRPC_VERSION = dec_string 0 @ ''.'' @ dec_string 71 @ ''.'' @ dec_string 0" by code_simp
  then show ?thesis using heartbeats_by_version [of 0 71 0] by simp
qed

text \<open>
  C37: this client and this server understand each other. A client with the server's token is
  logged in under a run id, which the server's map leads back to the control of this very
  connection; the client is not subject to the heartbeat monitor; it is asked for the work
  connections it offered, at most as many as the server allows; and a work connection it opens
  with that run id is delivered to that control. A client whose key does not match is told so,
  in words its supervisor takes as an authentication failure, and changes nothing.
\<close>

theorem client_meets_server:
  assumes "server_inv s" "\<not> s_stopped s" "i64 ts" "i64 ts'" "fc_pool_count cfg < 2 ^ 32"
    and l: "l = client_login (e_md5 e) who ts cfg rid" "run = (if rid = [] then uuid else rid)"
    and "e_from_slice e lbody = Some (ser_message (MLogin l))"
    and lb: "login_begin e uuid (TYPE_LOGIN, lbody) s = (r, s1, Some resp)"
    and "from_slice rbody = Some (ser_message (MLoginResp resp))"
    and lf: "login_finish now l run s1 = (i, s2)"
    and "e_from_slice e wbody = Some (ser_message (MNewWorkConn (client_work_conn (e_md5 e) ts' cfg run)))"
  shows "if auth_key (e_md5 e) (fc_token cfg) ts = auth_key (e_md5 e) (token (s_cfg s)) ts
    then read_login_resp from_slice (Ok (TYPE_LOGIN_RESP, rbody)) = LoggedIn run \<and> r = Ok (l, run) \<and>
      map_of (s_controls s2) run = Some i \<and> \<not> c_enforce_idle (ctl s2 i) \<and>
      c_out (ctl s2 i) = replicate (min (fc_pool_count cfg) (max_pool_count (s_cfg s))) MReqWorkConn \<and>
      (fc_token cfg = token (s_cfg s) \<longrightarrow> work_conn_target e (TYPE_NEW_WORK_CONN, wbody) s2 = Ok i)
    else read_login_resp from_slice (Ok (TYPE_LOGIN_RESP, rbody)) = LoginError ''authentication failed'' \<and>
      is_auth_failure ''authentication failed'' \<and> s1 = s"
proof -
  obtain hn os arch where who: "who = (hn, os, arch)" by (cases who)
  have fields: "lg_privilege_key l = auth_key (e_md5 e) (fc_token cfg) ts" "lg_timestamp l = ts" "lg_run_id l = rid"
    "lg_version l = FRPC_VERSION" "lg_pool_count l = int (fc_pool_count cfg)"
    by (simp_all add: l who client_login_def)
  have "wf_message (MLogin l)"
    using assms(3,5) by (simp add: fields i64_def) (simp add: l who client_login_def map_ok_def)
  then have dl: "Option.bind (e_from_slice e lbody) de_login = Some l" using assms(8) by (simp add: de_login_ser)
  have dr: "de_login_resp (ser_login_resp q) = Some q" for q
    by (simp add: de_ser_defs serde_simps)
  show ?thesis
  proof (cases "auth_key (e_md5 e) (fc_token cfg) ts = auth_key (e_md5 e) (token (s_cfg s)) ts")
    case True
    then have ok: "r = Ok (l, run)" "lr_error resp = []" "lr_run_id resp = run"
      using lb dl by (auto simp: login_begin_def auth_ok_iff fields Let_def l(2))
    have cfg1: "s_cfg s1 = s_cfg s" "\<not> s_stopped s1"
      using lb dl True assms(2) controls_in_heap [OF assms(1)]
      by (auto simp: login_begin_def auth_ok_iff fields Let_def teardown_effect split: option.splits
          dest!: map_of_SomeD)
    note eff = login_finish_effect [OF lf cfg1(2)]
    have wc: "de_new_work_conn (ser_new_work_conn (client_work_conn (e_md5 e) ts' cfg run)) =
        Some (client_work_conn (e_md5 e) ts' cfg run)"
      using assms(4) by (simp add: de_ser_defs serde_simps client_work_conn_def)
    have "work_conn_target e (TYPE_NEW_WORK_CONN, wbody) s2 = Ok i" if "fc_token cfg = token (s_cfg s)"
      using assms(12) wc eff that cfg1 by (simp add: work_conn_target_def client_work_conn_def auth_ok_iff)
    then show ?thesis
      using True ok eff cfg1 frpc_no_heartbeats assms(10) dr
      by (auto simp: read_login_resp_def fields clamp_pool_def)
  next
    case False
    then have "resp = \<lparr> lr_version = [], lr_run_id = [], lr_error = ''authentication failed'' \<rparr>" "s1 = s"
      using lb dl by (auto simp: login_begin_def auth_ok_iff fields Let_def)
    moreover have "is_auth_failure ''authentication failed''" by code_simp
    ultimately show ?thesis using False assms(10) dr by (simp add: read_login_resp_def)
  qed
qed

definition ex_meet_login :: login where
  "ex_meet_login = client_login (take 2) ([], [], []) 100 ex_frpc []"

definition ex_meet_env :: env where
  "ex_meet_env = ex_env\<lparr>e_from_slice := (\<lambda>b.
     if b = [1] then Some (ser_message (MLogin ex_meet_login))
     else if b = [3] then Some (ser_message (MNewWorkConn (client_work_conn (take 2) 200 ex_frpc ''u'')))
     else None)\<rparr>"

definition ex_meet_server :: server where
  "ex_meet_server = Frps_Server.shared_new (default_frps_config\<lparr>token := fc_token ex_frpc\<rparr>)"

definition ex_meet_resp :: login_resp where
  "ex_meet_resp = \<lparr> lr_version = ''0.51.3'', lr_run_id = ''u'', lr_error = [] \<rparr>"

theorem client_meets_server_witness:
  "read_login_resp (\<lambda>b. Some (ser_message (MLoginResp ex_meet_resp))) (Ok (TYPE_LOGIN_RESP, [2])) = LoggedIn ''u'' \<and>
   (case login_begin ex_meet_env ''u'' (TYPE_LOGIN, [1]) ex_meet_server of (_, s1, _) \<Rightarrow>
      case login_finish 5 ex_meet_login ''u'' s1 of (i, s2) \<Rightarrow>
        work_conn_target ex_meet_env (TYPE_NEW_WORK_CONN, [3]) s2 = Ok i)"
proof -
  have md5: "e_md5 ex_meet_env = take 2" by (simp add: ex_meet_env_def ex_env_def)
  have l: "ex_meet_login = client_login (e_md5 ex_meet_env) ([], [], []) 100 ex_frpc []"
    by (simp add: ex_meet_login_def md5)
  have "wf_message (MLogin ex_meet_login)"
    by (simp add: ex_meet_login_def client_login_def i64_def map_ok_def ex_frpc_def default_frpc_config_def frpc_defaults)
  then have dl: "Option.bind (e_from_slice ex_meet_env [1]) de_login = Some ex_meet_login"
    by (simp add: ex_meet_env_def de_login_ser)
  have tok: "token (s_cfg ex_meet_server) = fc_token ex_frpc"
    by (simp add: ex_meet_server_def Frps_Server.shared_new_def)
  obtain r s1 where lb: "login_begin ex_meet_env ''u'' (TYPE_LOGIN, [1]) ex_meet_server = (r, s1, Some ex_meet_resp)"
    using dl by (simp add: login_begin_def auth_ok_iff tok ex_meet_resp_def Let_def) (simp add: ex_meet_login_def client_login_def md5 Let_def)
  obtain i s2 where lf: "login_finish 5 ex_meet_login ''u'' s1 = (i, s2)" by (cases "login_finish 5 ex_meet_login ''u'' s1")
  have "server_inv ex_meet_server" "\<not> s_stopped ex_meet_server"
    by (simp_all add: ex_meet_server_def shared_new_inv) (simp add: Frps_Server.shared_new_def)
  moreover have "i64 100" "i64 200" "fc_pool_count ex_frpc < 2 ^ 32" by (simp_all add: i64_def ex_frpc_def default_frpc_config_def frpc_defaults)
  ultimately show ?thesis
    using client_meets_server [of ex_meet_server 100 200 ex_frpc ex_meet_login ex_meet_env "([], [], [])" "[]" "''u''" "''u''"
        "[1]" r s1 ex_meet_resp "\<lambda>b. Some (ser_message (MLoginResp ex_meet_resp))" "[2]" 5 i s2 "[3]", OF _ _ _ _ _ l _ _ lb _ lf]
    by (simp add: tok lb lf md5) (simp add: ex_meet_env_def)
qed

end
