(* ===== verification/Spec2Isabelle.thy ===== *)
theory Spec2Isabelle
  imports Boot Crypto Frps_Conn Signal_Tasks Acct Turn_Tls Log_Output Probe Rustdesk Easytier Modules Console_Inv Frp_Session
begin

text \<open>
  \<^bold>\<open>ReMgr: a verification development.\<close>

  ReMgr is one process that runs five network services (an EasyTier center, a STUN/TURN server,
  a RustDesk relay, an frp server and an frp client) and a web console that configures, starts
  and stops them. The repository has two crates of its own: \<open>remgr-frps\<close>, which implements both
  ends of the frp protocol, and \<open>remgr\<close>, the manager. This development models both, one theory
  per component, from the Rust sources. The third-party code under \<open>third_party/\<close> is not
  modelled.

  \<^bold>\<open>The parts and how they interact.\<close> The main program (\<open>main.rs\<close>, theory \<open>Boot\<close>) loads the
  configuration file (\<open>config.rs\<close>, \<open>RemgrConfig\<close>), installs the first password and certificate
  (\<open>certs.rs\<close>, \<open>Certs\<close>), enters the sandbox (\<open>secure.rs\<close>, \<open>Secure\<close>), builds the application
  state (\<open>state.rs\<close>, record \<open>app_state\<close> of \<open>Modules\<close>), starts the enabled modules and serves the
  console (\<open>console/mod.rs\<close>, \<open>Console_Session\<close>, \<open>Console_Status\<close> and \<open>Console\<close>) until a signal
  arrives (\<open>signals.rs\<close>, \<open>Signals\<close> and \<open>Signal_Tasks\<close>), when it logs the tail of the accounting file (\<open>acct.rs\<close>, \<open>Acct\<close>) and
  stops the modules. The console changes the configuration through \<open>edit_config\<close> and the modules
  through the module interface (\<open>modules/mod.rs\<close>); each module reads the configuration when it
  starts. Log output goes through the log hub (\<open>logging.rs\<close>, \<open>Logging\<close>), which the console
  reads, and to standard output (\<open>Log_Output\<close>). The frp client and the frp server share the message codec (\<open>msg.rs\<close>, \<open>Msg\<close>) and the
  control-channel cipher (\<open>crypto.rs\<close>, \<open>Crypto\<close>) and meet on the wire (\<open>Frp_Session\<close>).

  \<^bold>\<open>Theories, sources, and what the definitions are.\<close>

  \<^item> \<open>Prelude\<close>: machine words, results as sums (\<open>Ok\<close>, \<open>Err\<close>), byte and decimal codecs, the
    string functions of the Rust library that the sources use, and the locales \<open>frame_codec\<close>,
    \<open>step_invariant\<close> and \<open>safe_system\<close>.
  \<^item> \<open>Serde\<close>: structured values and the meaning of the serde attributes; \<open>Net\<close>: parsing and
    printing of IP and socket addresses as the standard library does it.
  \<^item> \<open>FrpsConfig\<close> (\<open>remgr-frps/src/config.rs\<close>): the server's settings, their wire form, the
    allow list of remote ports.
  \<^item> \<open>Msg\<close> (\<open>msg.rs\<close>): one record per message, serialisation, framing, the authentication key,
    datagrams.
  \<^item> \<open>Crypto\<close> (\<open>crypto.rs\<close>): \<open>Cfb\<close> as a register machine (\<open>cfb_apply\<close>) and the adapter
    \<open>CryptoStream\<close> as a state passed through \<open>poll_read\<close> and \<open>poll_write\<close>, where the inner stream
    is a script of short, pending and failing operations.
  \<^item> \<open>Frps_Server\<close>, \<open>Frps_Control\<close> (\<open>server.rs\<close>): the record \<open>server\<close> is the shared state (controls,
    sessions by run id, port tables, counters); registering, closing, tearing down, logging in
    and the reader loop are functions on it, cut where the code releases a lock, so that
    \<open>server_step\<close> can interleave them. \<open>Frps_Control\<close> holds the proofs. \<open>Frps_Conn\<close> adds the tasks
    around them: accepting, TLS, the multiplexed connection, writers and copying loops.
  \<^item> \<open>FrpcConfig\<close>, \<open>Frpc_Client\<close>, \<open>Frpc_Tunnel\<close> (\<open>client.rs\<close>): proxy lines and validation; the
    registry of proxies, the supervisor and the control loop; dialling, the driver of the
    multiplexed session, work connections, copying, and the udp forwarder with its table of
    users. \<open>Frpc_Session\<close> puts a whole session together and runs one after the other under the
    supervisor. \<open>Probe\<close> is the tool \<open>examples/frpc_probe.rs\<close> on top of it.
  \<^item> \<open>RemgrConfig\<close> (\<open>config.rs\<close>, \<open>platform.rs\<close>): directory layout, the six sections with their
    defaults, load, and save as a list of file operations of which any may fail.
  \<^item> \<open>Certs\<close>, \<open>Secure\<close>, \<open>Signals\<close>, \<open>Acct\<close>, \<open>Logging\<close>: one per source file of that name.
    \<open>Signal_Tasks\<close> has the installation of the handlers, the reader thread and the Windows side;
    \<open>Log_Output\<close> the writer to standard output, the handler's descriptor and the live log view.
  \<^item> \<open>Stun\<close>, \<open>Turn_Tls\<close>, \<open>Rustdesk\<close>, \<open>Easytier\<close> (\<open>modules/\<close>): one per module, \<open>Turn_Tls\<close> for the
    TLS connections of \<open>stun_turn.rs\<close> and their tasks; \<open>Modules\<close> has the two frp
    modules, the application state and the interface over all five (\<open>module_start\<close>,
    \<open>module_stop\<close>, \<open>module_apply\<close>).
  \<^item> \<open>Console_Session\<close>, \<open>Console_Status\<close>, \<open>Console\<close>, \<open>Console_Inv\<close> (\<open>console/mod.rs\<close>): cookies,
    sessions, authentication layer, login, password change, edits; the status of the five
    modules; the router with every handler and the listener; the properties that span the handlers.
  \<^item> \<open>Boot\<close> (\<open>main.rs\<close>): command line, start-up, shutdown.

  \<^bold>\<open>Interfaces.\<close> Seven contracts are locales, interpreted on the definitions above. \<open>frame_codec\<close>
  (a frame can be cut off the front of any input) gives streams of frames from single frames and
  is interpreted for frp frames, TURN messages on TLS, and signal records. \<open>stream_cipher\<close>
  (encryption byte by byte) is interpreted for cipher feedback and carries the adapter's proofs.
  \<open>port_registry\<close> is interpreted for the server's port tables. \<open>session_table\<close> relates any table
  of sessions to its history of issues and revocations. \<open>service_module\<close> states what the console
  relies on of a module and is interpreted for all five at once. \<open>step_invariant\<close> and its
  extension \<open>safe_system\<close> carry an invariant from single steps to every interleaving, for the
  frp server, the udp forwarder and the application under requests.

  \<^bold>\<open>What is shown.\<close> Of the frp server: its bookkeeping is an invariant of every interleaving, a
  registration takes full effect or none, a torn-down control leaves nothing behind, login is
  equality of keys. Of the frp client: every registration is resolved, work connections and udp
  users stay within their bounds in every interleaving, every request for a stream is answered
  once, the supervisor never gives up and always logs in with its last run id, and client and server of the repository understand each other, datagrams included. Of
  the cipher: it equals block-wise CFB, and what is written at one end is read at the other
  through any short, pending or retried operation. Of the configuration: a save is atomic and
  reads back. Of the console: nothing is reachable without a session, sessions follow their
  history, guesses are bounded, an edit is a transaction, the password hash is out of reach, the
  status depends on no secret, the live log shows the broadcast lines in order, the listener is
  never lost, the dashboard behind the proxy never sees a session. Of the modules:
  start and stop keep their invariant and give back what they hold. Of the program: start-up
  establishes the invariant that every request keeps, a fresh installation can be logged into,
  shutdown stops everything. Lemmas named in the findings of the manifest show where the code
  departs from its comments.

  \<^bold>\<open>Parameters.\<close> Code outside the sources is an argument: the JSON and TOML text codecs, MD5, AES,
  PBKDF2, base64 and Argon2, certificate minting, time stamps as text, the servers in
  \<open>third_party/\<close>, and yamux, TLS and sockets as outcomes (what was accepted, read, refused). What
  a theorem needs of them is a hypothesis, such as that the decoder inverts the encoder.
  Randomness and clocks are inputs.

  \<^bold>\<open>Bounds and fuel.\<close> Ports, counters and time-to-live values are kept at their width, either as
  words or as naturals with the saturation of the source written out, and \<open>wf_config\<close> says that
  the configuration stays in range. Loops over a socket recurse over the list of its events, so
  they need no fuel; a list that ends without a stop event is a loop that still waits. The
  bounded retries (twenty attempts at the configuration lock, twenty binds) are written with the
  bound of the source. Other recursion is structural or has a measure.

  \<^bold>\<open>Not modelled.\<close> The scheduling of the tokio runtime below the atomic steps that are
  interleaved, the memory of sockets and TLS, timing (only the order of time-outs and their
  deadlines), the page served to the browser, help and version texts, the printed status lines
  of the probe and the standalone server \<open>ymx_probe.rs\<close>, the set-up of the tracing library, the
  build script, scripts and third-party code.
\<close>

end
